(* ===== verification/Bv_Prelude.thy ===== *)
theory Bv_Prelude
  imports Main "HOL-Library.Word"
begin

text \<open>
  Shared vocabulary of the development: byte strings, the results of Go calls (a value, an
  \<open>error\<close> value or a panic), and the parts of the Go standard library that every component
  uses: \<open>copy\<close>, \<open>encoding/binary\<close> in both byte orders, and the reads of a
  \<open>bytes.Buffer\<close>. A buffer is the list of its unread bytes; a read returns the bytes it
  delivers and the buffer that is left.

  The collections \<open>go_simps\<close> (results and binds), \<open>codec_simps\<close> (encodings and their
  inverses), \<open>len_simps\<close> (lengths of encodings) and \<open>parser_intros\<close> (readers only shrink
  the buffer and do not panic) carry the component proofs.
\<close>

named_theorems go_simps
named_theorems codec_simps
named_theorems len_simps
named_theorems parser_intros

type_synonym byte = "8 word"
type_synonym bytes = "8 word list"

section \<open>Results of Go calls\<close>

text \<open>
  A call returns normally (\<open>Inr\<close>), returns a non-nil \<open>error\<close> (\<open>GoError\<close>) or panics
  (\<open>GoPanic\<close>). \<open>bind_go\<close> is the early return on either.
\<close>

datatype go_exn = GoError string | GoPanic string

type_synonym 'a go = "go_exn + 'a"

definition bind_go :: "'a go \<Rightarrow> ('a \<Rightarrow> 'b go) \<Rightarrow> 'b go" where
  "bind_go m f = (case m of Inl e \<Rightarrow> Inl e | Inr x \<Rightarrow> f x)"

abbreviation nil_deref :: "'a go" where
  "nil_deref \<equiv> Inl (GoPanic ''invalid memory address or nil pointer dereference'')"

abbreviation index_out_of_range :: "'a go" where
  "index_out_of_range \<equiv> Inl (GoPanic ''index out of range'')"

abbreviation EOF :: go_exn where
  "EOF \<equiv> GoError ''EOF''"

abbreviation ErrUnexpectedEOF :: go_exn where
  "ErrUnexpectedEOF \<equiv> GoError ''unexpected EOF''"

fun is_panic :: "'a go \<Rightarrow> bool" where
  "is_panic (Inl (GoPanic _)) = True"
| "is_panic _ = False"

section \<open>The builtin \<open>copy\<close> and fixed-size arrays\<close>

text \<open>\<open>copy(dst, src)\<close> overwrites the first \<open>min(len(dst), len(src))\<close> bytes of \<open>dst\<close>.\<close>

definition copy_bytes :: "bytes \<Rightarrow> bytes \<Rightarrow> bytes" where
  "copy_bytes dst src = take (length dst) src @ drop (length src) dst"

abbreviation zeros :: "nat \<Rightarrow> bytes" where
  "zeros n \<equiv> replicate n 0"

section \<open>Indexing and slicing\<close>

text \<open>
  \<open>b[i]\<close>, \<open>b[i:]\<close> and \<open>b[:n]\<close> with their bounds checks. Reslicing up to \<open>n\<close> is
  bounded by the capacity: \<open>spare\<close> holds the bytes of the backing array behind the slice.
\<close>

definition index_go :: "bytes \<Rightarrow> nat \<Rightarrow> byte go" where
  "index_go b i = (if i < length b then Inr (b ! i) else index_out_of_range)"

definition slice_from :: "bytes \<Rightarrow> nat \<Rightarrow> bytes go" where
  "slice_from b i = (if i \<le> length b then Inr (drop i b) else Inl (GoPanic ''slice bounds out of range''))"

definition slice_to :: "bytes \<Rightarrow> bytes \<Rightarrow> nat \<Rightarrow> bytes go" where
  "slice_to b spare n = (if n \<le> length (b @ spare) then Inr (take n (b @ spare))
     else Inl (GoPanic ''slice bounds out of range''))"

text \<open>\<open>(*bytes.Buffer).Next\<close> with an \<open>int\<close> argument: a negative one panics.\<close>

definition bufNext_int :: "int \<Rightarrow> bytes \<Rightarrow> (bytes \<times> bytes) go" where
  "bufNext_int n b = (if n < 0 then Inl (GoPanic ''slice bounds out of range'')
     else Inr (take (nat n) b, drop (nat n) b))"

section \<open>\<open>encoding/binary\<close>\<close>

text \<open>\<open>to_le n x\<close> are the \<open>n\<close> low bytes of \<open>x\<close>, least significant first.\<close>

fun to_le :: "nat \<Rightarrow> nat \<Rightarrow> bytes" where
  "to_le 0 x = []"
| "to_le (Suc n) x = word_of_nat (x mod 256) # to_le n (x div 256)"

fun of_le :: "bytes \<Rightarrow> nat" where
  "of_le [] = 0"
| "of_le (b # bs) = unat b + 256 * of_le bs"

definition to_be :: "nat \<Rightarrow> nat \<Rightarrow> bytes" where
  "to_be n x = rev (to_le n x)"

definition of_be :: "bytes \<Rightarrow> nat" where
  "of_be bs = of_le (rev bs)"

section \<open>Reading from a \<open>bytes.Buffer\<close>\<close>

text \<open>
  \<open>io.ReadFull\<close>: all \<open>n\<close> bytes, \<open>EOF\<close> when nothing is left, \<open>ErrUnexpectedEOF\<close>
  when the buffer ends early.
\<close>

definition readFull :: "nat \<Rightarrow> bytes \<Rightarrow> (bytes \<times> bytes) go" where
  "readFull n b =
     (if n = 0 then Inr ([], b)
      else if b = [] then Inl EOF
      else if length b < n then Inl ErrUnexpectedEOF
      else Inr (take n b, drop n b))"

text \<open>\<open>(*bytes.Buffer).Read\<close>: up to \<open>n\<close> bytes, \<open>EOF\<close> on an empty buffer.\<close>

definition bufRead :: "nat \<Rightarrow> bytes \<Rightarrow> (bytes \<times> bytes) go" where
  "bufRead n b =
     (if b = [] then (if n = 0 then Inr ([], []) else Inl EOF)
      else Inr (take n b, drop n b))"

text \<open>\<open>(*bytes.Buffer).Next\<close>: up to \<open>n\<close> bytes, never an error.\<close>

definition bufNext :: "nat \<Rightarrow> bytes \<Rightarrow> bytes \<times> bytes" where
  "bufNext n b = (take n b, drop n b)"

text \<open>\<open>binary.Read(r, binary.BigEndian, &v)\<close> at the widths the program uses.\<close>

definition readBE32 :: "bytes \<Rightarrow> (32 word \<times> bytes) go" where
  "readBE32 b = bind_go (readFull 4 b) (\<lambda>(x, r). Inr (word_of_nat (of_be x), r))"

definition readBE64 :: "bytes \<Rightarrow> (64 word \<times> bytes) go" where
  "readBE64 b = bind_go (readFull 8 b) (\<lambda>(x, r). Inr (word_of_nat (of_be x), r))"

definition putBE32 :: "32 word \<Rightarrow> bytes" where
  "putBE32 w = to_be 4 (unat w)"

definition putBE64 :: "64 word \<Rightarrow> bytes" where
  "putBE64 w = to_be 8 (unat w)"

section \<open>Lemmas\<close>

lemma bind_go_Inr [simp]: "bind_go (Inr x) f = f x"
  by (simp add: bind_go_def)

lemma bind_go_Inl [simp]: "bind_go (Inl e) f = Inl e"
  by (simp add: bind_go_def)

lemma bind_go_eq_Inr [go_simps]: "bind_go m f = Inr y \<longleftrightarrow> (\<exists>x. m = Inr x \<and> f x = Inr y)"
  by (cases m) auto

lemma bind_go_eq_Inl [go_simps]:
  "bind_go m f = Inl e \<longleftrightarrow> m = Inl e \<or> (\<exists>x. m = Inr x \<and> f x = Inl e)"
  by (cases m) auto

lemma bind_go_assoc: "bind_go (bind_go m f) g = bind_go m (\<lambda>x. bind_go (f x) g)"
  by (cases m) auto

lemma bind_go_cong [fundef_cong]:
  "m = m' \<Longrightarrow> (\<And>x. m' = Inr x \<Longrightarrow> f x = f' x) \<Longrightarrow> bind_go m f = bind_go m' f'"
  by (cases m') auto

lemma bind_go_split:
  "P (bind_go m f) \<longleftrightarrow> (\<forall>e. m = Inl e \<longrightarrow> P (Inl e)) \<and> (\<forall>x. m = Inr x \<longrightarrow> P (f x))"
  by (cases m) auto

lemma length_copy_bytes [simp, len_simps]: "length (copy_bytes dst src) = length dst"
  by (simp add: copy_bytes_def)

lemma copy_bytes_same [simp]: "length src = length dst \<Longrightarrow> copy_bytes dst src = src"
  by (simp add: copy_bytes_def)

lemma copy_bytes_long: "length dst \<le> length src \<Longrightarrow> copy_bytes dst src = take (length dst) src"
  by (simp add: copy_bytes_def)

lemma index_go_lt [simp]: "i < length b \<Longrightarrow> index_go b i = Inr (b ! i)"
  by (simp add: index_go_def)

lemma slice_from_le [simp]: "i \<le> length b \<Longrightarrow> slice_from b i = Inr (drop i b)"
  by (simp add: slice_from_def)

lemma slice_to_le [simp]: "n \<le> length b \<Longrightarrow> slice_to b spare n = Inr (take n b)"
  by (simp add: slice_to_def)

lemma bufNext_int_append [simp, codec_simps]: "n = int (length x) \<Longrightarrow> bufNext_int n (x @ r) = Inr (x, r)"
  by (simp add: bufNext_int_def)

lemma length_to_le [simp, len_simps]: "length (to_le n x) = n"
  by (induction n arbitrary: x) auto

lemma length_to_be [simp, len_simps]: "length (to_be n x) = n"
  by (simp add: to_be_def)

lemma unat_byte: "unat (b :: byte) < 256"
  using unsigned_less [of b, where 'a = nat] by simp

lemma unat_word32: "unat (w :: 32 word) < 4294967296"
  using unsigned_less [of w, where 'a = nat] by simp

lemma unat_word64: "unat (w :: 64 word) < 18446744073709551616"
  using unsigned_less [of w, where 'a = nat] by simp

lemma of_le_bound: "of_le bs < 256 ^ length bs"
proof (induction bs)
  case Nil
  show ?case by simp
next
  case (Cons b bs)
  with unat_byte [of b] show ?case by simp
qed

lemma of_le_to_le [simp, codec_simps]: "of_le (to_le n x) = x mod 256 ^ n"
proof (induction n arbitrary: x)
  case 0
  show ?case by simp
next
  case (Suc n)
  have "unat (word_of_nat (x mod 256) :: byte) = x mod 256"
    by (simp add: unat_of_nat)
  then show ?case
    by (simp add: Suc.IH mod_mult2_eq)
qed

lemma to_le_of_le [codec_simps]: "n = length bs \<Longrightarrow> to_le n (of_le bs) = bs"
proof (induction bs arbitrary: n)
  case Nil
  then show ?case by simp
next
  case (Cons b bs)
  have "(unat b + 256 * of_le bs) div 256 = of_le bs" and "(unat b + 256 * of_le bs) mod 256 = unat b"
    using unat_byte [of b] by simp_all
  with Cons show ?case by simp
qed

lemma of_be_to_be [simp, codec_simps]: "of_be (to_be n x) = x mod 256 ^ n"
  by (simp add: of_be_def to_be_def)

lemma to_be_of_be [codec_simps]: "n = length bs \<Longrightarrow> to_be n (of_be bs) = bs"
  by (simp add: of_be_def to_be_def to_le_of_le)

lemma of_be_bound: "of_be bs < 256 ^ length bs"
  using of_le_bound [of "rev bs"] by (simp add: of_be_def)

lemma word_of_nat_mod256: "(word_of_nat (x mod 256) :: byte) = word_of_nat x"
proof -
  have "(word_of_nat x :: byte) = word_of_nat (256 * (x div 256) + x mod 256)"
    by (simp only: mult_div_mod_eq)
  also have "\<dots> = 256 * word_of_nat (x div 256) + word_of_nat (x mod 256)"
    by (simp only: of_nat_add of_nat_mult of_nat_numeral)
  also have "(256 :: byte) = 0" by simp
  finally show ?thesis by (simp only: mult_zero_left add_0)
qed

lemma nth_to_le: "i < n \<Longrightarrow> to_le n x ! i = word_of_nat (x div 256 ^ i)"
proof (induction n arbitrary: i x)
  case 0
  then show ?case by simp
next
  case (Suc n)
  then show ?case
    by (cases i) (auto simp: word_of_nat_mod256 div_mult2_eq)
qed

lemma nth_to_be: "i < n \<Longrightarrow> to_be n x ! i = word_of_nat (x div 256 ^ (n - Suc i))"
  by (simp add: to_be_def rev_nth nth_to_le)

lemma to_le_mod: "to_le n (x mod 256 ^ n) = to_le n x"
proof (induction n arbitrary: x)
  case 0
  show ?case by simp
next
  case (Suc n)
  have m: "x mod (b * c) mod b = x mod b" "x mod (b * c) div b = x div b mod c" if "0 < b" for b c :: nat
    using that by (simp_all add: mod_mult2_eq)
  show ?case
    using Suc.IH [of "x div 256"] by (simp only: to_le.simps power_Suc m [of 256] zero_less_numeral)
qed

lemma ucast_drop_bit: "(ucast (drop_bit k w) :: byte) = word_of_nat (unat w div 2 ^ k)"
  for w :: "'a::len word"
proof -
  have "(ucast (drop_bit k w) :: byte) = word_of_nat (unat (drop_bit k w))" by simp
  also have "unat (drop_bit k w) = unat w div 2 ^ k"
    by (simp only: unat_drop_bit_eq) (simp add: drop_bit_eq_div)
  finally show ?thesis .
qed

lemma length_putBE32 [simp, len_simps]: "length (putBE32 w) = 4"
  by (simp add: putBE32_def)

lemma length_putBE64 [simp, len_simps]: "length (putBE64 w) = 8"
  by (simp add: putBE64_def)

lemma readFull_append [simp, codec_simps]:
  "length x = n \<Longrightarrow> readFull n (x @ r) = Inr (x, r)"
  by (cases "n = 0") (auto simp: readFull_def)

lemma bufRead_append [simp, codec_simps]:
  "length x = n \<Longrightarrow> x \<noteq> [] \<Longrightarrow> bufRead n (x @ r) = Inr (x, r)"
  by (auto simp: bufRead_def)

lemma bufNext_append [simp, codec_simps]: "length x = n \<Longrightarrow> bufNext n (x @ r) = (x, r)"
  by (auto simp: bufNext_def)

lemma readFull_Inr: "readFull n b = Inr (x, r) \<Longrightarrow> b = x @ r \<and> length x = n"
  by (auto simp: readFull_def split: if_splits)

lemma bufRead_Inr: "bufRead n b = Inr (x, r) \<Longrightarrow> b = x @ r \<and> length x \<le> n"
  by (auto simp: bufRead_def split: if_splits)

lemma readBE32_put [simp, codec_simps]: "readBE32 (putBE32 w @ r) = Inr (w, r)"
proof -
  have "unat w mod 256 ^ 4 = unat w"
    using unat_word32 [of w] by simp
  then show ?thesis
    by (simp add: readBE32_def putBE32_def)
qed

lemma readBE64_put [simp, codec_simps]: "readBE64 (putBE64 w @ r) = Inr (w, r)"
proof -
  have "unat w mod 256 ^ 8 = unat w"
    using unat_word64 [of w] by simp
  then show ?thesis
    by (simp add: readBE64_def putBE64_def)
qed

lemma readBE32_Inr:
  assumes "readBE32 b = Inr (w, r)"
  shows "b = putBE32 w @ r"
proof -
  from assms obtain x where x: "readFull 4 b = Inr (x, r)" and w: "w = word_of_nat (of_be x)"
    by (auto simp: readBE32_def go_simps)
  from x have b: "b = x @ r" and l: "length x = 4"
    by (auto dest: readFull_Inr)
  have "unat w = of_be x"
    using of_be_bound [of x] l w by (simp add: unat_of_nat)
  with b l show ?thesis
    by (simp add: putBE32_def to_be_of_be)
qed

lemma readBE64_Inr:
  assumes "readBE64 b = Inr (w, r)"
  shows "b = putBE64 w @ r"
proof -
  from assms obtain x where x: "readFull 8 b = Inr (x, r)" and w: "w = word_of_nat (of_be x)"
    by (auto simp: readBE64_def go_simps)
  from x have b: "b = x @ r" and l: "length x = 8"
    by (auto dest: readFull_Inr)
  have "unat w = of_be x"
    using of_be_bound [of x] l w by (simp add: unat_of_nat)
  with b l show ?thesis
    by (simp add: putBE64_def to_be_of_be)
qed

section \<open>Readers shrink the buffer and do not panic\<close>

definition shrinks :: "nat \<Rightarrow> ('a \<times> bytes) go \<Rightarrow> bool" where
  "shrinks n m \<longleftrightarrow> (\<forall>x r. m = Inr (x, r) \<longrightarrow> length r \<le> n)"

lemma shrinks_basic [parser_intros]:
  "shrinks n (Inl e)" "length r \<le> n \<Longrightarrow> shrinks n (Inr (x, r))"
  by (simp_all add: shrinks_def)

lemma shrinks_bind [parser_intros]:
  "shrinks n m \<Longrightarrow> (\<And>x r. length r \<le> n \<Longrightarrow> shrinks n (f (x, r))) \<Longrightarrow> shrinks n (bind_go m f)"
  by (cases m) (auto simp: shrinks_def)

lemma shrinks_if [parser_intros]:
  "(b \<Longrightarrow> shrinks n m) \<Longrightarrow> (\<not> b \<Longrightarrow> shrinks n m') \<Longrightarrow> shrinks n (if b then m else m')"
  by simp

lemma shrinks_reads [parser_intros]:
  "length b \<le> n \<Longrightarrow> shrinks n (readFull k b)"
  "length b \<le> n \<Longrightarrow> shrinks n (bufRead k b)"
  "length b \<le> n \<Longrightarrow> shrinks n (readBE32 b)"
  "length b \<le> n \<Longrightarrow> shrinks n (readBE64 b)"
  by (auto simp: shrinks_def readBE32_def readBE64_def go_simps dest: readFull_Inr bufRead_Inr)

lemma shrinks_Inr: "shrinks n m \<Longrightarrow> m = Inr (x, r) \<Longrightarrow> length r \<le> n"
  by (simp add: shrinks_def)

definition panic_free :: "'a go \<Rightarrow> bool" where
  "panic_free m \<longleftrightarrow> \<not> is_panic m"

lemma panic_free_basic [parser_intros]: "panic_free (Inr x)" "panic_free (Inl (GoError e))"
  by (simp_all add: panic_free_def)

lemma panic_free_bind [parser_intros]:
  "panic_free m \<Longrightarrow> (\<And>x. m = Inr x \<Longrightarrow> panic_free (f x)) \<Longrightarrow> panic_free (bind_go m f)"
  by (cases m) (auto simp: panic_free_def bind_go_def is_panic.simps split: go_exn.splits elim!: is_panic.elims)

lemma panic_free_if [parser_intros]:
  "(b \<Longrightarrow> panic_free m) \<Longrightarrow> (\<not> b \<Longrightarrow> panic_free m') \<Longrightarrow> panic_free (if b then m else m')"
  by simp

lemma panic_free_reads [parser_intros]:
  "panic_free (readFull k b)" "panic_free (bufRead k b)" "panic_free (readBE32 b)" "panic_free (readBE64 b)"
  by (auto simp: panic_free_def readBE32_def readBE64_def readFull_def bufRead_def bind_go_def)

end
