(* ===== verification/Fast_Sha256.thy ===== *)
theory Fast_Sha256
  imports Bv_Prelude
begin

text \<open>
  The SHA-256 implementation of \<open>crypto/fastsha256\<close> (\<open>sha256.go\<close> and the portable block
  function of \<open>sha256block.go\<close>) and \<open>crypto.WitnessKeyAndValue\<close>. The streaming digest
  buffers a partial chunk, hashes whole chunks as they arrive and pads on \<open>Sum\<close>; the theory
  relates it to a reference definition in the shape of FIPS 180-4 (pad, cut into 64-byte
  blocks, fold the compression function), for every split of the input into writes.
\<close>

unbundle bit_operations_syntax

section \<open>The block function\<close>

definition K256 :: "32 word list" where
  "K256 =
     [0x428a2f98, 0x71374491, 0xb5c0fbcf, 0xe9b5dba5, 0x3956c25b, 0x59f111f1, 0x923f82a4, 0xab1c5ed5,
      0xd807aa98, 0x12835b01, 0x243185be, 0x550c7dc3, 0x72be5d74, 0x80deb1fe, 0x9bdc06a7, 0xc19bf174,
      0xe49b69c1, 0xefbe4786, 0x0fc19dc6, 0x240ca1cc, 0x2de92c6f, 0x4a7484aa, 0x5cb0a9dc, 0x76f988da,
      0x983e5152, 0xa831c66d, 0xb00327c8, 0xbf597fc7, 0xc6e00bf3, 0xd5a79147, 0x06ca6351, 0x14292967,
      0x27b70a85, 0x2e1b2138, 0x4d2c6dfc, 0x53380d13, 0x650a7354, 0x766a0abb, 0x81c2c92e, 0x92722c85,
      0xa2bfe8a1, 0xa81a664b, 0xc24b8b70, 0xc76c51a3, 0xd192e819, 0xd6990624, 0xf40e3585, 0x106aa070,
      0x19a4c116, 0x1e376c08, 0x2748774c, 0x34b0bcb5, 0x391c0cb3, 0x4ed8aa4a, 0x5b9cca4f, 0x682e6ff3,
      0x748f82ee, 0x78a5636f, 0x84c87814, 0x8cc70208, 0x90befffa, 0xa4506ceb, 0xbef9a3f7, 0xc67178f2]"

type_synonym hstate =
  "32 word \<times> 32 word \<times> 32 word \<times> 32 word \<times> 32 word \<times> 32 word \<times> 32 word \<times> 32 word"

definition load_word :: "bytes \<Rightarrow> nat \<Rightarrow> 32 word" where
  "load_word p j =
     push_bit 24 (ucast (p ! j)) OR push_bit 16 (ucast (p ! (j + 1)))
       OR push_bit 8 (ucast (p ! (j + 2))) OR ucast (p ! (j + 3))"

text \<open>The loop \<open>for i := 16; i < 64; i++\<close>: \<open>w\<close> holds the entries filled so far.\<close>

fun expand_words :: "nat \<Rightarrow> 32 word list \<Rightarrow> 32 word list" where
  "expand_words 0 w = w"
| "expand_words (Suc n) w =
     (let i = length w;
          v1 = w ! (i - 2);
          t1 = (drop_bit 17 v1 OR push_bit (32 - 17) v1) XOR (drop_bit 19 v1 OR push_bit (32 - 19) v1)
                 XOR drop_bit 10 v1;
          v2 = w ! (i - 15);
          t2 = (drop_bit 7 v2 OR push_bit (32 - 7) v2) XOR (drop_bit 18 v2 OR push_bit (32 - 18) v2)
                 XOR drop_bit 3 v2
      in expand_words n (w @ [t1 + w ! (i - 7) + t2 + w ! (i - 16)]))"

definition message_words :: "bytes \<Rightarrow> 32 word list" where
  "message_words p = expand_words 48 (map (\<lambda>i. load_word p (i * 4)) [0..<16])"

fun sha_round :: "32 word list \<Rightarrow> nat \<Rightarrow> hstate \<Rightarrow> hstate" where
  "sha_round w i (a, b, c, d, e, f, g, h) =
     (let t1 = h + ((drop_bit 6 e OR push_bit (32 - 6) e) XOR (drop_bit 11 e OR push_bit (32 - 11) e)
                     XOR (drop_bit 25 e OR push_bit (32 - 25) e))
                 + ((e AND f) XOR (NOT e AND g)) + K256 ! i + w ! i;
          t2 = ((drop_bit 2 a OR push_bit (32 - 2) a) XOR (drop_bit 13 a OR push_bit (32 - 13) a)
                  XOR (drop_bit 22 a OR push_bit (32 - 22) a))
                 + ((a AND b) XOR (a AND c) XOR (b AND c))
      in (t1 + t2, a, b, c, d + t1, e, f, g))"

fun add_state :: "hstate \<Rightarrow> hstate \<Rightarrow> hstate" where
  "add_state (h0, h1, h2, h3, h4, h5, h6, h7) (a, b, c, d, e, f, g, h) =
     (h0 + a, h1 + b, h2 + c, h3 + d, h4 + e, h5 + f, h6 + g, h7 + h)"

text \<open>One pass of the outer loop of \<open>block\<close>, on the first 64 bytes of \<open>p\<close>.\<close>

definition block_chunk :: "hstate \<Rightarrow> bytes \<Rightarrow> hstate" where
  "block_chunk hs p = add_state hs (fold (sha_round (message_words p)) [0..<64] hs)"

function block :: "hstate \<Rightarrow> bytes \<Rightarrow> hstate" where
  "block hs p = (if 64 \<le> length p then block (block_chunk hs p) (drop 64 p) else hs)"
  by pat_completeness auto
termination
  by (relation "measure (\<lambda>(hs, p). length p)") auto

declare block.simps [simp del]

section \<open>The streaming digest\<close>

record digest =
  dg_h :: hstate
  dg_x :: bytes
  dg_nx :: nat
  dg_len :: "64 word"

definition init_state :: hstate where
  "init_state = (0x6A09E667, 0xBB67AE85, 0x3C6EF372, 0xA54FF53A, 0x510E527F, 0x9B05688C, 0x1F83D9AB,
     0x5BE0CD19)"

definition digest_Reset :: "digest \<Rightarrow> digest" where
  "digest_Reset d = d\<lparr>dg_h := init_state, dg_nx := 0, dg_len := 0\<rparr>"

text \<open>\<open>new(digest)\<close> is zeroed.\<close>

definition zero_digest :: digest where
  "zero_digest = \<lparr>dg_h = (0, 0, 0, 0, 0, 0, 0, 0), dg_x = zeros 64, dg_nx = 0, dg_len = 0\<rparr>"

definition sha_New :: digest where
  "sha_New = digest_Reset zero_digest"

definition digest_Write :: "digest \<Rightarrow> bytes \<Rightarrow> digest" where
  "digest_Write d0 p0 =
     (let d1 = d0\<lparr>dg_len := dg_len d0 + word_of_nat (length p0)\<rparr>;
          (d2, p2) =
            (if dg_nx d1 > 0 then
               let n = min (length (dg_x d1) - dg_nx d1) (length p0);
                   x = take (dg_nx d1) (dg_x d1) @ copy_bytes (drop (dg_nx d1) (dg_x d1)) p0;
                   nx = dg_nx d1 + n
               in (if nx = 64 then d1\<lparr>dg_x := x, dg_h := block (dg_h d1) x, dg_nx := 0\<rparr>
                   else d1\<lparr>dg_x := x, dg_nx := nx\<rparr>, drop n p0)
             else (d1, p0));
          (d3, p3) =
            (if 64 \<le> length p2 then
               let n = length p2 div 64 * 64
               in (d2\<lparr>dg_h := block (dg_h d2) (take n p2)\<rparr>, drop n p2)
             else (d2, p2))
      in if p3 \<noteq> []
         then d3\<lparr>dg_x := copy_bytes (dg_x d3) p3, dg_nx := min (length (dg_x d3)) (length p3)\<rparr>
         else d3)"

definition store_word :: "32 word \<Rightarrow> bytes" where
  "store_word s = [ucast (drop_bit 24 s), ucast (drop_bit 16 s), ucast (drop_bit 8 s), ucast s]"

fun store_state :: "hstate \<Rightarrow> bytes" where
  "store_state (a, b, c, d, e, f, g, h) = concat (map store_word [a, b, c, d, e, f, g, h])"

text \<open>\<open>tmp[i] = byte(len >> (56 - 8*i))\<close> for \<open>i\<close> below 8.\<close>

definition length_bytes :: "64 word \<Rightarrow> bytes" where
  "length_bytes n = map (\<lambda>i. ucast (drop_bit (56 - 8 * i) n)) [0..<8]"

definition digest_checkSum :: "digest \<Rightarrow> bytes go" where
  "digest_checkSum d =
     (let len = dg_len d;
          tmp = 0x80 # zeros 63;
          r = unat (len mod 64);
          d1 = (if r < 56 then digest_Write d (take (56 - r) tmp)
                else digest_Write d (take (64 + 56 - r) tmp));
          d2 = digest_Write d1 (length_bytes (push_bit 3 len))
      in if dg_nx d2 \<noteq> 0 then Inl (GoPanic ''d.nx != 0'') else Inr (store_state (dg_h d2)))"

definition digest_Sum :: "digest \<Rightarrow> bytes \<Rightarrow> bytes go" where
  "digest_Sum d input = bind_go (digest_checkSum d) (\<lambda>h. Inr (input @ h))"

definition Sum256_go :: "bytes \<Rightarrow> bytes go" where
  "Sum256_go data = digest_checkSum (digest_Write (digest_Reset zero_digest) data)"

text \<open>
  The value of \<open>Sum256\<close>; \<open>Sum256_go_eq\<close> shows that the panic branch is never taken, so
  that this loses nothing.
\<close>

definition Sum256 :: "bytes \<Rightarrow> bytes" where
  "Sum256 data = (case Sum256_go data of Inl _ \<Rightarrow> [] | Inr h \<Rightarrow> h)"

definition MidState256 :: "bytes \<Rightarrow> bytes" where
  "MidState256 data =
     store_state (dg_h (digest_Write (digest_Reset zero_digest)
       (if length data > 64 then take 64 data else data)))"

definition WitnessKeyAndValue_go :: "bytes \<Rightarrow> bytes \<Rightarrow> bytes go" where
  "WitnessKeyAndValue_go key value = digest_Sum (digest_Write (digest_Write sha_New key) value) []"

section \<open>The reference: FIPS 180-4\<close>

definition Ch :: "32 word \<Rightarrow> 32 word \<Rightarrow> 32 word \<Rightarrow> 32 word" where
  "Ch x y z = (x AND y) XOR (NOT x AND z)"

definition Maj :: "32 word \<Rightarrow> 32 word \<Rightarrow> 32 word \<Rightarrow> 32 word" where
  "Maj x y z = (x AND y) XOR (x AND z) XOR (y AND z)"

definition Sigma0 :: "32 word \<Rightarrow> 32 word" where
  "Sigma0 x = word_rotr 2 x XOR word_rotr 13 x XOR word_rotr 22 x"

definition Sigma1 :: "32 word \<Rightarrow> 32 word" where
  "Sigma1 x = word_rotr 6 x XOR word_rotr 11 x XOR word_rotr 25 x"

definition sigma0 :: "32 word \<Rightarrow> 32 word" where
  "sigma0 x = word_rotr 7 x XOR word_rotr 18 x XOR drop_bit 3 x"

definition sigma1 :: "32 word \<Rightarrow> 32 word" where
  "sigma1 x = word_rotr 17 x XOR word_rotr 19 x XOR drop_bit 10 x"

text \<open>The message schedule as a recursive function of the index.\<close>

fun fips_W :: "bytes \<Rightarrow> nat \<Rightarrow> 32 word" where
  "fips_W p t =
     (if t < 16 then word_of_nat (of_be (take 4 (drop (4 * t) p)))
      else sigma1 (fips_W p (t - 2)) + fips_W p (t - 7) + sigma0 (fips_W p (t - 15)) + fips_W p (t - 16))"

declare fips_W.simps [simp del]

fun fips_round :: "bytes \<Rightarrow> nat \<Rightarrow> hstate \<Rightarrow> hstate" where
  "fips_round p t (a, b, c, d, e, f, g, h) =
     (let T1 = h + Sigma1 e + Ch e f g + K256 ! t + fips_W p t;
          T2 = Sigma0 a + Maj a b c
      in (T1 + T2, a, b, c, d + T1, e, f, g))"

definition fips_compress :: "bytes \<Rightarrow> hstate \<Rightarrow> hstate" where
  "fips_compress p hs = add_state hs (fold (fips_round p) [0..<64] hs)"

text \<open>The padded message: a one bit, the least number of zero bits, the 64-bit length.\<close>

definition fips_pad :: "bytes \<Rightarrow> bytes" where
  "fips_pad m = m @ [0x80] @ zeros ((119 - length m mod 64) mod 64) @ to_be 8 (8 * length m)"

definition fips_blocks :: "bytes \<Rightarrow> bytes list" where
  "fips_blocks m = map (\<lambda>i. take 64 (drop (64 * i) m)) [0..<length m div 64]"

definition fips_sha256 :: "bytes \<Rightarrow> bytes" where
  "fips_sha256 m = store_state (fold fips_compress (fips_blocks (fips_pad m)) init_state)"

section \<open>The block loop\<close>

lemma block_short [simp]: "length p < 64 \<Longrightarrow> block hs p = hs"
  by (subst block.simps) simp

lemma block_step: "64 \<le> length p \<Longrightarrow> block hs p = block (block_chunk hs p) (drop 64 p)"
  by (subst block.simps) simp

lemma block_append:
  "length p mod 64 = 0 \<Longrightarrow> block hs (p @ q) = block (block hs p) q"
proof (induction hs p rule: block.induct)
  case (1 hs p)
  show ?case
  proof (cases "64 \<le> length p")
    case True
    have c: "block_chunk hs (p @ q) = block_chunk hs p"
      using True
      by (auto simp: block_chunk_def message_words_def load_word_def nth_append
          intro!: arg_cong [where f = "\<lambda>w. add_state hs (fold (sha_round (expand_words 48 w)) [0..<64] hs)"])
    have "length (drop 64 p) mod 64 = 0"
      using True "1.prems" by (simp add: le_mod_geq)
    then have "block (block_chunk hs p) (drop 64 p @ q) = block (block (block_chunk hs p) (drop 64 p)) q"
      using True by (intro "1.IH") auto
    with True c show ?thesis
      by (simp add: block_step)
  next
    case False
    with "1.prems" have "p = []" by simp
    then show ?thesis by simp
  qed
qed

lemma block_whole_chunks: "block hs (take (length p div 64 * 64) p) = block hs p"
proof -
  let ?n = "length p div 64 * 64"
  have "block hs p = block (block hs (take ?n p)) (drop ?n p)"
    using block_append [of "take ?n p" hs "drop ?n p"] by simp
  moreover have "length (drop ?n p) < 64"
    by (simp add: minus_div_mult_eq_mod)
  ultimately show ?thesis by simp
qed

section \<open>Streaming\<close>

text \<open>The digest \<open>d\<close> has absorbed the message \<open>m\<close>.\<close>

definition absorbed :: "digest \<Rightarrow> bytes \<Rightarrow> bool" where
  "absorbed d m \<longleftrightarrow>
     dg_len d = word_of_nat (length m) \<and> dg_nx d = length m mod 64 \<and> length (dg_x d) = 64
       \<and> take (length m mod 64) (dg_x d) = drop (length m div 64 * 64) m
       \<and> dg_h d = block init_state m"

lemma absorbed_Reset: "length (dg_x d) = 64 \<Longrightarrow> absorbed (digest_Reset d) []"
  by (simp add: absorbed_def digest_Reset_def)

text \<open>A write that starts on a chunk boundary.\<close>

lemma digest_Write_aligned:
  assumes "dg_nx d = 0" and "length (dg_x d) = 64"
  shows "digest_Write d p = d\<lparr>dg_len := dg_len d + word_of_nat (length p), dg_h := block (dg_h d) p,
    dg_x := (if length p mod 64 = 0 then dg_x d
             else copy_bytes (dg_x d) (drop (length p div 64 * 64) p)),
    dg_nx := length p mod 64\<rparr>"
proof (cases "64 \<le> length p")
  case True
  have "(drop (length p div 64 * 64) p = []) = (length p mod 64 = 0)"
    by (simp add: minus_div_mult_eq_mod [symmetric])
  then show ?thesis
    using True assms by (simp add: digest_Write_def block_whole_chunks minus_div_mult_eq_mod)
next
  case False
  then have "length p div 64 = 0" and "length p mod 64 = length p" by auto
  with False assms show ?thesis by (simp add: digest_Write_def)
qed

lemma aligned_mod:
  assumes "(m::nat) mod 64 = 0"
  shows "(m + n) mod 64 = n mod 64" and "(m + n) div 64 * 64 = m + n div 64 * 64"
proof -
  obtain k where "m = 64 * k" using assms by auto
  then show "(m + n) mod 64 = n mod 64" and "(m + n) div 64 * 64 = m + n div 64 * 64"
    by (simp_all add: algebra_simps)
qed

lemma fill_mod:
  assumes "(m::nat) mod 64 + n = 64"
  shows "(m + n) mod 64 = 0"
proof -
  have "m + n = m div 64 * 64 + 64"
    using assms div_mult_mod_eq [of m 64] by linarith
  then show ?thesis by simp
qed

lemma unaligned_mod:
  assumes "(m::nat) mod 64 + n < 64"
  shows "(m + n) mod 64 = m mod 64 + n" and "(m + n) div 64 = m div 64"
proof -
  define k r where "k = m div 64" and "r = m mod 64"
  then have "m = r + 64 * k" by simp
  with assms show "(m + n) mod 64 = m mod 64 + n" and "(m + n) div 64 = m div 64"
    unfolding r_def [symmetric] k_def [symmetric] by (simp_all add: add.assoc [symmetric] add.commute [of _ n])
qed

lemma absorbed_aligned:
  assumes d: "absorbed d m" and m: "length m mod 64 = 0"
  shows "absorbed (digest_Write d p) (m @ p)"
proof -
  note mod = aligned_mod(1) [OF m, of "length p"]
  note div = aligned_mod(2) [OF m, of "length p"]
  have x: "length (dg_x d) = 64" "dg_nx d = 0" using d m by (auto simp: absorbed_def)
  have w: "dg_nx (digest_Write d p) = length p mod 64"
    "dg_len (digest_Write d p) = word_of_nat (length m + length p)"
    "dg_h (digest_Write d p) = block init_state (m @ p)"
    "length (dg_x (digest_Write d p)) = 64"
    using d m x by (simp_all add: digest_Write_aligned absorbed_def block_append)
  have "take (length p mod 64) (dg_x (digest_Write d p)) = drop (length p div 64 * 64) p"
    using x by (auto simp: digest_Write_aligned copy_bytes_def minus_div_mult_eq_mod)
  with w mod div show ?thesis
    by (simp add: absorbed_def)
qed

text \<open>A write that stays within the buffered chunk.\<close>

lemma absorbed_partial:
  assumes d: "absorbed d m" and p: "length m mod 64 + length p < 64"
  shows "absorbed (digest_Write d p) (m @ p)"
proof (cases "length m mod 64 = 0")
  case True
  with d show ?thesis by (rule absorbed_aligned)
next
  case False
  note mod = unaligned_mod(1) [OF p]
  note div = unaligned_mod(2) [OF p]
  have x: "length (dg_x d) = 64" "dg_nx d = length m mod 64"
    "take (length m mod 64) (dg_x d) = drop (length m div 64 * 64) m"
    using d by (auto simp: absorbed_def)
  have w: "digest_Write d p = d\<lparr>dg_len := dg_len d + word_of_nat (length p),
    dg_x := take (dg_nx d) (dg_x d) @ copy_bytes (drop (dg_nx d) (dg_x d)) p,
    dg_nx := dg_nx d + length p\<rparr>"
    using p x False by (simp add: digest_Write_def Let_def)
  have h: "block init_state (m @ p) = block init_state m"
    using block_whole_chunks [of init_state "m @ p"] block_whole_chunks [of init_state m]
    by (simp add: div)
  have t: "take (length m mod 64 + length p) (take (length m mod 64) (dg_x d) @ copy_bytes (drop (length m mod 64) (dg_x d)) p)
     = drop (length m div 64 * 64) m @ p"
    using p x(1) by (simp add: x(3) copy_bytes_def minus_div_mult_eq_mod)
  show ?thesis
    using d p x h t w by (simp add: absorbed_def mod div)
qed

text \<open>A write that fills the buffered chunk continues on the boundary.\<close>

definition write_tail :: "digest \<Rightarrow> bytes \<Rightarrow> digest" where
  "write_tail d2 p2 =
     (let (d3, p3) =
            (if 64 \<le> length p2 then
               let n = length p2 div 64 * 64
               in (d2\<lparr>dg_h := block (dg_h d2) (take n p2)\<rparr>, drop n p2)
             else (d2, p2))
      in if p3 \<noteq> []
         then d3\<lparr>dg_x := copy_bytes (dg_x d3) p3, dg_nx := min (length (dg_x d3)) (length p3)\<rparr>
         else d3)"

lemma digest_Write_tail:
  "dg_nx d = 0 \<Longrightarrow> digest_Write d p = write_tail (d\<lparr>dg_len := dg_len d + word_of_nat (length p)\<rparr>) p"
  by (simp add: digest_Write_def write_tail_def Let_def)

lemma digest_Write_full:
  assumes "0 < dg_nx d" and "length (dg_x d) = dg_nx d + n" and "n \<le> length p" and "dg_nx d + n = 64"
  shows "digest_Write d p = write_tail
    (d\<lparr>dg_len := dg_len d + word_of_nat (length p),
       dg_x := take (dg_nx d) (dg_x d) @ take n p,
       dg_h := block (dg_h d) (take (dg_nx d) (dg_x d) @ take n p), dg_nx := 0\<rparr>) (drop n p)"
proof -
  have "min (length (dg_x d) - dg_nx d) (length p) = n" using assms by simp
  moreover have "copy_bytes (drop (dg_nx d) (dg_x d)) p = take n p"
    using assms(2) by (simp only: copy_bytes_def) (use assms(3) in simp)
  ultimately show ?thesis
    using assms(1,4) by (simp only: digest_Write_def Let_def write_tail_def) simp
qed

lemma digest_Write_fill:
  assumes "0 < dg_nx d" and "dg_nx d < 64" and "length (dg_x d) = 64" and "64 - dg_nx d \<le> length p"
  shows "digest_Write d p = digest_Write
    (digest_Write d (take (64 - dg_nx d) p)) (drop (64 - dg_nx d) p)"
proof -
  define n where "n = 64 - dg_nx d"
  have n: "length (dg_x d) = dg_nx d + n" "n \<le> length p" "dg_nx d + n = 64" "length (take n p) = n"
    using assms by (simp_all add: n_def)
  have "word_of_nat (length p) = (word_of_nat n + word_of_nat (length (drop n p)) :: 64 word)"
    using n(2) by (metis le_add_diff_inverse length_drop of_nat_add)
  moreover let ?d1 = "d\<lparr>dg_len := dg_len d + word_of_nat n, dg_x := take (dg_nx d) (dg_x d) @ take n p,
       dg_h := block (dg_h d) (take (dg_nx d) (dg_x d) @ take n p), dg_nx := 0\<rparr>"
  have "digest_Write d (take n p) = ?d1"
    using digest_Write_full [of d n "take n p"] n assms(1) by (simp add: write_tail_def)
  moreover have "digest_Write ?d1 q = write_tail (?d1\<lparr>dg_len := dg_len ?d1 + word_of_nat (length q)\<rparr>) q" for q
    by (rule digest_Write_tail) simp
  moreover have "dg_len ?d1 = dg_len d + word_of_nat n" by simp
  moreover have "d\<lparr>dg_len := l, dg_x := x, dg_h := h, dg_nx := k, dg_len := l'\<rparr>
      = d\<lparr>dg_len := l', dg_x := x, dg_h := h, dg_nx := k\<rparr>" for l l' x h k
    by (cases d) simp
  ultimately show ?thesis
    using digest_Write_full [OF assms(1) n(1-3)]
    unfolding n_def [symmetric] by (simp only: add.assoc)
qed

lemma absorbed_fill:
  assumes d: "absorbed d m" and p: "length m mod 64 + length p = 64"
  shows "absorbed (digest_Write d p) (m @ p)"
proof (cases "length m mod 64 = 0")
  case True
  with d show ?thesis by (rule absorbed_aligned)
next
  case False
  let ?q = "length m div 64 * 64"
  have x: "length (dg_x d) = 64" "dg_nx d = length m mod 64" "take (length m mod 64) (dg_x d) = drop ?q m"
    using d by (auto simp: absorbed_def)
  have mod: "(length m + length p) mod 64 = 0"
    using p by (rule fill_mod)
  then have div: "(length m + length p) div 64 * 64 = length m + length p"
    using div_mult_mod_eq [of "length m + length p" 64] by simp
  have w: "digest_Write d p = d\<lparr>dg_len := dg_len d + word_of_nat (length p), dg_x := drop ?q m @ p,
      dg_h := block (dg_h d) (drop ?q m @ p), dg_nx := 0\<rparr>"
    using p x False by (simp add: digest_Write_def Let_def copy_bytes_def)
  have "block (block init_state m) (drop ?q m @ p) = block init_state (m @ p)"
    using block_append [of "take ?q m" init_state "drop ?q m @ p"] block_whole_chunks [of init_state m]
    by (simp flip: append_assoc)
  then have "dg_h (digest_Write d p) = block init_state (m @ p)" "dg_len (digest_Write d p) = word_of_nat (length m + length p)"
     "dg_nx (digest_Write d p) = 0" "length (dg_x (digest_Write d p)) = 64"
    using d p unfolding w by (simp_all add: absorbed_def minus_div_mult_eq_mod)
  then show ?thesis
    by (simp only: absorbed_def length_append mod div) simp
qed

text \<open>
  Any write: \<open>digest_Write\<close> absorbs its argument.
\<close>

lemma absorbed_Write:
  assumes d: "absorbed d m"
  shows "absorbed (digest_Write d p) (m @ p)"
proof (cases "length m mod 64 = 0 \<or> length m mod 64 + length p < 64")
  case True
  with d show ?thesis by (auto intro: absorbed_aligned absorbed_partial)
next
  case False
  let ?n = "64 - length m mod 64"
  have nx: "dg_nx d = length m mod 64" "length (dg_x d) = 64"
    using d by (auto simp: absorbed_def)
  have f: "absorbed (digest_Write d (take ?n p)) (m @ take ?n p)"
    using d False by (intro absorbed_fill) auto
  have "length (take ?n p) = ?n" using False by auto
  then have "length (m @ take ?n p) mod 64 = 0"
    using fill_mod [of "length m" ?n] by (simp only: length_append)
  with f have "absorbed (digest_Write (digest_Write d (take ?n p)) (drop ?n p)) ((m @ take ?n p) @ drop ?n p)"
    by (rule absorbed_aligned)
  moreover have "64 - dg_nx d \<le> length p" using nx False by auto
  ultimately show ?thesis
    using digest_Write_fill [of d p] nx False by auto
qed

section \<open>The padded digest equals the reference\<close>

lemma rotr32:
  fixes x :: "32 word"
  assumes "0 < n" and "n < 32"
  shows "drop_bit n x OR push_bit (32 - n) x = word_rotr n x"
proof (rule bit_word_eqI)
  fix k
  assume "k < LENGTH(32)"
  then have k: "k < 32" by simp
  show "bit (drop_bit n x OR push_bit (32 - n) x) k = bit (word_rotr n x) k"
  proof (cases "k + n < 32")
    case True
    then have "\<not> 32 - n \<le> k" by simp
    with True assms k show ?thesis by (simp add: bit_simps add.commute)
  next
    case False
    then have "(k + n) mod 32 = k + n - 32" and "k - (32 - n) = k + n - 32"
      using assms k by (simp_all add: mod_if)
    moreover have "\<not> bit x (n + k)"
      using False bit_imp_le_length [of x "n + k"] by auto
    moreover have "32 - n \<le> k" using False by simp
    ultimately show ?thesis
      using assms k False by (simp add: bit_simps)
  qed
qed

lemmas sha_functions = Ch_def Maj_def Sigma0_def Sigma1_def sigma0_def sigma1_def

lemma byte_bit_less: "bit (b :: byte) n \<Longrightarrow> n < 8"
  using bit_imp_le_length [of b n] by simp

lemma word_of_be4:
  "word_of_nat (of_be [a, b, c, d]) =
     push_bit 24 (ucast a) OR push_bit 16 (ucast b) OR push_bit 8 (ucast c) OR (ucast d :: 32 word)"
proof -
  have "push_bit 8 (ucast c) + (ucast d :: 32 word) = push_bit 8 (ucast c) OR ucast d"
    by (rule disjunctive_add_eq_or) (auto simp: bit_eq_iff bit_simps dest!: byte_bit_less)
  moreover have "push_bit 16 (ucast b) + (push_bit 8 (ucast c) OR (ucast d :: 32 word))
      = push_bit 16 (ucast b) OR push_bit 8 (ucast c) OR ucast d"
    by (rule disjunctive_add_eq_or) (auto simp: bit_eq_iff bit_simps dest!: byte_bit_less)
  moreover have "push_bit 24 (ucast a) + (push_bit 16 (ucast b) OR push_bit 8 (ucast c) OR (ucast d :: 32 word))
      = push_bit 24 (ucast a) OR push_bit 16 (ucast b) OR push_bit 8 (ucast c) OR ucast d"
    by (rule disjunctive_add_eq_or) (auto simp: bit_eq_iff bit_simps dest!: byte_bit_less)
  moreover have "word_of_nat (of_be [a, b, c, d])
      = push_bit 24 (ucast a) + (push_bit 16 (ucast b) + (push_bit 8 (ucast c) + (ucast d :: 32 word)))"
    by (simp add: of_be_def push_bit_eq_mult algebra_simps)
  ultimately show ?thesis by simp
qed

lemma load_word_be:
  assumes "j + 3 < length p"
  shows "load_word p j = word_of_nat (of_be (take 4 (drop j p)))"
proof -
  have "take 4 (drop j p) = [p ! j, p ! (j + 1), p ! (j + 2), p ! (j + 3)]"
    using assms by (simp add: numeral_eq_Suc take_Suc_conv_app_nth)
  then show ?thesis
    by (simp add: load_word_def word_of_be4)
qed

lemma length_expand_words: "length (expand_words n w) = length w + n"
  by (induction n w rule: expand_words.induct) (auto simp: Let_def)

text \<open>The schedule array, entry by entry, is the recursive schedule.\<close>

lemma expand_words_fips:
  assumes "w = map (fips_W p) [0..<k]" and "16 \<le> k"
  shows "expand_words n w = map (fips_W p) [0..<k + n]"
  using assms
proof (induction n arbitrary: k w)
  case 0
  then show ?case by simp
next
  case (Suc n)
  have r: "drop_bit 17 v OR push_bit 15 v = word_rotr 17 v" "drop_bit 19 v OR push_bit 13 v = word_rotr 19 v"
    "drop_bit 7 v OR push_bit 25 v = word_rotr 7 v" "drop_bit 18 v OR push_bit 14 v = word_rotr 18 v"
    for v :: "32 word"
    using rotr32 [of 17 v] rotr32 [of 19 v] rotr32 [of 7 v] rotr32 [of 18 v] by simp_all
  have "expand_words (Suc n) w = expand_words n (w @ [fips_W p k])"
    using Suc.prems by (simp add: Let_def r fips_W.simps [of p k] sigma0_def sigma1_def)
  also have "w @ [fips_W p k] = map (fips_W p) [0..<Suc k]"
    using Suc.prems by simp
  finally show ?case
    using Suc.IH [of "map (fips_W p) [0..<Suc k]" "Suc k"] Suc.prems by simp
qed

lemma message_words_fips:
  assumes "64 \<le> length p"
  shows "message_words p = map (fips_W p) [0..<64]"
proof -
  have "map (\<lambda>i. load_word p (i * 4)) [0..<16] = map (fips_W p) [0..<16]"
    using assms by (intro map_cong) (auto simp: load_word_be fips_W.simps [of p] mult.commute)
  then have "message_words p = expand_words 48 (map (fips_W p) [0..<16])"
    by (simp only: message_words_def)
  then show ?thesis
    using expand_words_fips [OF refl order_refl, of 48 p] by simp
qed

lemma hstate_cases:
  obtains a b c d e f g h where "(hs :: hstate) = (a, b, c, d, e, f, g, h)"
  by (cases hs) auto

lemma fips_round_cong:
  assumes "fips_W p t = fips_W q t"
  shows "fips_round p t = fips_round q t"
proof
  fix hs :: hstate
  obtain a b c d e f g h where "hs = (a, b, c, d, e, f, g, h)"
    by (rule hstate_cases)
  then show "fips_round p t hs = fips_round q t hs"
    by (simp add: assms)
qed

lemma sha_round_fips:
  assumes "64 \<le> length p" and "i < 64"
  shows "sha_round (message_words p) i hs = fips_round p i hs"
proof -
  have r: "drop_bit 6 v OR push_bit 26 v = word_rotr 6 v" "drop_bit 11 v OR push_bit 21 v = word_rotr 11 v"
    "drop_bit 25 v OR push_bit 7 v = word_rotr 25 v" "drop_bit 2 v OR push_bit 30 v = word_rotr 2 v"
    "drop_bit 13 v OR push_bit 19 v = word_rotr 13 v" "drop_bit 22 v OR push_bit 10 v = word_rotr 22 v"
    for v :: "32 word"
    using rotr32 [of 6 v] rotr32 [of 11 v] rotr32 [of 25 v] rotr32 [of 2 v] rotr32 [of 13 v]
      rotr32 [of 22 v] by simp_all
  obtain a b c d e f g h where "hs = (a, b, c, d, e, f, g, h)"
    by (rule hstate_cases)
  then show ?thesis
    using assms by (simp add: message_words_fips r Ch_def Maj_def Sigma0_def Sigma1_def)
qed

lemma block_chunk_fips:
  assumes "64 \<le> length p"
  shows "block_chunk hs p = fips_compress (take 64 p) hs"
proof -
  have W: "fips_W (take 64 p) t = fips_W p t" if "t < 64" for t
    using that
  proof (induction t rule: less_induct)
    case (less t)
    show ?case
      by (subst (1 2) fips_W.simps) (use less in \<open>auto simp: drop_take min_def\<close>)
  qed
  have "fold (sha_round (message_words p)) [0..<64] hs = fold (fips_round (take 64 p)) [0..<64] hs"
  proof (intro fold_cong refl ext)
    fix i and hs :: hstate
    assume "i \<in> set [0..<64]"
    then show "sha_round (message_words p) i hs = fips_round (take 64 p) i hs"
      using assms W fips_round_cong [of "take 64 p" i p] by (simp add: sha_round_fips)
  qed
  then show ?thesis
    by (simp add: block_chunk_def fips_compress_def)
qed

lemma block_fips: "block hs p = fold fips_compress (fips_blocks p) hs"
proof (induction hs p rule: block.induct)
  case (1 hs p)
  show ?case
  proof (cases "64 \<le> length p")
    case True
    then have n: "length p div 64 = Suc (length (drop 64 p) div 64)"
      by (simp add: le_div_geq)
    have "fips_blocks p = take 64 p # fips_blocks (drop 64 p)"
      unfolding fips_blocks_def n by (simp add: map_upt_Suc add.commute del: upt_Suc)
    with True "1.IH" show ?thesis
      by (simp add: block_step block_chunk_fips)
  next
    case False
    then show ?thesis by (simp add: fips_blocks_def)
  qed
qed

lemma length_bytes_be: "length_bytes (push_bit 3 (word_of_nat n)) = to_be 8 (8 * n)"
proof -
  have b: "length_bytes w = to_be 8 (unat w)" for w
  proof (rule nth_equalityI)
    show "length (length_bytes w) = length (to_be 8 (unat w))"
      by (simp add: length_bytes_def)
    fix i
    assume "i < length (length_bytes w)"
    then have i: "i < 8" by (simp add: length_bytes_def)
    have "(256::nat) ^ (7 - i) = 2 ^ (8 * (7 - i))" by (simp add: power_mult)
    also have "8 * (7 - i) = 56 - 8 * i" by simp
    finally show "length_bytes w ! i = to_be 8 (unat w) ! i"
      using i by (simp add: length_bytes_def nth_to_be ucast_drop_bit)
  qed
  have "push_bit 3 (word_of_nat n :: 64 word) = word_of_nat (8 * n)"
    by (simp only: push_bit_eq_mult of_nat_mult of_nat_numeral) (simp add: mult.commute)
  then have "unat (push_bit 3 (word_of_nat n :: 64 word)) = unat (word_of_nat (8 * n) :: 64 word)"
    by (rule arg_cong)
  also have "\<dots> = 8 * n mod 2 ^ 64"
    unfolding unat_of_nat by simp
  also have "(2 :: nat) ^ 64 = 256 ^ 8" by simp
  finally show ?thesis
    unfolding b by (simp only: to_be_def to_le_mod)
qed

lemma padding_mod:
  assumes "r < 64"
  shows "(119 - r) mod 64 = (if r < 56 then 55 - r else 119 - r :: nat)"
proof (cases "r < 56")
  case True
  then have "119 - r = 64 + (55 - r)" by simp
  moreover have "(64 + (55 - r)) mod 64 = (55 - r) mod 64" by (rule mod_add_self1)
  ultimately show ?thesis using True by simp
next
  case False
  then show ?thesis using assms by simp
qed

lemma length_fips_pad: "length (fips_pad m) mod 64 = 0"
proof -
  define r where "r = length m mod 64"
  have r: "r < 64" by (simp add: r_def)
  have "length (fips_pad m) = length m + (9 + (119 - r) mod 64)"
    by (simp add: fips_pad_def r_def)
  then have "length (fips_pad m) mod 64 = (r + (9 + (119 - r) mod 64)) mod 64"
    by (simp only: r_def mod_add_left_eq)
  also have "r + (9 + (119 - r) mod 64) = (if r < 56 then 64 else 128)"
    using r by (simp add: padding_mod)
  finally show ?thesis by simp
qed

lemma checkSum_padding:
  assumes "r < 64"
  shows "(if r < 56 then take (56 - r) (0x80 # zeros 63) else take (64 + 56 - r) (0x80 # zeros 63))
           = (0x80 :: byte) # zeros ((119 - r) mod 64)"
proof (cases "r < 56")
  case True
  then have "56 - r = Suc (55 - r)" by simp
  then show ?thesis using True by (simp add: padding_mod [OF assms])
next
  case False
  then have "64 + 56 - r = Suc (119 - r)" using assms by simp
  then show ?thesis using False by (simp add: padding_mod [OF assms])
qed

lemma checkSum_absorbed:
  assumes d: "absorbed d m"
  shows "digest_checkSum d = Inr (fips_sha256 m)"
proof -
  let ?r = "length m mod 64"
  let ?pad = "0x80 # zeros ((119 - ?r) mod 64) :: bytes"
  let ?d2 = "digest_Write (digest_Write d ?pad) (length_bytes (push_bit 3 (dg_len d)))"
  have r: "unat (dg_len d mod 64) = ?r" and n: "dg_len d = word_of_nat (length m)"
    using d by (simp_all add: absorbed_def unat_mod unat_of_nat mod_mod_cancel)
  have "?r < 64" by simp
  note z = checkSum_padding [OF this]
  have pad: "(m @ ?pad) @ length_bytes (push_bit 3 (dg_len d)) = fips_pad m"
    unfolding n length_bytes_be fips_pad_def by simp
  have "absorbed ?d2 (fips_pad m)"
    using absorbed_Write [OF absorbed_Write [OF d]] unfolding pad [symmetric] .
  then have "dg_nx ?d2 = 0" "dg_h ?d2 = block init_state (fips_pad m)"
    using length_fips_pad [of m] by (simp_all only: absorbed_def)
  moreover have "digest_checkSum d
      = (if dg_nx ?d2 \<noteq> 0 then Inl (GoPanic ''d.nx != 0'') else Inr (store_state (dg_h ?d2)))"
    unfolding digest_checkSum_def Let_def r if_distrib [of "digest_Write d", symmetric] z ..
  ultimately show ?thesis
    by (simp only: fips_sha256_def block_fips) simp
qed

lemma length_store_word [simp]: "length (store_word s) = 4"
  by (simp add: store_word_def)

lemma length_store_state [simp]: "length (store_state hs) = 32"
proof -
  obtain a b c d e f g h where "hs = (a, b, c, d, e, f, g, h)"
    by (rule hstate_cases)
  then show ?thesis by simp
qed

lemma absorbed_Sum256: "absorbed (digest_Write (digest_Reset zero_digest) data) data"
  using absorbed_Write [OF absorbed_Reset, of zero_digest data] by (simp add: zero_digest_def)

lemma Sum256_go_fips: "Sum256_go data = Inr (fips_sha256 data)"
  by (simp add: Sum256_go_def checkSum_absorbed [OF absorbed_Sum256])

lemma Sum256_fips: "Sum256 data = fips_sha256 data"
  by (simp add: Sum256_def Sum256_go_fips)

lemma Sum256_go_eq: "Sum256_go data = Inr (Sum256 data)"
  by (simp add: Sum256_fips Sum256_go_fips)

lemma length_Sum256 [simp, len_simps]: "length (Sum256 data) = 32"
  by (simp add: Sum256_fips fips_sha256_def)

lemma Sum256_ne_Nil [simp]: "Sum256 data \<noteq> []"
  using length_Sum256 [of data] by (metis list.size(3) zero_neq_numeral)

text \<open>Hashing a list of writes is hashing their concatenation.\<close>

lemma absorbed_writes:
  "absorbed d m \<Longrightarrow> absorbed (fold (\<lambda>p d. digest_Write d p) ps d) (m @ concat ps)"
proof (induction ps arbitrary: d m)
  case (Cons p ps)
  from Cons.IH [OF absorbed_Write [OF Cons.prems, of p]] show ?case by simp
qed simp

lemma WitnessKeyAndValue_go_eq: "WitnessKeyAndValue_go key val = Inr (Sum256 (key @ val))"
proof -
  have "absorbed (digest_Write (digest_Write sha_New key) val) (key @ val)"
    using absorbed_Write [OF absorbed_Sum256, of key val] by (simp add: sha_New_def)
  then show ?thesis
    by (simp add: WitnessKeyAndValue_go_def digest_Sum_def checkSum_absorbed Sum256_fips)
qed

section \<open>Properties\<close>


text \<open>
  The streaming interface agrees with the one-shot hash: however a message is cut into writes,
  \<open>Sum\<close> appends the digest of the concatenation to its argument, without panic.
\<close>

lemma streaming_writes:
  "digest_Sum (fold (\<lambda>p d. digest_Write d p) ps sha_New) input = Inr (input @ fips_sha256 (concat ps))"
proof -
  have "absorbed sha_New []" by (simp add: sha_New_def absorbed_Reset zero_digest_def)
  from checkSum_absorbed [OF absorbed_writes [OF this, of ps]] show ?thesis
    by (simp add: digest_Sum_def)
qed

end
