(* ===== verification/Bv_Utils.thy ===== *)
theory Bv_Utils
  imports Bv_Prelude
begin

unbundle bit_operations_syntax

text \<open>
  The pure helpers of \<open>utils/utils.go\<close>: bit access in a key, the script matcher, the loop that
  computes a tree height, and the conversion of a hash to an integer. A key is read as the list of
  its bits, most significant bit of the first byte first (\<open>key_bits\<close>); \<open>GetBit_key_bits\<close>
  relates \<open>GetBit\<close> to it and is the only fact about bit positions the tries need.
\<close>

section \<open>Definitions\<close>

definition CloneByteSlice :: "bytes \<Rightarrow> bytes" where
  "CloneByteSlice b = copy_bytes (zeros (length b)) b"

definition go_Max :: "int \<Rightarrow> int \<Rightarrow> int" where
  "go_Max x y = (if x < y then y else x)"

definition go_Min :: "int \<Rightarrow> int \<Rightarrow> int" where
  "go_Min x y = (if x > y then y else x)"

definition GetBit :: "bytes \<Rightarrow> nat \<Rightarrow> bool go" where
  "GetBit b idx =
     (let bitIdx = idx mod 8;
          byteIdx = (idx - bitIdx) div 8
      in if byteIdx < length b then Inr ((b ! byteIdx) AND push_bit (7 - bitIdx) 1 > 0)
         else index_out_of_range)"

text \<open>\<open>None\<close> is the nil slice.\<close>

definition KeyHashFromPkScript :: "bytes \<Rightarrow> bytes option" where
  "KeyHashFromPkScript pkscript =
     (if length pkscript = 22 \<and> pkscript ! 0 = 0x00 \<and> pkscript ! 1 = 0x14 then Some (drop 2 pkscript)
      else if length pkscript = 34 \<and> pkscript ! 0 = 0x00 \<and> pkscript ! 1 = 0x20 then Some (drop 2 pkscript)
      else None)"

text \<open>
  The script builder calls of the two \<open>Direct...Script\<close> functions push one zero opcode and one
  data push of 20 or 32 bytes, whose opcode is the length itself.
\<close>

definition DirectWPKHScriptFromPKH :: "bytes \<Rightarrow> bytes" where
  "DirectWPKHScriptFromPKH pkh = [0x00, 0x14] @ pkh"

definition DirectWSHScriptFromSH :: "bytes \<Rightarrow> bytes" where
  "DirectWSHScriptFromSH sh = [0x00, 0x20] @ sh"

text \<open>
  \<open>for ; (1 << e) < n; e++ {}\<close> on \<open>uint64\<close>. The shifted one wraps to zero from
  \<open>e = 64\<close> on, so the loop need not end: \<open>None\<close>.
\<close>

partial_function (option) power_loop :: "64 word \<Rightarrow> nat \<Rightarrow> nat option" where
  "power_loop n e = (if push_bit e 1 < n then power_loop n (Suc e) else Some e)"

definition NextPowerOfTwo :: "64 word \<Rightarrow> nat option" where
  "NextPowerOfTwo n = power_loop n 0"

text \<open>
  \<open>HashToBig\<close> swaps the bytes in place pairwise and reads the result big endian.
\<close>

definition swap_at :: "nat \<Rightarrow> bytes \<Rightarrow> bytes" where
  "swap_at i buf = buf[i := buf ! (length buf - 1 - i), length buf - 1 - i := buf ! i]"

definition HashToBig :: "bytes \<Rightarrow> nat" where
  "HashToBig hash = of_be (fold swap_at [0..<length hash div 2] hash)"

definition MaidenHash :: bytes where
  "MaidenHash =
     [0x52, 0x3e, 0x59, 0xcf, 0xc5, 0x23, 0x5b, 0x91, 0x5d, 0xc8, 0x9d, 0xe1, 0x88, 0xd8, 0x74, 0x49,
      0x45, 0x3b, 0x08, 0x3a, 0x8b, 0x7d, 0x97, 0xc1, 0xee, 0x64, 0xd8, 0x75, 0xda, 0x40, 0x33, 0x61]"

section \<open>Bits of a key\<close>

definition byte_bits :: "byte \<Rightarrow> bool list" where
  "byte_bits b = map (\<lambda>j. bit b (7 - j)) [0..<8]"

definition key_bits :: "bytes \<Rightarrow> bool list" where
  "key_bits key = concat (map byte_bits key)"

lemma CloneByteSlice_id [simp]: "CloneByteSlice b = b"
  by (simp add: CloneByteSlice_def copy_bytes_def)

lemma go_Max_max [simp]: "go_Max x y = max x y" and go_Min_min [simp]: "go_Min x y = min x y"
  by (simp_all add: go_Max_def go_Min_def max_def min_def)

lemma length_byte_bits [simp]: "length (byte_bits b) = 8"
  by (simp add: byte_bits_def)

lemma key_bits_simps [simp]:
  "key_bits [] = []" "key_bits (b # bs) = byte_bits b @ key_bits bs"
  by (simp_all add: key_bits_def)

lemma length_key_bits [simp, len_simps]: "length (key_bits key) = 8 * length key"
  by (induction key) simp_all

lemma nth_key_bits:
  "i < 8 * length key \<Longrightarrow> key_bits key ! i = bit (key ! (i div 8)) (7 - i mod 8)"
proof (induction key arbitrary: i)
  case (Cons b key)
  show ?case
  proof (cases "i < 8")
    case True
    then show ?thesis by (simp add: nth_append byte_bits_def)
  next
    case False
    then obtain j where j: "i = 8 + j" by (metis le_add_diff_inverse not_less)
    have "(8 + j) div 8 = Suc (j div 8)" by simp
    then show ?thesis using Cons by (simp add: j nth_append)
  qed
qed simp

lemma byte_bits_inject: "byte_bits a = byte_bits b \<Longrightarrow> a = b"
proof (rule bit_word_eqI)
  fix n
  assume eq: "byte_bits a = byte_bits b" and "n < LENGTH(8)"
  then have n: "n < 8" by simp
  have "byte_bits a ! (7 - n) = byte_bits b ! (7 - n)" by (simp add: eq)
  moreover have "[0..<8] ! (7 - n) = 7 - n" "7 - (7 - n) = n" using n by simp_all
  ultimately show "bit a n = bit b n" using n by (simp add: byte_bits_def)
qed

lemma key_bits_inject: "length k = length k' \<Longrightarrow> key_bits k = key_bits k' \<longleftrightarrow> k = k'"
  by (induction k k' rule: list_induct2) (auto dest: byte_bits_inject)

lemma and_push_bit_pos: "(w AND push_bit k 1 > 0) = bit w k" for w :: "'a::len word"
proof -
  have "w AND push_bit k 1 = (if bit w k then push_bit k 1 else 0)"
    by (rule bit_eqI) (auto simp: bit_simps)
  moreover have "push_bit k (1 :: 'a word) \<noteq> 0" if "bit w k"
  proof
    assume "push_bit k (1 :: 'a word) = 0"
    then have "\<not> bit (push_bit k (1 :: 'a word)) k" by (simp only: bit_0_eq bot_apply) simp
    then show False using bit_imp_le_length [OF that] by (simp only: bit_push_bit_iff) simp
  qed
  ultimately show ?thesis by (auto simp: word_gt_0)
qed

lemma GetBit_key_bits:
  "GetBit b idx = (if idx < 8 * length b then Inr (key_bits b ! idx) else index_out_of_range)"
proof -
  have "(idx - idx mod 8) div 8 = idx div 8"
    by (simp only: minus_mod_eq_div_mult)
  moreover have "idx div 8 < length b \<longleftrightarrow> idx < 8 * length b"
    by (simp only: div_less_iff_less_mult zero_less_numeral mult.commute)
  ultimately show ?thesis
    by (simp only: GetBit_def Let_def and_push_bit_pos) (simp add: nth_key_bits)
qed

section \<open>The script matcher\<close>

lemma KeyHashFromPkScript_WPKH:
  "length pkh = 20 \<Longrightarrow> KeyHashFromPkScript (DirectWPKHScriptFromPKH pkh) = Some pkh"
  by (simp add: KeyHashFromPkScript_def DirectWPKHScriptFromPKH_def)

lemma KeyHashFromPkScript_WSH:
  "length sh = 32 \<Longrightarrow> KeyHashFromPkScript (DirectWSHScriptFromSH sh) = Some sh"
  by (simp add: KeyHashFromPkScript_def DirectWSHScriptFromSH_def)

section \<open>The tree height loop\<close>

lemma unat_push_bit_one: "e < 64 \<Longrightarrow> unat (push_bit e 1 :: 64 word) = 2 ^ e"
  by (simp only: unsigned_push_bit_eq unsigned_1) (simp add: take_bit_nat_eq_self push_bit_eq_mult)

lemma push_bit_one_zero: "64 \<le> e \<Longrightarrow> (push_bit e 1 :: 64 word) = 0"
  by (rule bit_word_eqI) (simp add: bit_simps)

lemma power_loop_ends:
  assumes "unat n \<le> 2 ^ 63" and "e \<le> d" and "d < 64" and "unat n \<le> 2 ^ d"
    and "e < d \<Longrightarrow> 2 ^ (d - 1) < unat n"
  shows "power_loop n e = Some d"
  using assms(2-5)
proof (induction "d - e" arbitrary: e)
  case 0
  then have "e = d" by simp
  then have "\<not> push_bit e 1 < n"
    using "0.prems" by (simp only: word_less_nat_alt unat_push_bit_one not_less)
  then show ?case
    using \<open>e = d\<close> by (subst power_loop.simps) simp
next
  case (Suc k)
  then have "(2::nat) ^ e \<le> 2 ^ (d - 1)" by (intro power_increasing) auto
  moreover have "e < d" "e < 64" using Suc.prems Suc.hyps(2) by simp_all
  ultimately have "2 ^ e < unat n" using Suc.prems(4) by linarith
  then have "push_bit e 1 < n"
    using \<open>e < 64\<close> by (simp only: word_less_nat_alt unat_push_bit_one)
  then show ?case
    using Suc by (subst power_loop.simps) simp
qed

lemma power_loop_value:
  assumes "unat n \<le> 2 ^ 63"
  shows "power_loop n 0 = Some (LEAST d. unat n \<le> 2 ^ d)"
proof (rule power_loop_ends [OF assms])
  let ?d = "LEAST d. unat n \<le> 2 ^ d"
  show "unat n \<le> 2 ^ ?d" using assms by (rule LeastI)
  have "?d \<le> 63" using assms by (rule Least_le)
  then show "?d < 64" by simp
  assume "0 < ?d"
  then show "2 ^ (?d - 1) < unat n"
    using not_less_Least [of "?d - 1" "\<lambda>d. unat n \<le> 2 ^ d"] by simp
qed simp

section \<open>Hashes as integers\<close>

lemma length_swap_at [simp]: "length (swap_at i buf) = length buf"
  by (simp add: swap_at_def)

lemma length_fold_swap [simp]: "length (fold swap_at is buf) = length buf"
  by (induction "is" arbitrary: buf) simp_all

lemma nth_fold_swap:
  assumes "n \<le> length buf div 2" and "j < length buf"
  shows "fold swap_at [0..<n] buf ! j
    = (if j < n \<or> length buf - 1 - j < n then buf ! (length buf - 1 - j) else buf ! j)"
  using assms
proof (induction n arbitrary: j)
  case (Suc n)
  let ?b = "fold swap_at [0..<n] buf"
  let ?m = "length buf - 1 - n"
  have m: "n < ?m" "?m < length buf" using Suc.prems by auto
  have v: "?b ! n = buf ! n" "?b ! ?m = buf ! ?m" using Suc.IH [of n] Suc.IH [of ?m] Suc.prems m by auto
  have "fold swap_at [0..<Suc n] buf = ?b[n := buf ! ?m, ?m := buf ! n]"
    using v by (simp add: swap_at_def)
  then show ?case
    using Suc.IH [of j] Suc.prems m by (auto simp: nth_list_update less_Suc_eq)
qed simp

lemma fold_swap_rev: "fold swap_at [0..<length buf div 2] buf = rev buf"
proof (rule nth_equalityI)
  fix j
  assume "j < length (fold swap_at [0..<length buf div 2] buf)"
  then have j: "j < length buf" by simp
  show "fold swap_at [0..<length buf div 2] buf ! j = rev buf ! j"
  proof (cases "j < length buf div 2 \<or> length buf - 1 - j < length buf div 2")
    case True
    then show ?thesis using j by (simp add: nth_fold_swap rev_nth)
  next
    case False
    then have "length buf - Suc j = j" using j by linarith
    then show ?thesis using False j by (simp add: nth_fold_swap rev_nth)
  qed
qed simp

lemma HashToBig_le: "HashToBig hash = of_le hash"
  by (simp add: HashToBig_def fold_swap_rev of_be_def)

section \<open>Properties\<close>

text \<open>
  The loop of \<open>NextPowerOfTwo\<close> ends for every argument up to 2 to the 63rd and returns the
  least exponent whose power of two reaches the argument; beyond that bound the shifted one wraps to
  zero and no iteration count ends the loop.
\<close>

lemma NextPowerOfTwo_least:
  "(unat n \<le> 2 ^ 63 \<longrightarrow> NextPowerOfTwo n = Some (LEAST d. unat n \<le> 2 ^ d))
    \<and> (2 ^ 63 < unat n \<longrightarrow> (\<forall>e. push_bit e 1 < n))"
proof (intro conjI impI allI)
  show "NextPowerOfTwo n = Some (LEAST d. unat n \<le> 2 ^ d)" if "unat n \<le> 2 ^ 63"
    using power_loop_value [OF that] by (simp add: NextPowerOfTwo_def)
  fix e :: nat
  assume n: "2 ^ 63 < unat n"
  show "push_bit e 1 < n"
  proof (cases "e < 64")
    case True
    then have "(2 :: nat) ^ e \<le> 2 ^ 63" by (intro power_increasing) simp_all
    then show ?thesis using n True by (simp only: word_less_nat_alt unat_push_bit_one)
  next
    case False
    then show ?thesis using n by (simp only: push_bit_one_zero not_less word_less_nat_alt unsigned_0)
  qed
qed

text \<open>
  The script matcher inverts the two script constructors: the hash it extracts from a pay to
  witness script is the one the script was built from.
\<close>

lemma KeyHash_roundtrip:
  "length pkh = 20 \<Longrightarrow> length sh = 32 \<Longrightarrow>
     KeyHashFromPkScript (DirectWPKHScriptFromPKH pkh) = Some pkh \<and> KeyHashFromPkScript (DirectWSHScriptFromSH sh) = Some sh"
  by (simp add: KeyHashFromPkScript_WPKH KeyHashFromPkScript_WSH)

end
