(* ===== verification/Mpt_Node.thy ===== *)
theory Mpt_Node
  imports Fast_Sha256 Bv_Utils
begin

text \<open>
  The nodes of a Merkle prefix trie (\<open>mpt/node.go\<close>, \<open>interiornode.go\<close>,
  \<open>dictionaryleafnode.go\<close>, \<open>emptyleafnode.go\<close>, \<open>stub.go\<close>). The Go interface
  \<open>Node\<close> and its four implementing structs are one datatype whose constructors carry the fields of
  the structs, caches and change marks included; \<open>NilNode\<close> is the nil interface value. A method
  that mutates its receiver returns the receiver after the call. Calling any method on
  \<open>NilNode\<close> is the nil dereference panic.

  \<open>thash\<close> is the hash a node stands for, a function of its contents; \<open>hash_ok\<close> is the
  invariant of the lazily filled caches, and \<open>GetHash_ok\<close> says that \<open>GetHash\<close> computes
  \<open>thash\<close> and only fills caches.
\<close>

section \<open>Data\<close>

datatype node =
    NilNode
  | Stub bytes
  | DictionaryLeafNode bytes bytes bytes bool bool
      \<comment> \<open>key, value, commitmentHash, changed, recalculateHash\<close>
  | EmptyLeafNode
  | InteriorNode bytes bool bool node node
      \<comment> \<open>hash, recalculateHash, changed, leftChild, rightChild\<close>

section \<open>Constructors\<close>

definition NewDictionaryLeafNode :: "bytes \<Rightarrow> bytes \<Rightarrow> node" where
  "NewDictionaryLeafNode key value =
     DictionaryLeafNode (copy_bytes (zeros (length key)) key) (copy_bytes (zeros (length value)) value)
       (zeros 32) True True"

definition NewDictionaryLeafNodeCachedHash :: "bytes \<Rightarrow> bytes \<Rightarrow> bytes \<Rightarrow> node" where
  "NewDictionaryLeafNodeCachedHash key value hash =
     DictionaryLeafNode (copy_bytes (zeros (length key)) key) (copy_bytes (zeros (length value)) value)
       (copy_bytes (zeros 32) hash) True False"

definition NewStub :: "bytes \<Rightarrow> node" where
  "NewStub hash = Stub (copy_bytes (zeros (length hash)) hash)"

definition NewInteriorNode :: "node \<Rightarrow> node \<Rightarrow> node" where
  "NewInteriorNode leftChild rightChild = InteriorNode (zeros 32) True True leftChild rightChild"

definition NewInteriorNodeWithCachedHash :: "node \<Rightarrow> node \<Rightarrow> bytes \<Rightarrow> node" where
  "NewInteriorNodeWithCachedHash leftChild rightChild hash =
     InteriorNode (copy_bytes (zeros 32) hash) False True leftChild rightChild"

definition emptyLeafNodeHash :: bytes where
  "emptyLeafNodeHash = zeros 32"

section \<open>Methods\<close>

text \<open>
  \<open>IsLeaf\<close>, \<open>IsEmpty\<close>, \<open>IsStub\<close>, \<open>Changed\<close>, \<open>GetKey\<close>,
  \<open>GetValue\<close>, \<open>GetLeftChild\<close> and \<open>GetRightChild\<close> have a value at
  \<open>NilNode\<close> only to be total: every caller below tests for \<open>NilNode\<close> first. A nil key is
  read as the empty slice, a nil value is \<open>None\<close>.
\<close>

fun IsLeaf :: "node \<Rightarrow> bool" where
  "IsLeaf (DictionaryLeafNode _ _ _ _ _) = True"
| "IsLeaf EmptyLeafNode = True"
| "IsLeaf _ = False"

fun IsEmpty :: "node \<Rightarrow> bool" where
  "IsEmpty EmptyLeafNode = True"
| "IsEmpty _ = False"

fun IsStub :: "node \<Rightarrow> bool" where
  "IsStub (Stub _) = True"
| "IsStub _ = False"

fun Changed :: "node \<Rightarrow> bool" where
  "Changed (DictionaryLeafNode _ _ _ changed _) = changed"
| "Changed (InteriorNode _ _ changed _ _) = changed"
| "Changed _ = False"

fun GetKey :: "node \<Rightarrow> bytes" where
  "GetKey (DictionaryLeafNode key _ _ _ _) = key"
| "GetKey _ = []"

fun GetValue :: "node \<Rightarrow> bytes option" where
  "GetValue (DictionaryLeafNode _ value _ _ _) = Some value"
| "GetValue _ = None"

fun GetLeftChild :: "node \<Rightarrow> node" where
  "GetLeftChild (InteriorNode _ _ _ leftChild _) = leftChild"
| "GetLeftChild _ = NilNode"

fun GetRightChild :: "node \<Rightarrow> node" where
  "GetRightChild (InteriorNode _ _ _ _ rightChild) = rightChild"
| "GetRightChild _ = NilNode"

fun HasLeft :: "node \<Rightarrow> bool" where
  "HasLeft (InteriorNode _ _ _ leftChild _) = (leftChild \<noteq> NilNode)"
| "HasLeft _ = False"

fun HasRight :: "node \<Rightarrow> bool" where
  "HasRight (InteriorNode _ _ _ _ rightChild) = (rightChild \<noteq> NilNode)"
| "HasRight _ = False"

fun SetValue :: "node \<Rightarrow> bytes \<Rightarrow> node go" where
  "SetValue (DictionaryLeafNode key old hash changed recalculateHash) value =
     Inr (if old \<noteq> value then DictionaryLeafNode key value hash True True
          else DictionaryLeafNode key old hash changed recalculateHash)"
| "SetValue EmptyLeafNode value = Inl (GoPanic ''Cannot set value of an empty leaf node'')"
| "SetValue (InteriorNode _ _ _ _ _) value = Inl (GoPanic ''Cannot set value of an interior node'')"
| "SetValue (Stub _) value = Inl (GoPanic ''Cannot set the value of a stub'')"
| "SetValue NilNode value = nil_deref"

fun SetLeftChild :: "node \<Rightarrow> node \<Rightarrow> node go" where
  "SetLeftChild (InteriorNode hash _ _ _ rightChild) child = Inr (InteriorNode hash True True child rightChild)"
| "SetLeftChild (DictionaryLeafNode _ _ _ _ _) child = Inl (GoPanic ''Cannot set children of a leaf node'')"
| "SetLeftChild EmptyLeafNode child = Inl (GoPanic ''Cannot set children of an empty leaf node'')"
| "SetLeftChild (Stub _) child = Inl (GoPanic ''Cannot set children of a stub'')"
| "SetLeftChild NilNode child = nil_deref"

fun SetRightChild :: "node \<Rightarrow> node \<Rightarrow> node go" where
  "SetRightChild (InteriorNode hash _ _ leftChild _) child = Inr (InteriorNode hash True True leftChild child)"
| "SetRightChild (DictionaryLeafNode _ _ _ _ _) child = Inl (GoPanic ''Cannot set children of a leaf node'')"
| "SetRightChild EmptyLeafNode child = Inl (GoPanic ''Cannot set children of an empty leaf node'')"
| "SetRightChild (Stub _) child = Inl (GoPanic ''Cannot set children of a stub'')"
| "SetRightChild NilNode child = nil_deref"

text \<open>
  The two goroutines of the interior \<open>GetHash\<close> work on disjoint subtrees and are joined before
  the hash is taken; the model runs them one after the other.
\<close>

fun GetHash :: "node \<Rightarrow> (bytes \<times> node) go" where
  "GetHash NilNode = nil_deref"
| "GetHash (Stub hash) = Inr (hash, Stub hash)"
| "GetHash EmptyLeafNode = Inr (emptyLeafNodeHash, EmptyLeafNode)"
| "GetHash (DictionaryLeafNode key value commitmentHash changed recalculateHash) =
     (if recalculateHash then
        bind_go (WitnessKeyAndValue_go key value) (\<lambda>w.
          let h = copy_bytes commitmentHash w
          in Inr (h, DictionaryLeafNode key value h changed False))
      else Inr (commitmentHash, DictionaryLeafNode key value commitmentHash changed False))"
| "GetHash (InteriorNode hash recalculateHash changed leftChild rightChild) =
     (if recalculateHash then
        bind_go (if leftChild \<noteq> NilNode then GetHash leftChild else Inr ([], NilNode)) (\<lambda>(leftHash, leftChild).
        bind_go (if rightChild \<noteq> NilNode then GetHash rightChild else Inr ([], NilNode)) (\<lambda>(rightHash, rightChild).
        bind_go (Sum256_go (leftHash @ rightHash)) (\<lambda>w.
          let h = copy_bytes hash w
          in Inr (h, InteriorNode h False changed leftChild rightChild))))
      else Inr (hash, InteriorNode hash False changed leftChild rightChild))"

fun MarkChangedAll :: "node \<Rightarrow> node go" where
  "MarkChangedAll NilNode = nil_deref"
| "MarkChangedAll (Stub hash) = Inr (Stub hash)"
| "MarkChangedAll EmptyLeafNode = Inr EmptyLeafNode"
| "MarkChangedAll (DictionaryLeafNode key value hash _ recalculateHash) =
     Inr (DictionaryLeafNode key value hash True recalculateHash)"
| "MarkChangedAll (InteriorNode hash recalculateHash _ leftChild rightChild) =
     bind_go (if leftChild = NilNode then nil_deref
              else if \<not> Changed leftChild then MarkChangedAll leftChild else Inr leftChild) (\<lambda>l.
     bind_go (if rightChild = NilNode then nil_deref
              else if \<not> Changed rightChild then MarkChangedAll rightChild else Inr rightChild) (\<lambda>r.
     Inr (InteriorNode hash recalculateHash True l r)))"

fun MarkUnchangedAll :: "node \<Rightarrow> node go" where
  "MarkUnchangedAll NilNode = nil_deref"
| "MarkUnchangedAll (Stub hash) = Inr (Stub hash)"
| "MarkUnchangedAll EmptyLeafNode = Inr EmptyLeafNode"
| "MarkUnchangedAll (DictionaryLeafNode key value hash _ recalculateHash) =
     Inr (DictionaryLeafNode key value hash False recalculateHash)"
| "MarkUnchangedAll (InteriorNode hash recalculateHash _ leftChild rightChild) =
     bind_go (if leftChild = NilNode then nil_deref
              else if Changed leftChild then MarkUnchangedAll leftChild else Inr leftChild) (\<lambda>l.
     bind_go (if rightChild = NilNode then nil_deref
              else if Changed rightChild then MarkUnchangedAll rightChild else Inr rightChild) (\<lambda>r.
     Inr (InteriorNode hash recalculateHash False l r)))"

fun CountHashesRequiredForGetHash :: "node \<Rightarrow> nat go" where
  "CountHashesRequiredForGetHash NilNode = nil_deref"
| "CountHashesRequiredForGetHash (Stub _) = Inl (GoPanic ''Cannot count hashes for a stub'')"
| "CountHashesRequiredForGetHash EmptyLeafNode = Inr 0"
| "CountHashesRequiredForGetHash (DictionaryLeafNode _ _ _ _ recalculateHash) = Inr (if recalculateHash then 1 else 0)"
| "CountHashesRequiredForGetHash (InteriorNode _ recalculateHash _ leftChild rightChild) =
     (if recalculateHash then
        bind_go (CountHashesRequiredForGetHash leftChild) (\<lambda>a.
        bind_go (CountHashesRequiredForGetHash rightChild) (\<lambda>b. Inr (1 + a + b)))
      else Inr 0)"

fun NodesInSubtree :: "node \<Rightarrow> nat go" where
  "NodesInSubtree NilNode = nil_deref"
| "NodesInSubtree (Stub _) = Inl (GoPanic ''cannot determine size of subtree rooted at a stub'')"
| "NodesInSubtree EmptyLeafNode = Inr 1"
| "NodesInSubtree (DictionaryLeafNode _ _ _ _ _) = Inr 1"
| "NodesInSubtree (InteriorNode _ _ _ leftChild rightChild) =
     bind_go (if leftChild \<noteq> NilNode then NodesInSubtree leftChild else Inr 0) (\<lambda>a.
     bind_go (if rightChild \<noteq> NilNode then NodesInSubtree rightChild else Inr 0) (\<lambda>b. Inr (1 + a + b)))"

fun InteriorNodesInSubtree :: "node \<Rightarrow> nat go" where
  "InteriorNodesInSubtree NilNode = nil_deref"
| "InteriorNodesInSubtree (Stub _) =
     Inl (GoPanic ''cannot determine number of interior nodes in subtree rooted at a stub'')"
| "InteriorNodesInSubtree EmptyLeafNode = Inr 0"
| "InteriorNodesInSubtree (DictionaryLeafNode _ _ _ _ _) = Inr 0"
| "InteriorNodesInSubtree (InteriorNode _ _ _ leftChild rightChild) =
     bind_go (if leftChild \<noteq> NilNode then InteriorNodesInSubtree leftChild else Inr 0) (\<lambda>a.
     bind_go (if rightChild \<noteq> NilNode then InteriorNodesInSubtree rightChild else Inr 0) (\<lambda>b. Inr (1 + a + b)))"

fun EmptyLeafNodesInSubtree :: "node \<Rightarrow> nat go" where
  "EmptyLeafNodesInSubtree NilNode = nil_deref"
| "EmptyLeafNodesInSubtree (Stub _) =
     Inl (GoPanic ''cannot determine number of empty leaf nodes in subtree rooted at a stub'')"
| "EmptyLeafNodesInSubtree EmptyLeafNode = Inr 1"
| "EmptyLeafNodesInSubtree (DictionaryLeafNode _ _ _ _ _) = Inr 0"
| "EmptyLeafNodesInSubtree (InteriorNode _ _ _ leftChild rightChild) =
     bind_go (if leftChild \<noteq> NilNode then EmptyLeafNodesInSubtree leftChild else Inr 0) (\<lambda>a.
     bind_go (if rightChild \<noteq> NilNode then EmptyLeafNodesInSubtree rightChild else Inr 0) (\<lambda>b. Inr (0 + a + b)))"

fun NonEmptyLeafNodesInSubtree :: "node \<Rightarrow> nat go" where
  "NonEmptyLeafNodesInSubtree NilNode = nil_deref"
| "NonEmptyLeafNodesInSubtree (Stub _) =
     Inl (GoPanic ''cannot determine number of non-empty leaf nodes in subtree rooted at a stub'')"
| "NonEmptyLeafNodesInSubtree EmptyLeafNode = Inr 0"
| "NonEmptyLeafNodesInSubtree (DictionaryLeafNode _ _ _ _ _) = Inr 1"
| "NonEmptyLeafNodesInSubtree (InteriorNode _ _ _ leftChild rightChild) =
     bind_go (if leftChild \<noteq> NilNode then NonEmptyLeafNodesInSubtree leftChild else Inr 0) (\<lambda>a.
     bind_go (if rightChild \<noteq> NilNode then NonEmptyLeafNodesInSubtree rightChild else Inr 0) (\<lambda>b. Inr (0 + a + b)))"

text \<open>
  \<open>n.Equals(m)\<close> is called on non-nil receivers only; a nil argument fails the type assertion.
\<close>

fun Equals :: "node \<Rightarrow> node \<Rightarrow> bool" where
  "Equals (Stub hash) n = (case n of Stub hash2 \<Rightarrow> hash2 = hash | _ \<Rightarrow> False)"
| "Equals EmptyLeafNode n = (case n of EmptyLeafNode \<Rightarrow> True | _ \<Rightarrow> False)"
| "Equals (DictionaryLeafNode key value _ _ _) n =
     (case n of DictionaryLeafNode key2 value2 _ _ _ \<Rightarrow> key2 = key \<and> value2 = value | _ \<Rightarrow> False)"
| "Equals (InteriorNode _ _ _ leftChild rightChild) n =
     (case n of InteriorNode _ _ _ leftChild2 rightChild2 \<Rightarrow>
        (if leftChild = NilNode \<and> leftChild2 \<noteq> NilNode then False
         else if rightChild = NilNode \<and> rightChild2 \<noteq> NilNode then False
         else if leftChild \<noteq> NilNode \<and> \<not> Equals leftChild leftChild2 then False
         else if rightChild \<noteq> NilNode \<and> \<not> Equals rightChild rightChild2 then False
         else True)
      | _ \<Rightarrow> False)"
| "Equals NilNode n = False"

fun Dispose :: "node \<Rightarrow> node go" where
  "Dispose NilNode = nil_deref"
| "Dispose (Stub _) = Inr (Stub [])"
| "Dispose EmptyLeafNode = Inr EmptyLeafNode"
| "Dispose (DictionaryLeafNode _ _ _ changed recalculateHash) = Inr (DictionaryLeafNode [] [] [] changed recalculateHash)"
| "Dispose (InteriorNode _ _ _ leftChild rightChild) =
     bind_go (Dispose leftChild) (\<lambda>_. bind_go (Dispose rightChild) (\<lambda>_.
       Inr (InteriorNode [] False False NilNode NilNode)))"

fun DeepCopy :: "node \<Rightarrow> node go" where
  "DeepCopy NilNode = nil_deref"
| "DeepCopy (Stub hash) = Inr (NewStub hash)"
| "DeepCopy EmptyLeafNode = Inr EmptyLeafNode"
| "DeepCopy (DictionaryLeafNode key value commitmentHash _ _) =
     Inr (NewDictionaryLeafNodeCachedHash key value commitmentHash)"
| "DeepCopy (InteriorNode hash _ _ leftChild rightChild) =
     bind_go (if leftChild \<noteq> NilNode then DeepCopy leftChild else Inr NilNode) (\<lambda>l.
     bind_go (if rightChild \<noteq> NilNode then DeepCopy rightChild else Inr NilNode) (\<lambda>r.
     Inr (NewInteriorNodeWithCachedHash l r hash)))"

fun node_size :: "node \<Rightarrow> nat" where
  "node_size (InteriorNode _ _ _ l r) = Suc (node_size l + node_size r)"
| "node_size NilNode = 0"
| "node_size _ = 1"

lemma node_size_children:
  "n \<noteq> NilNode \<Longrightarrow> node_size (GetLeftChild n) < node_size n"
  "n \<noteq> NilNode \<Longrightarrow> node_size (GetRightChild n) < node_size n"
  by (cases n; simp)+

function GetNodeHeight :: "node \<Rightarrow> int go" where
  "GetNodeHeight n =
     (if n = NilNode then nil_deref
      else if IsLeaf n then Inr 0
      else bind_go (GetNodeHeight (GetLeftChild n)) (\<lambda>a.
           bind_go (GetNodeHeight (GetRightChild n)) (\<lambda>b. Inr (go_Max a b + 1))))"
  by pat_completeness auto
termination by (relation "measure node_size") (simp_all add: node_size_children)

declare GetNodeHeight.simps [simp del]

section \<open>Contents of a node\<close>

text \<open>The node with its caches and change marks forgotten.\<close>

fun skel :: "node \<Rightarrow> node" where
  "skel (DictionaryLeafNode key value _ _ _) = DictionaryLeafNode key value [] False False"
| "skel (InteriorNode _ _ _ l r) = InteriorNode [] False False (skel l) (skel r)"
| "skel n = n"

text \<open>The hash a node stands for.\<close>

fun thash :: "node \<Rightarrow> bytes" where
  "thash NilNode = []"
| "thash (Stub h) = h"
| "thash EmptyLeafNode = zeros 32"
| "thash (DictionaryLeafNode key value _ _ _) = Sum256 (key @ value)"
| "thash (InteriorNode _ _ _ l r) = Sum256 (thash l @ thash r)"

text \<open>No hash below is marked for recalculation.\<close>

fun all_cached :: "node \<Rightarrow> bool" where
  "all_cached (DictionaryLeafNode _ _ _ _ recalculateHash) \<longleftrightarrow> \<not> recalculateHash"
| "all_cached (InteriorNode _ recalculateHash _ l r) \<longleftrightarrow> \<not> recalculateHash \<and> all_cached l \<and> all_cached r"
| "all_cached _ \<longleftrightarrow> True"

text \<open>
  The cache invariant: a hash not marked for recalculation is the right one, and nothing below it
  is marked.
\<close>

fun hash_ok :: "node \<Rightarrow> bool" where
  "hash_ok (DictionaryLeafNode key value h _ recalculateHash) \<longleftrightarrow>
     length h = 32 \<and> (\<not> recalculateHash \<longrightarrow> h = Sum256 (key @ value))"
| "hash_ok (InteriorNode h recalculateHash _ l r) \<longleftrightarrow>
     length h = 32 \<and> (\<not> recalculateHash \<longrightarrow> h = Sum256 (thash l @ thash r) \<and> all_cached l \<and> all_cached r)
       \<and> hash_ok l \<and> hash_ok r"
| "hash_ok _ \<longleftrightarrow> True"

text \<open>Marks are upward closed: below an unchanged interior node nothing is changed.\<close>

fun marks_ok :: "node \<Rightarrow> bool" where
  "marks_ok (InteriorNode _ _ changed l r) \<longleftrightarrow>
     (\<not> changed \<longrightarrow> \<not> Changed l \<and> \<not> Changed r) \<and> marks_ok l \<and> marks_ok r"
| "marks_ok _ \<longleftrightarrow> True"

fun all_unchanged :: "node \<Rightarrow> bool" where
  "all_unchanged (InteriorNode _ _ changed l r) \<longleftrightarrow> \<not> changed \<and> all_unchanged l \<and> all_unchanged r"
| "all_unchanged n \<longleftrightarrow> \<not> Changed n"

text \<open>A complete subtree: no stub and no nil anywhere.\<close>

fun complete :: "node \<Rightarrow> bool" where
  "complete (InteriorNode _ _ _ l r) \<longleftrightarrow> complete l \<and> complete r"
| "complete NilNode \<longleftrightarrow> False"
| "complete (Stub _) \<longleftrightarrow> False"
| "complete _ \<longleftrightarrow> True"

text \<open>What \<open>GetHash\<close> leaves behind.\<close>

fun cached :: "node \<Rightarrow> node" where
  "cached (DictionaryLeafNode key value _ changed _) =
     DictionaryLeafNode key value (Sum256 (key @ value)) changed False"
| "cached (InteriorNode h recalculateHash changed l r) =
     InteriorNode (Sum256 (thash l @ thash r)) False changed
       (if recalculateHash then cached l else l) (if recalculateHash then cached r else r)"
| "cached n = n"

lemma copy_32 [simp]: "length h = 32 \<Longrightarrow> length w = 32 \<Longrightarrow> copy_bytes h w = w"
  by (simp add: copy_bytes_def)

lemma copy_zeros [simp]: "copy_bytes (zeros (length w)) w = w"
  by (simp add: copy_bytes_def)

lemma New_simps [simp]:
  "NewDictionaryLeafNode key val = DictionaryLeafNode key val (zeros 32) True True"
  "NewStub h = Stub h"
  "NewInteriorNode l r = InteriorNode (zeros 32) True True l r"
  "emptyLeafNodeHash = zeros 32"
  "length h = 32 \<Longrightarrow> NewDictionaryLeafNodeCachedHash key val h = DictionaryLeafNode key val h True False"
  "length h = 32 \<Longrightarrow> NewInteriorNodeWithCachedHash l r h = InteriorNode h False True l r"
  by (simp_all add: NewDictionaryLeafNode_def NewStub_def NewInteriorNode_def emptyLeafNodeHash_def
      NewDictionaryLeafNodeCachedHash_def NewInteriorNodeWithCachedHash_def)

lemma length_thash: "complete n \<Longrightarrow> length (thash n) = 32"
  by (cases n) simp_all

lemma thash_skel [simp]: "thash (skel n) = thash n"
  by (induction n) simp_all

lemma skel_cached [simp]: "skel (cached n) = skel n"
  by (induction n) simp_all

lemma thash_cached [simp]: "thash (cached n) = thash n"
  by (metis skel_cached thash_skel)

lemma cached_NilNode [simp]: "cached n = NilNode \<longleftrightarrow> n = NilNode"
  by (cases n) simp_all

lemma Changed_cached [simp]: "Changed (cached n) = Changed n"
  by (cases n) simp_all

lemma marks_ok_cached [simp]: "marks_ok (cached n) = marks_ok n"
  by (induction n) simp_all

lemma all_cached_cached [simp]: "hash_ok n \<Longrightarrow> all_cached (cached n)"
  by (induction n) auto

lemma hash_ok_cached [simp]: "hash_ok n \<Longrightarrow> hash_ok (cached n)"
  by (induction n) auto

lemma complete_skel [simp]: "complete (skel n) = complete n"
  by (induction n) simp_all

lemma skel_same:
  "skel n = skel m \<Longrightarrow> complete n = complete m"
  "skel n = skel m \<Longrightarrow> thash n = thash m"
  by (metis complete_skel) (metis thash_skel)

lemma GetHash_ok: "hash_ok n \<Longrightarrow> n \<noteq> NilNode \<Longrightarrow> GetHash n = Inr (thash n, cached n)"
proof (induction n)
  case (InteriorNode h rc ch l r)
  then have "(if l \<noteq> NilNode then GetHash l else Inr ([], NilNode)) = Inr (thash l, cached l)"
    "(if r \<noteq> NilNode then GetHash r else Inr ([], NilNode)) = Inr (thash r, cached r)"
    by auto
  then show ?case
    using InteriorNode.prems by (simp add: Sum256_go_eq Let_def)
qed (simp_all add: WitnessKeyAndValue_go_eq Let_def)

text \<open>After \<open>GetHash\<close> nothing is left to recompute.\<close>

lemma CountHashes_cached:
  "complete n \<Longrightarrow> CountHashesRequiredForGetHash (cached n) = Inr 0"
  by (cases n) simp_all

section \<open>Change marks\<close>

lemma MarkChangedAll_ok:
  "complete n \<Longrightarrow> \<exists>m. MarkChangedAll n = Inr m \<and> skel m = skel n \<and> (IsEmpty n \<or> Changed m)
     \<and> all_cached m = all_cached n \<and> (hash_ok n \<longrightarrow> hash_ok m) \<and> (marks_ok n \<longrightarrow> marks_ok m)"
proof (induction n)
  case (InteriorNode h rc ch l r)
  then obtain l' r' where c: "MarkChangedAll l = Inr l'" "skel l' = skel l" "MarkChangedAll r = Inr r'"
      "skel r' = skel r" "hash_ok l \<longrightarrow> hash_ok l'" "hash_ok r \<longrightarrow> hash_ok r'"
      "marks_ok l \<longrightarrow> marks_ok l'" "marks_ok r \<longrightarrow> marks_ok r'"
      "all_cached l' = all_cached l" "all_cached r' = all_cached r"
    by auto
  moreover have "thash l' = thash l" "thash r' = thash r" using c by (metis thash_skel)+
  moreover have "l \<noteq> NilNode" "r \<noteq> NilNode" using InteriorNode.prems by auto
  ultimately show ?case by auto
qed auto

lemma all_unchanged_if: "marks_ok n \<Longrightarrow> \<not> Changed n \<Longrightarrow> all_unchanged n"
  by (induction n) auto

lemma MarkUnchangedAll_ok:
  "complete n \<Longrightarrow> marks_ok n \<Longrightarrow> \<exists>m. MarkUnchangedAll n = Inr m \<and> skel m = skel n \<and> all_unchanged m
     \<and> all_cached m = all_cached n \<and> (hash_ok n \<longrightarrow> hash_ok m)"
proof (induction n)
  case (InteriorNode h rc ch l r)
  then obtain l' r' where c: "MarkUnchangedAll l = Inr l'" "skel l' = skel l" "MarkUnchangedAll r = Inr r'"
      "skel r' = skel r" "hash_ok l \<longrightarrow> hash_ok l'" "hash_ok r \<longrightarrow> hash_ok r'"
      "all_unchanged l'" "all_unchanged r'" "all_cached l' = all_cached l" "all_cached r' = all_cached r"
    by auto
  moreover have "thash l' = thash l" "thash r' = thash r" using c by (metis thash_skel)+
  moreover have "l \<noteq> NilNode" "r \<noteq> NilNode" using InteriorNode.prems by auto
  ultimately show ?case
    using InteriorNode.prems by (auto simp: all_unchanged_if)
qed auto

lemma marks_ok_all_unchanged: "all_unchanged n \<Longrightarrow> marks_ok n"
  by (induction n) (auto elim: all_unchanged.elims)

section \<open>Structural equality, copies, sizes\<close>

lemma Equals_skel: "n \<noteq> NilNode \<Longrightarrow> Equals n m \<longleftrightarrow> skel n = skel m"
proof (induction n arbitrary: m)
  case (InteriorNode h rc ch l r)
  have nil: "skel x = NilNode \<longleftrightarrow> x = NilNode" "NilNode = skel x \<longleftrightarrow> x = NilNode" for x
    by (cases x; simp)+
  show ?case
    using InteriorNode.IH by (cases m) (auto simp: nil)
qed (auto split: node.splits)

lemma DeepCopy_skel: "n \<noteq> NilNode \<Longrightarrow> \<exists>m. DeepCopy n = Inr m \<and> skel m = skel n \<and> marks_ok m"
proof (induction n)
  case (InteriorNode h rc ch l r)
  have "\<exists>m. (if x \<noteq> NilNode then DeepCopy x else Inr NilNode) = Inr m \<and> skel m = skel x \<and> marks_ok m"
    if "x \<noteq> NilNode \<Longrightarrow> \<exists>m. DeepCopy x = Inr m \<and> skel m = skel x \<and> marks_ok m" for x
    using that by (cases "x = NilNode") simp_all
  then obtain l' r' where
      "(if l \<noteq> NilNode then DeepCopy l else Inr NilNode) = Inr l'" "skel l' = skel l" "marks_ok l'"
      "(if r \<noteq> NilNode then DeepCopy r else Inr NilNode) = Inr r'" "skel r' = skel r" "marks_ok r'"
    using InteriorNode.IH by metis
  then show ?case by (simp add: NewInteriorNodeWithCachedHash_def)
qed (simp_all add: NewDictionaryLeafNodeCachedHash_def)

text \<open>A copy taken when every cache is filled keeps the cache invariant.\<close>

lemma DeepCopy_hash_ok:
  "n \<noteq> NilNode \<Longrightarrow> hash_ok n \<Longrightarrow> all_cached n \<Longrightarrow>
     \<exists>m. DeepCopy n = Inr m \<and> hash_ok m \<and> all_cached m \<and> skel m = skel n"
proof (induction n)
  case (InteriorNode h rc ch l r)
  have "\<exists>m. (if x \<noteq> NilNode then DeepCopy x else Inr NilNode) = Inr m \<and> hash_ok m \<and> all_cached m \<and> skel m = skel x"
    if "x \<noteq> NilNode \<Longrightarrow> \<exists>m. DeepCopy x = Inr m \<and> hash_ok m \<and> all_cached m \<and> skel m = skel x" for x
    using that by (cases "x = NilNode") simp_all
  then obtain l' r' where
      c: "(if l \<noteq> NilNode then DeepCopy l else Inr NilNode) = Inr l'" "skel l' = skel l" "hash_ok l'" "all_cached l'"
      "(if r \<noteq> NilNode then DeepCopy r else Inr NilNode) = Inr r'" "skel r' = skel r" "hash_ok r'" "all_cached r'"
    using InteriorNode by (metis hash_ok.simps(2) all_cached.simps(2))
  moreover have "thash l' = thash l" "thash r' = thash r" using c by (metis thash_skel)+
  ultimately show ?case
    using InteriorNode.prems by simp
qed simp_all

text \<open>
  The subtree counters are total on complete trees and add up: every node is interior, an empty
  leaf or a dictionary leaf, and a binary tree has one leaf more than interior nodes.
\<close>

lemma subtree_counts:
  "complete n \<Longrightarrow> \<exists>i e d. InteriorNodesInSubtree n = Inr i \<and> EmptyLeafNodesInSubtree n = Inr e
     \<and> NonEmptyLeafNodesInSubtree n = Inr d \<and> NodesInSubtree n = Inr (i + e + d) \<and> e + d = i + 1"
proof (induction n)
  case (InteriorNode h rc ch l r)
  then obtain i e d i' e' d' where
    "InteriorNodesInSubtree l = Inr i" "EmptyLeafNodesInSubtree l = Inr e" "NonEmptyLeafNodesInSubtree l = Inr d"
    "NodesInSubtree l = Inr (i + e + d)" "e + d = i + 1"
    "InteriorNodesInSubtree r = Inr i'" "EmptyLeafNodesInSubtree r = Inr e'" "NonEmptyLeafNodesInSubtree r = Inr d'"
    "NodesInSubtree r = Inr (i' + e' + d')" "e' + d' = i' + 1"
    by auto
  moreover have "l \<noteq> NilNode" "r \<noteq> NilNode" using InteriorNode.prems by auto
  ultimately show ?case by simp
qed simp_all

lemma GetNodeHeight_complete: "complete n \<Longrightarrow> \<exists>h \<ge> 0. GetNodeHeight n = Inr h"
proof (induction n)
  case (InteriorNode hs rc ch l r)
  then obtain a b where "GetNodeHeight l = Inr a" "a \<ge> 0" "GetNodeHeight r = Inr b" "b \<ge> 0" by auto
  then show ?case by (simp add: GetNodeHeight.simps [of "InteriorNode hs rc ch l r"])
qed (simp_all add: GetNodeHeight.simps)

end
