(* ===== verification/Full_MPT.thy ===== *)
theory Full_MPT
  imports Mpt_Node
begin

text \<open>
  The full Merkle prefix trie (\<open>mpt/fullmpt.go\<close>): \<open>Insert\<close>, \<open>Get\<close>,
  \<open>Delete\<close> with their recursive helpers, \<open>Commitment\<close>, \<open>Reset\<close>, \<open>Copy\<close>
  and the counters. A trie stands for the finite map \<open>entries\<close>; \<open>wf_trie\<close> is the shape
  invariant of tries over keys of one length, \<open>trie_inv\<close> adds the invariants of caches and marks.
\<close>

section \<open>Definitions\<close>

record FullMPT =
  fm_root :: node

definition NewFullMPT :: FullMPT where
  "NewFullMPT = \<lparr>fm_root = NewInteriorNode EmptyLeafNode EmptyLeafNode\<rparr>"

definition newFullMPTWithRoot :: "node \<Rightarrow> FullMPT" where
  "newFullMPTWithRoot root = \<lparr>fm_root = root\<rparr>"

lemma GetBit_Inr_less: "GetBit b i = Inr x \<Longrightarrow> i < 8 * length b"
  by (simp add: GetBit_key_bits split: if_splits)

text \<open>
  \<open>currentBitIndex\<close> is an \<open>int\<close> that starts at \<open>-1\<close>. The leaves \<open>a\<close> and
  \<open>b\<close> of \<open>split\<close> stay the same objects in the result.
\<close>

function split_node :: "node \<Rightarrow> node \<Rightarrow> int \<Rightarrow> node go" where
  "split_node a b currentBitIndex =
     bind_go (GetBit (GetKey a) (nat (currentBitIndex + 1))) (\<lambda>bitA.
     bind_go (GetBit (GetKey b) (nat (currentBitIndex + 1))) (\<lambda>bitB.
       if bitA = bitB then
         bind_go (split_node a b (currentBitIndex + 1)) (\<lambda>res.
           if bitA then Inr (NewInteriorNode EmptyLeafNode res)
           else Inr (NewInteriorNode res EmptyLeafNode))
       else if bitA then Inr (NewInteriorNode b a)
       else Inr (NewInteriorNode a b)))"
  by pat_completeness auto
termination
  by (relation "measure (\<lambda>(a, b, i). nat (8 * int (length (GetKey a)) - i))")
    (auto dest!: GetBit_Inr_less)

function insertHelper :: "bytes \<Rightarrow> bytes \<Rightarrow> int \<Rightarrow> node \<Rightarrow> node go" where
  "insertHelper key value currentBitIndex currentNode =
     (if currentNode = NilNode then nil_deref
      else if IsLeaf currentNode then
        if GetKey currentNode = key then SetValue currentNode value
        else let nodeToAdd = NewDictionaryLeafNode key value in
          if IsEmpty currentNode then Inr nodeToAdd
          else bind_go (MarkChangedAll currentNode) (\<lambda>currentNode.
                 split_node currentNode nodeToAdd currentBitIndex)
      else bind_go (GetBit key (nat (currentBitIndex + 1))) (\<lambda>bit.
        if bit then
          bind_go (insertHelper key value (currentBitIndex + 1) (GetRightChild currentNode)) (\<lambda>newRightChild.
            SetRightChild currentNode newRightChild)
        else
          bind_go (insertHelper key value (currentBitIndex + 1) (GetLeftChild currentNode)) (\<lambda>newLeftChild.
            SetLeftChild currentNode newLeftChild)))"
  by pat_completeness auto
termination
  by (relation "measure (\<lambda>(k, v, i, n). node_size n)") (simp_all add: node_size_children)

text \<open>
  \<open>Insert\<close> ignores the helper's result: the helper updates the root in place and returns it.
\<close>

definition Insert :: "FullMPT \<Rightarrow> bytes \<Rightarrow> bytes \<Rightarrow> FullMPT go" where
  "Insert fm key value =
     bind_go (insertHelper key value (-1) (fm_root fm)) (\<lambda>root. Inr (fm\<lparr>fm_root := root\<rparr>))"

function getHelper :: "node \<Rightarrow> bytes \<Rightarrow> int \<Rightarrow> bytes option go" where
  "getHelper currentNode key currentBitIndex =
     (if currentNode = NilNode then nil_deref
      else if IsLeaf currentNode then
        if \<not> IsEmpty currentNode \<and> GetKey currentNode = key then Inr (GetValue currentNode)
        else Inr None
      else bind_go (GetBit key (nat (currentBitIndex + 1))) (\<lambda>bit.
        if bit then getHelper (GetRightChild currentNode) key (currentBitIndex + 1)
        else getHelper (GetLeftChild currentNode) key (currentBitIndex + 1)))"
  by pat_completeness auto
termination
  by (relation "measure (\<lambda>(n, k, i). node_size n)") (simp_all add: node_size_children)

definition Get :: "FullMPT \<Rightarrow> bytes \<Rightarrow> bytes option go" where
  "Get fm key = getHelper (fm_root fm) key (-1)"

function deleteHelper :: "bytes \<Rightarrow> int \<Rightarrow> node \<Rightarrow> bool \<Rightarrow> node go" where
  "deleteHelper key currentBitIndex currentNode isRoot =
     (if currentNode = NilNode then nil_deref
      else if IsLeaf currentNode then
        if \<not> IsEmpty currentNode \<and> GetKey currentNode = key then Inr EmptyLeafNode
        else Inr currentNode
      else bind_go (GetBit key (nat (currentBitIndex + 1))) (\<lambda>bit.
        let leftChild = GetLeftChild currentNode; rightChild = GetRightChild currentNode in
        if bit then
          bind_go (deleteHelper key (currentBitIndex + 1) rightChild False) (\<lambda>newRightChild.
            if leftChild = NilNode \<or> newRightChild = NilNode then nil_deref
            else if IsEmpty leftChild \<and> IsLeaf newRightChild \<and> \<not> isRoot then Inr newRightChild
            else if IsEmpty newRightChild \<and> IsLeaf leftChild \<and> \<not> isRoot then MarkChangedAll leftChild
            else SetRightChild currentNode newRightChild)
        else
          bind_go (deleteHelper key (currentBitIndex + 1) leftChild False) (\<lambda>newLeftChild.
            if rightChild = NilNode \<or> newLeftChild = NilNode then nil_deref
            else if IsEmpty rightChild \<and> IsLeaf newLeftChild \<and> \<not> isRoot then Inr newLeftChild
            else if IsEmpty newLeftChild \<and> IsLeaf rightChild \<and> \<not> isRoot then MarkChangedAll rightChild
            else SetLeftChild currentNode newLeftChild)))"
  by pat_completeness auto
termination
  by (relation "measure (\<lambda>(k, i, n, b). node_size n)") (simp_all add: node_size_children)

definition Delete :: "FullMPT \<Rightarrow> bytes \<Rightarrow> FullMPT go" where
  "Delete fm key =
     bind_go (deleteHelper key (-1) (fm_root fm) True) (\<lambda>root. Inr (fm\<lparr>fm_root := root\<rparr>))"

definition Commitment :: "FullMPT \<Rightarrow> (bytes \<times> FullMPT) go" where
  "Commitment fm = bind_go (GetHash (fm_root fm)) (\<lambda>(h, root). Inr (h, fm\<lparr>fm_root := root\<rparr>))"

definition Reset :: "FullMPT \<Rightarrow> FullMPT go" where
  "Reset fm = bind_go (MarkUnchangedAll (fm_root fm)) (\<lambda>root. Inr (fm\<lparr>fm_root := root\<rparr>))"

definition MaxHeight :: "FullMPT \<Rightarrow> int go" where
  "MaxHeight fm = GetNodeHeight (fm_root fm)"

definition CountNodes :: "FullMPT \<Rightarrow> nat go" where
  "CountNodes fm = NodesInSubtree (fm_root fm)"

definition CountInteriorNodes :: "FullMPT \<Rightarrow> nat go" where
  "CountInteriorNodes fm = InteriorNodesInSubtree (fm_root fm)"

definition CountEmptyLeafNodes :: "FullMPT \<Rightarrow> nat go" where
  "CountEmptyLeafNodes fm = EmptyLeafNodesInSubtree (fm_root fm)"

definition Size :: "FullMPT \<Rightarrow> nat go" where
  "Size fm = NonEmptyLeafNodesInSubtree (fm_root fm)"

definition CountRecalculations :: "FullMPT \<Rightarrow> nat go" where
  "CountRecalculations fm = CountHashesRequiredForGetHash (fm_root fm)"

definition FullMPT_Dispose :: "FullMPT \<Rightarrow> FullMPT go" where
  "FullMPT_Dispose fm = bind_go (Dispose (fm_root fm)) (\<lambda>root. Inr (fm\<lparr>fm_root := root\<rparr>))"

definition FullMPT_Copy :: "FullMPT \<Rightarrow> FullMPT go" where
  "FullMPT_Copy fm = bind_go (DeepCopy (fm_root fm)) (\<lambda>copiedRoot.
     case copiedRoot of
       InteriorNode _ _ _ _ _ \<Rightarrow> Inr (newFullMPTWithRoot copiedRoot)
     | _ \<Rightarrow> Inl (GoPanic ''interface conversion''))"

declare split_node.simps [simp del] insertHelper.simps [simp del] getHelper.simps [simp del]
  deleteHelper.simps [simp del]

section \<open>The map a trie stands for\<close>

fun entries :: "node \<Rightarrow> bytes \<rightharpoonup> bytes" where
  "entries (DictionaryLeafNode key value _ _ _) = [key \<mapsto> value]"
| "entries (InteriorNode _ _ _ l r) = entries l ++ entries r"
| "entries _ = Map.empty"

text \<open>
  \<open>wf_trie L path n\<close>: \<open>n\<close> sits at \<open>path\<close> in a trie over keys of \<open>L\<close> bytes. Every
  key below continues the path, and below the root no interior node could be contracted: an empty
  leaf never has a leaf as its sibling.
\<close>

definition contractible :: "node \<Rightarrow> node \<Rightarrow> bool" where
  "contractible l r \<longleftrightarrow> IsEmpty l \<and> IsLeaf r \<or> IsEmpty r \<and> IsLeaf l"

fun wf_trie :: "nat \<Rightarrow> bool list \<Rightarrow> node \<Rightarrow> bool" where
  "wf_trie L path (DictionaryLeafNode key _ _ _ _) \<longleftrightarrow>
     length key = L \<and> take (length path) (key_bits key) = path"
| "wf_trie L path EmptyLeafNode \<longleftrightarrow> True"
| "wf_trie L path (InteriorNode _ _ _ l r) \<longleftrightarrow>
     length path < 8 * L \<and> wf_trie L (path @ [False]) l \<and> wf_trie L (path @ [True]) r
       \<and> (path = [] \<or> \<not> contractible l r)"
| "wf_trie L path _ \<longleftrightarrow> False"

text \<open>The key \<open>k\<close> belongs below \<open>path\<close>.\<close>

definition on_path :: "nat \<Rightarrow> bool list \<Rightarrow> bytes \<Rightarrow> bool" where
  "on_path L path k \<longleftrightarrow> length k = L \<and> take (length path) (key_bits k) = path"

fun IsInterior :: "node \<Rightarrow> bool" where
  "IsInterior (InteriorNode _ _ _ _ _) = True"
| "IsInterior _ = False"

definition trie_inv :: "nat \<Rightarrow> FullMPT \<Rightarrow> bool" where
  "trie_inv L fm \<longleftrightarrow> IsInterior (fm_root fm) \<and> wf_trie L [] (fm_root fm)
     \<and> hash_ok (fm_root fm) \<and> marks_ok (fm_root fm)"

lemma wf_trie_skel [simp]: "wf_trie L path (skel n) = wf_trie L path n"
proof (induction n arbitrary: path)
  case (InteriorNode h rc ch l r)
  have "IsEmpty (skel x) = IsEmpty x" "IsLeaf (skel x) = IsLeaf x" for x by (cases x; simp)+
  then show ?case using InteriorNode.IH by (simp add: contractible_def)
qed simp_all

lemma entries_skel [simp]: "entries (skel n) = entries n"
  by (induction n) simp_all

lemma IsInterior_skel [simp]: "IsInterior (skel n) = IsInterior n"
  by (cases n) simp_all

lemma skel_same_trie:
  assumes "skel n = skel m"
  shows "wf_trie L path n = wf_trie L path m" and "entries n = entries m" and "IsInterior n = IsInterior m"
    and "IsLeaf n = IsLeaf m" and "IsEmpty n = IsEmpty m"
proof -
  show "IsLeaf n = IsLeaf m" and "IsEmpty n = IsEmpty m"
    using assms by (cases n; cases m; simp)+
qed (metis assms wf_trie_skel entries_skel IsInterior_skel)+

lemma wf_trie_complete: "wf_trie L path n \<Longrightarrow> complete n"
  by (induction n arbitrary: path) auto

lemma IsLeaf_wf_trie: "wf_trie L path n \<Longrightarrow> IsLeaf n \<longleftrightarrow> \<not> IsInterior n"
  by (cases n) simp_all

lemma wf_trie_nonnil [simp]: "\<not> wf_trie L path NilNode"
  by simp

lemma on_path_step:
  "on_path L path k \<Longrightarrow> length path < 8 * L \<Longrightarrow> on_path L (path @ [b]) k \<longleftrightarrow> key_bits k ! length path = b"
  by (auto simp: on_path_def take_Suc_conv_app_nth)

lemma on_path_prefix: "on_path L (path @ p) k \<Longrightarrow> on_path L path k"
proof -
  assume k: "on_path L (path @ p) k"
  then have "take (length path) (take (length (path @ p)) (key_bits k)) = take (length path) (path @ p)"
    by (simp only: on_path_def)
  then show ?thesis using k by (simp add: on_path_def min_def)
qed

lemma entries_on_path: "wf_trie L path n \<Longrightarrow> k \<in> dom (entries n) \<Longrightarrow> on_path L path k"
proof (induction n arbitrary: path)
  case (InteriorNode h rc ch l r)
  then have "on_path L (path @ [False]) k \<or> on_path L (path @ [True]) k" by auto
  then show ?case by (auto dest: on_path_prefix)
qed (auto simp: on_path_def split: if_splits)

text \<open>Below an interior node the next bit of a key decides the side.\<close>

lemma entries_other_side:
  assumes n: "wf_trie L path (InteriorNode h rc ch l r)" and k: "on_path L path k"
  shows "key_bits k ! length path \<Longrightarrow> entries l k = None"
    and "\<not> key_bits k ! length path \<Longrightarrow> entries r k = None"
proof -
  have len: "length path < 8 * L" using n by simp
  show "key_bits k ! length path \<Longrightarrow> entries l k = None"
    using n entries_on_path [of L "path @ [False]" l k] on_path_step [OF k len]
    by (cases "entries l k") auto
  show "\<not> key_bits k ! length path \<Longrightarrow> entries r k = None"
    using n entries_on_path [of L "path @ [True]" r k] on_path_step [OF k len]
    by (cases "entries r k") auto
qed

lemma entries_side:
  assumes "wf_trie L path (InteriorNode h rc ch l r)" and "on_path L path k"
  shows "entries (InteriorNode h rc ch l r) k
    = (if key_bits k ! length path then entries r k else entries l k)"
  using entries_other_side [OF assms] by (simp add: map_add_def split: option.splits)

lemma map_add_upd:
  "f k = None \<Longrightarrow> f ++ g(k := v) = (f ++ g)(k := v)"
  "g k = None \<Longrightarrow> f(k := v) ++ g = (f ++ g)(k := v)"
  by (auto simp: map_add_def split: option.splits)

lemma path_index: "int (length (path @ [b])) - 1 = int (length path)" "(path @ [b] = []) = False"
  by simp_all

lemma GetBit_on_path:
  "on_path L path k \<Longrightarrow> length path < 8 * L \<Longrightarrow> GetBit k (length path) = Inr (key_bits k ! length path)"
  by (simp add: GetBit_key_bits on_path_def)

section \<open>Lookup\<close>

lemma getHelper_entries:
  "wf_trie L path n \<Longrightarrow> on_path L path k \<Longrightarrow> getHelper n k (int (length path) - 1) = Inr (entries n k)"
proof (induction n arbitrary: path)
  case (InteriorNode h rc ch l r)
  let ?n = "InteriorNode h rc ch l r" and ?b = "key_bits k ! length path"
  have len: "length path < 8 * L" using InteriorNode.prems by simp
  have step: "on_path L (path @ [?b]) k" using on_path_step [OF InteriorNode.prems(2) len] by blast
  have "getHelper (if ?b then r else l) k (int (length path)) = Inr (entries (if ?b then r else l) k)"
    using InteriorNode.IH(1) [of "path @ [False]"] InteriorNode.IH(2) [of "path @ [True]"]
      InteriorNode.prems(1) step by (cases ?b) simp_all
  then show ?case
    using GetBit_on_path [OF InteriorNode.prems(2) len] entries_side [OF InteriorNode.prems]
    by (simp add: getHelper.simps [of ?n] split: if_splits)
qed (auto simp: getHelper.simps)

section \<open>Insertion\<close>

abbreviation Leaf :: "bytes \<Rightarrow> bytes \<Rightarrow> bytes \<Rightarrow> bool \<Rightarrow> bool \<Rightarrow> node" where
  "Leaf \<equiv> DictionaryLeafNode"

lemma on_path_full:
  assumes "on_path L path k" and "on_path L path k'" and "k \<noteq> k'"
  shows "length path < 8 * L"
proof (rule ccontr)
  assume "\<not> length path < 8 * L"
  then have "key_bits k = path" "key_bits k' = path" using assms by (auto simp: on_path_def)
  then show False using assms key_bits_inject [of k k'] by (simp add: on_path_def)
qed

text \<open>
  \<open>split\<close> ends on two different keys of the same length and places both leaves under the bit
  where they part.
\<close>

lemma split_node_ok:
  assumes "on_path L path ka" and "on_path L path kb" and ne: "ka \<noteq> kb"
  shows "\<exists>n. split_node (Leaf ka va ha ca ra) (Leaf kb vb hb cb rb) (int (length path) - 1) = Inr n
    \<and> IsInterior n \<and> Changed n \<and> wf_trie L path n \<and> entries n = [ka \<mapsto> va, kb \<mapsto> vb]
    \<and> (hash_ok (Leaf ka va ha ca ra) \<and> hash_ok (Leaf kb vb hb cb rb) \<longrightarrow> hash_ok n) \<and> marks_ok n"
  using assms(1,2)
proof (induction "8 * L - length path" arbitrary: path rule: less_induct)
  case less
  let ?a = "Leaf ka va ha ca ra" and ?b = "Leaf kb vb hb cb rb"
  have len: "length path < 8 * L" using on_path_full [OF less.prems ne] .
  note bits = GetBit_on_path [OF less.prems(1) len] GetBit_on_path [OF less.prems(2) len]
  note a = on_path_step [OF less.prems(1) len] and b = on_path_step [OF less.prems(2) len]
  have m: "[ka \<mapsto> va, kb \<mapsto> vb] = [kb \<mapsto> vb, ka \<mapsto> va]" using ne by (rule fun_upd_twist)
  show ?case
  proof (cases "key_bits ka ! length path = key_bits kb ! length path")
    case True
    let ?p = "path @ [key_bits ka ! length path]"
    have "on_path L ?p ka" "on_path L ?p kb" using a b True by auto
    then obtain n where n: "split_node ?a ?b (int (length path)) = Inr n" "IsInterior n" "Changed n"
        "wf_trie L ?p n" "entries n = [ka \<mapsto> va, kb \<mapsto> vb]"
        "hash_ok ?a \<and> hash_ok ?b \<longrightarrow> hash_ok n" "marks_ok n"
      using less.hyps [of ?p] diff_less_mono2 [OF lessI len] by auto
    have i: "\<not> IsEmpty n" "\<not> IsLeaf n" using n(2) by (cases n; simp)+
    show ?thesis
      using n i len True
      by (subst split_node.simps) (auto simp: bits contractible_def)
  next
    case False
    then show ?thesis
      using a b len less.prems m
      by (subst split_node.simps) (auto simp: bits contractible_def on_path_def)
  qed
qed

lemma insertHelper_leaf:
  assumes "0 < L" and "IsLeaf n" and n: "wf_trie L path n" and k: "on_path L path k"
  shows "\<exists>m. insertHelper k v (int (length path) - 1) n = Inr m \<and> wf_trie L path m
    \<and> entries m = (entries n)(k \<mapsto> v) \<and> \<not> IsEmpty m
    \<and> (hash_ok n \<longrightarrow> hash_ok m) \<and> (marks_ok n \<longrightarrow> marks_ok m)"
proof (cases n)
  case EmptyLeafNode
  moreover have "k \<noteq> []" using assms(1) k by (auto simp: on_path_def)
  ultimately show ?thesis
    using k by (subst insertHelper.simps) (auto simp: on_path_def)
next
  case (DictionaryLeafNode key val h ch rc)
  show ?thesis
  proof (cases "key = k")
    case True
    then show ?thesis
      using n DictionaryLeafNode by (subst insertHelper.simps) auto
  next
    case False
    have "on_path L path key" using n DictionaryLeafNode by (simp add: on_path_def)
    from split_node_ok [OF this k False, of val h True rc v "zeros 32" True True]
    obtain m where m: "split_node (Leaf key val h True rc) (Leaf k v (zeros 32) True True) (int (length path) - 1) = Inr m"
        "IsInterior m" "wf_trie L path m" "entries m = [key \<mapsto> val, k \<mapsto> v]"
        "hash_ok (Leaf key val h True rc) \<longrightarrow> hash_ok m" "marks_ok m"
      by auto
    moreover have "insertHelper k v (int (length path) - 1) n = Inr m"
      using False DictionaryLeafNode m(1) by (subst insertHelper.simps) simp
    moreover have "\<not> IsEmpty m" using m(2) by (cases m) simp_all
    ultimately show ?thesis using DictionaryLeafNode by simp
  qed
qed (use assms in auto)

lemma insertHelper_ok:
  assumes L: "0 < L"
  shows "wf_trie L path n \<Longrightarrow> on_path L path k \<Longrightarrow>
   \<exists>m. insertHelper k v (int (length path) - 1) n = Inr m \<and> wf_trie L path m
    \<and> entries m = (entries n)(k \<mapsto> v) \<and> \<not> IsEmpty m \<and> (IsInterior n \<longrightarrow> IsInterior m)
    \<and> (hash_ok n \<longrightarrow> hash_ok m) \<and> (marks_ok n \<longrightarrow> marks_ok m)"
proof (induction n arbitrary: path)
  case (InteriorNode h rc ch l r)
  let ?n = "InteriorNode h rc ch l r" and ?b = "key_bits k ! length path"
  have len: "length path < 8 * L" using InteriorNode.prems by simp
  have step: "on_path L (path @ [?b]) k" using on_path_step [OF InteriorNode.prems(2) len] by blast
  note bit = GetBit_on_path [OF InteriorNode.prems(2) len]
  note other = entries_other_side [OF InteriorNode.prems]
  have wf: "wf_trie L (path @ [False]) l" "wf_trie L (path @ [True]) r" "path = [] \<or> \<not> contractible l r"
    using InteriorNode.prems(1) by simp_all
  show ?case
  proof (cases ?b)
    case True
    then have "on_path L (path @ [True]) k" using step by simp
    from InteriorNode.IH(2) [OF wf(2) this] obtain m where
      m: "insertHelper k v (int (length path)) r = Inr m" "wf_trie L (path @ [True]) m"
        "entries m = (entries r)(k \<mapsto> v)" "\<not> IsEmpty m" "IsInterior r \<longrightarrow> IsInterior m"
        "hash_ok r \<longrightarrow> hash_ok m" "marks_ok r \<longrightarrow> marks_ok m"
      unfolding path_index by blast
    have "path = [] \<or> \<not> contractible l m"
      using wf(3) m(4,5) IsLeaf_wf_trie [OF m(2)] IsLeaf_wf_trie [OF wf(2)]
      by (auto simp: contractible_def)
    moreover have "insertHelper k v (int (length path) - 1) ?n = Inr (InteriorNode h True True l m)"
      using m(1) bit True by (subst insertHelper.simps) simp
    ultimately show ?thesis
      using m wf len other(1) [OF True] by (simp add: map_add_upd del: fun_upd_apply)
  next
    case False
    then have "on_path L (path @ [False]) k" using step by simp
    from InteriorNode.IH(1) [OF wf(1) this] obtain m where
      m: "insertHelper k v (int (length path)) l = Inr m" "wf_trie L (path @ [False]) m"
        "entries m = (entries l)(k \<mapsto> v)" "\<not> IsEmpty m" "IsInterior l \<longrightarrow> IsInterior m"
        "hash_ok l \<longrightarrow> hash_ok m" "marks_ok l \<longrightarrow> marks_ok m"
      unfolding path_index by blast
    have "path = [] \<or> \<not> contractible m r"
      using wf(3) m(4,5) IsLeaf_wf_trie [OF m(2)] IsLeaf_wf_trie [OF wf(1)]
      by (auto simp: contractible_def)
    moreover have "insertHelper k v (int (length path) - 1) ?n = Inr (InteriorNode h True True m r)"
      using m(1) bit False by (subst insertHelper.simps) simp
    ultimately show ?thesis
      using m wf len other(2) [OF False] by (simp add: map_add_upd del: fun_upd_apply)
  qed
next
  case (DictionaryLeafNode key val h ch rc)
  show ?case
    using insertHelper_leaf [OF L _ DictionaryLeafNode] by (simp only: IsLeaf.simps IsInterior.simps simp_thms)
next
  case EmptyLeafNode
  show ?case
    using insertHelper_leaf [OF L _ EmptyLeafNode] by (simp only: IsLeaf.simps IsInterior.simps simp_thms)
qed simp_all

section \<open>Deletion\<close>

text \<open>A node may be moved up to its parent's place.\<close>

lemma wf_trie_leaf_up: "wf_trie L (path @ p) n \<Longrightarrow> IsLeaf n \<Longrightarrow> wf_trie L path n"
  using on_path_prefix [of L path p] by (cases n) (auto simp: on_path_def)

lemma deleteHelper_ok:
  "wf_trie L path n \<Longrightarrow> on_path L path k \<Longrightarrow>
   \<exists>m. deleteHelper k (int (length path) - 1) n (path = []) = Inr m \<and> wf_trie L path m
    \<and> entries m = (entries n)(k := None) \<and> (path = [] \<longrightarrow> IsInterior n \<longrightarrow> IsInterior m)
    \<and> (hash_ok n \<longrightarrow> hash_ok m) \<and> (marks_ok n \<longrightarrow> marks_ok m)"
proof (induction n arbitrary: path)
  case (InteriorNode h rc ch l r)
  let ?n = "InteriorNode h rc ch l r" and ?b = "key_bits k ! length path"
  have len: "length path < 8 * L" using InteriorNode.prems by simp
  have step: "on_path L (path @ [?b]) k" using on_path_step [OF InteriorNode.prems(2) len] by blast
  note bit = GetBit_on_path [OF InteriorNode.prems(2) len]
  note other = entries_other_side [OF InteriorNode.prems]
  have wf: "wf_trie L (path @ [False]) l" "wf_trie L (path @ [True]) r"
    using InteriorNode.prems(1) by simp_all
  then have nil: "l \<noteq> NilNode" "r \<noteq> NilNode" by auto
  show ?case
  proof (cases ?b)
    case True
    then have "on_path L (path @ [True]) k" using step by simp
    from InteriorNode.IH(2) [OF wf(2) this] obtain m where
      m: "deleteHelper k (int (length path)) r False = Inr m" "wf_trie L (path @ [True]) m"
        "entries m = (entries r)(k := None)" "hash_ok r \<longrightarrow> hash_ok m" "marks_ok r \<longrightarrow> marks_ok m"
      unfolding path_index by blast
    have "m \<noteq> NilNode" using m(2) by auto
    then have del: "deleteHelper k (int (length path) - 1) ?n (path = [])
        = (if IsEmpty l \<and> IsLeaf m \<and> path \<noteq> [] then Inr m
           else if IsEmpty m \<and> IsLeaf l \<and> path \<noteq> [] then MarkChangedAll l
           else Inr (InteriorNode h True True l m))"
      using m(1) bit True nil by (subst deleteHelper.simps) auto
    obtain l' where l': "MarkChangedAll l = Inr l'" "skel l' = skel l" "hash_ok l \<longrightarrow> hash_ok l'" "marks_ok l \<longrightarrow> marks_ok l'"
      using MarkChangedAll_ok [OF wf_trie_complete [OF wf(1)]] by auto
    have e: "entries l ++ entries m = (entries ?n)(k := None)"
      using m(3) other(1) [OF True] by (simp add: map_add_upd)
    have e0: "IsEmpty x \<Longrightarrow> entries x = Map.empty" for x by (cases x) simp_all
    consider (up) "IsEmpty l" "IsLeaf m" "path \<noteq> []"
      | (sib) "\<not> (IsEmpty l \<and> IsLeaf m)" "IsEmpty m" "IsLeaf l" "path \<noteq> []"
      | (keep) "path = [] \<or> \<not> contractible l m"
      by (auto simp: contractible_def)
    then show ?thesis
    proof cases
      case up
      then have "entries m = (entries ?n)(k := None)" using e e0 by (simp del: entries.simps fun_upd_apply)
      then show ?thesis
        using up del m wf_trie_leaf_up [OF m(2)] by (simp del: entries.simps fun_upd_apply)
    next
      case sib
      then have "entries l' = (entries ?n)(k := None)"
        using e e0 skel_same_trie(2) [OF l'(2)] by (simp del: entries.simps fun_upd_apply)
      moreover have "wf_trie L path l'"
        using sib wf_trie_leaf_up [OF wf(1)] skel_same_trie(1) [OF l'(2)] by simp
      ultimately show ?thesis
        using sib del l' by (auto simp del: entries.simps fun_upd_apply)
    next
      case keep
      let ?m = "InteriorNode h True True l m"
      have "entries ?m = (entries ?n)(k := None)" using e by (simp only: entries.simps)
      moreover have "wf_trie L path ?m" using keep wf m(2) len by simp
      moreover have "deleteHelper k (int (length path) - 1) ?n (path = []) = Inr ?m"
        using del keep by (auto simp: contractible_def)
      ultimately show ?thesis
        using m(4,5) by (simp del: entries.simps wf_trie.simps fun_upd_apply)
    qed
  next
    case False
    then have "on_path L (path @ [False]) k" using step by simp
    from InteriorNode.IH(1) [OF wf(1) this] obtain m where
      m: "deleteHelper k (int (length path)) l False = Inr m" "wf_trie L (path @ [False]) m"
        "entries m = (entries l)(k := None)" "hash_ok l \<longrightarrow> hash_ok m" "marks_ok l \<longrightarrow> marks_ok m"
      unfolding path_index by blast
    have "m \<noteq> NilNode" using m(2) by auto
    then have del: "deleteHelper k (int (length path) - 1) ?n (path = [])
        = (if IsEmpty r \<and> IsLeaf m \<and> path \<noteq> [] then Inr m
           else if IsEmpty m \<and> IsLeaf r \<and> path \<noteq> [] then MarkChangedAll r
           else Inr (InteriorNode h True True m r))"
      using m(1) bit False nil by (subst deleteHelper.simps) auto
    obtain r' where r': "MarkChangedAll r = Inr r'" "skel r' = skel r" "hash_ok r \<longrightarrow> hash_ok r'" "marks_ok r \<longrightarrow> marks_ok r'"
      using MarkChangedAll_ok [OF wf_trie_complete [OF wf(2)]] by auto
    have e: "entries m ++ entries r = (entries ?n)(k := None)"
      using m(3) other(2) [OF False] by (simp add: map_add_upd)
    have e0: "IsEmpty x \<Longrightarrow> entries x = Map.empty" for x by (cases x) simp_all
    consider (up) "IsEmpty r" "IsLeaf m" "path \<noteq> []"
      | (sib) "\<not> (IsEmpty r \<and> IsLeaf m)" "IsEmpty m" "IsLeaf r" "path \<noteq> []"
      | (keep) "path = [] \<or> \<not> contractible m r"
      by (auto simp: contractible_def)
    then show ?thesis
    proof cases
      case up
      then have "entries m = (entries ?n)(k := None)" using e e0 by (simp del: entries.simps fun_upd_apply)
      then show ?thesis
        using up del m wf_trie_leaf_up [OF m(2)] by (simp del: entries.simps fun_upd_apply)
    next
      case sib
      then have "entries r' = (entries ?n)(k := None)"
        using e e0 skel_same_trie(2) [OF r'(2)] by (simp del: entries.simps fun_upd_apply)
      moreover have "wf_trie L path r'"
        using sib wf_trie_leaf_up [OF wf(2)] skel_same_trie(1) [OF r'(2)] by simp
      ultimately show ?thesis
        using sib del r' by (auto simp del: entries.simps fun_upd_apply)
    next
      case keep
      let ?m = "InteriorNode h True True m r"
      have "entries ?m = (entries ?n)(k := None)" using e by (simp only: entries.simps)
      moreover have "wf_trie L path ?m" using keep wf m(2) len by simp
      moreover have "deleteHelper k (int (length path) - 1) ?n (path = []) = Inr ?m"
        using del keep by (auto simp: contractible_def)
      ultimately show ?thesis
        using m(4,5) by (simp del: entries.simps wf_trie.simps fun_upd_apply)
    qed
  qed
qed (auto simp: deleteHelper.simps)

end
