(* ===== verification/Auth_Dict.thy ===== *)
theory Auth_Dict
  imports Bv_Prelude
begin

text \<open>
  The contract of an authenticated dictionary, as the server and the clients use one: insertions and
  deletions of valid keys never fail and update the map the dictionary stands for, lookups return
  what the map holds, and the commitment is a function of the map alone. \<open>run_dict\<close> runs a
  sequence of operations; the client lemmas in \<open>auth_dict\<close> say what any such sequence does.
\<close>

datatype ('k, 'v) dict_op = OpInsert 'k 'v | OpDelete 'k | OpCommit | OpReset

primrec dict_step :: "('k, 'v) dict_op \<Rightarrow> ('k \<rightharpoonup> 'v) \<Rightarrow> ('k \<rightharpoonup> 'v)" where
  "dict_step (OpInsert k v) m = m(k \<mapsto> v)"
| "dict_step (OpDelete k) m = m(k := None)"
| "dict_step OpCommit m = m"
| "dict_step OpReset m = m"

primrec op_valid :: "('k \<Rightarrow> bool) \<Rightarrow> ('k, 'v) dict_op \<Rightarrow> bool" where
  "op_valid valid (OpInsert k v) = valid k"
| "op_valid valid (OpDelete k) = valid k"
| "op_valid valid OpCommit = True"
| "op_valid valid OpReset = True"

primrec run_op :: "('s \<Rightarrow> 'k \<Rightarrow> 'v \<Rightarrow> 's go) \<Rightarrow> ('s \<Rightarrow> 'k \<Rightarrow> 's go) \<Rightarrow> ('s \<Rightarrow> ('h \<times> 's) go) \<Rightarrow> ('s \<Rightarrow> 's go)
    \<Rightarrow> ('k, 'v) dict_op \<Rightarrow> 's \<Rightarrow> 's go" where
  "run_op ins del com res (OpInsert k v) s = ins s k v"
| "run_op ins del com res (OpDelete k) s = del s k"
| "run_op ins del com res OpCommit s = bind_go (com s) (\<lambda>(h, s). Inr s)"
| "run_op ins del com res OpReset s = res s"

primrec run_dict :: "('s \<Rightarrow> 'k \<Rightarrow> 'v \<Rightarrow> 's go) \<Rightarrow> ('s \<Rightarrow> 'k \<Rightarrow> 's go) \<Rightarrow> ('s \<Rightarrow> ('h \<times> 's) go) \<Rightarrow> ('s \<Rightarrow> 's go)
    \<Rightarrow> ('k, 'v) dict_op list \<Rightarrow> 's \<Rightarrow> 's go" where
  "run_dict ins del com res [] s = Inr s"
| "run_dict ins del com res (op # ops) s =
     bind_go (run_op ins del com res op s) (run_dict ins del com res ops)"

locale auth_dict =
  fixes empty :: 's
    and ins :: "'s \<Rightarrow> 'k \<Rightarrow> 'v \<Rightarrow> 's go"
    and del :: "'s \<Rightarrow> 'k \<Rightarrow> 's go"
    and get :: "'s \<Rightarrow> 'k \<Rightarrow> 'v option go"
    and com :: "'s \<Rightarrow> ('h \<times> 's) go"
    and res :: "'s \<Rightarrow> 's go"
    and inv :: "'s \<Rightarrow> bool"
    and valid :: "'k \<Rightarrow> bool"
    and abs :: "'s \<Rightarrow> 'k \<rightharpoonup> 'v"
    and digest :: "('k \<rightharpoonup> 'v) \<Rightarrow> 'h"
  assumes empty_inv: "inv empty" and empty_abs: "abs empty = Map.empty"
    and ins_ok: "inv s \<Longrightarrow> valid k \<Longrightarrow> \<exists>t. ins s k v = Inr t \<and> inv t \<and> abs t = (abs s)(k \<mapsto> v)"
    and del_ok: "inv s \<Longrightarrow> valid k \<Longrightarrow> \<exists>t. del s k = Inr t \<and> inv t \<and> abs t = (abs s)(k := None)"
    and get_ok: "inv s \<Longrightarrow> valid k \<Longrightarrow> get s k = Inr (abs s k)"
    and com_ok: "inv s \<Longrightarrow> \<exists>t. com s = Inr (digest (abs s), t) \<and> inv t \<and> abs t = abs s"
    and res_ok: "inv s \<Longrightarrow> \<exists>t. res s = Inr t \<and> inv t \<and> abs t = abs s"
begin

abbreviation run :: "('k, 'v) dict_op list \<Rightarrow> 's \<Rightarrow> 's go" where
  "run \<equiv> run_dict ins del com res"

lemma run_op_ok:
  "inv s \<Longrightarrow> op_valid valid op \<Longrightarrow>
     \<exists>t. run_op ins del com res op s = Inr t \<and> inv t \<and> abs t = dict_step op (abs s)"
proof (cases op)
  case (OpInsert k v)
  then show "inv s \<Longrightarrow> op_valid valid op \<Longrightarrow> ?thesis" using ins_ok [of s k v] by simp
next
  case (OpDelete k)
  then show "inv s \<Longrightarrow> op_valid valid op \<Longrightarrow> ?thesis" using del_ok [of s k] by simp
next
  case OpCommit
  then show "inv s \<Longrightarrow> op_valid valid op \<Longrightarrow> ?thesis" using com_ok [of s] by auto
next
  case OpReset
  then show "inv s \<Longrightarrow> op_valid valid op \<Longrightarrow> ?thesis" using res_ok [of s] by simp
qed

text \<open>A sequence of valid operations never fails and refines the same updates on the map.\<close>

lemma run_ok:
  "inv s \<Longrightarrow> list_all (op_valid valid) ops \<Longrightarrow>
     \<exists>t. run ops s = Inr t \<and> inv t \<and> abs t = fold dict_step ops (abs s)"
proof (induction ops arbitrary: s)
  case (Cons op ops)
  then obtain t where t: "run_op ins del com res op s = Inr t" "inv t" "abs t = dict_step op (abs s)"
    using run_op_ok [of s op] by auto
  then show ?case using Cons.IH [of t] Cons.prems by simp
qed simp

text \<open>What a lookup sees after any sequence.\<close>

lemma run_get:
  assumes "list_all (op_valid valid) ops" and "valid k"
  shows "bind_go (run ops empty) (\<lambda>s. get s k) = Inr (fold dict_step ops Map.empty k)"
  using run_ok [OF empty_inv assms(1)] get_ok assms(2) by (auto simp: empty_abs)

text \<open>The commitment after any sequence is the digest of the resulting map.\<close>

lemma run_commitment:
  assumes "list_all (op_valid valid) ops"
  shows "\<exists>t. bind_go (run ops empty) com = Inr (digest (fold dict_step ops Map.empty), t)"
proof -
  obtain s where s: "run ops empty = Inr s" "inv s" "abs s = fold dict_step ops Map.empty"
    using run_ok [OF empty_inv assms] by (auto simp: empty_abs)
  obtain t where "com s = Inr (digest (abs s), t)" using com_ok [OF s(2)] by auto
  then show ?thesis using s by simp
qed

lemma run_commitment_order:
  assumes "list_all (op_valid valid) ops" and "list_all (op_valid valid) ops'"
    and "fold dict_step ops Map.empty = fold dict_step ops' Map.empty"
  shows "\<exists>h t t'. bind_go (run ops empty) com = Inr (h, t) \<and> bind_go (run ops' empty) com = Inr (h, t')"
  using run_commitment [OF assms(1)] run_commitment [OF assms(2)] assms(3) by metis

end

end
