(* ===== verification/Full_MPT_Correct.thy ===== *)
theory Full_MPT_Correct
  imports Full_MPT Auth_Dict
begin

text \<open>
  The full trie implements the authenticated dictionary contract: the commitment is a function of
  the stored map (the trie of a map is unique up to caches), the counters count the map's entries,
  and the height is bounded by the key length.
\<close>

section \<open>The trie of a map is unique\<close>

lemma child_nonempty:
  assumes "wf_trie L (path @ [b]) n" and "\<not> IsEmpty n"
    and "IsInterior n \<Longrightarrow> \<exists>k k'. k \<noteq> k' \<and> {k, k'} \<subseteq> dom (entries n)"
  shows "\<exists>k. k \<in> dom (entries n) \<and> on_path L (path @ [b]) k"
proof -
  have "\<exists>k. k \<in> dom (entries n)" using assms by (cases n) auto
  then show ?thesis using entries_on_path [OF assms(1)] by blast
qed

lemma on_path_sides: "on_path L (path @ [False]) k \<Longrightarrow> on_path L (path @ [True]) k \<Longrightarrow> False"
  by (auto simp: on_path_def)

lemma entries_two:
  "wf_trie L path n \<Longrightarrow> path \<noteq> [] \<Longrightarrow> IsInterior n \<Longrightarrow> \<exists>k k'. k \<noteq> k' \<and> {k, k'} \<subseteq> dom (entries n)"
proof (induction n arbitrary: path)
  case (InteriorNode h rc ch l r)
  have wf: "wf_trie L (path @ [False]) l" "wf_trie L (path @ [True]) r" "\<not> contractible l r"
    using InteriorNode.prems by simp_all
  have IH: "IsInterior l \<Longrightarrow> \<exists>k k'. k \<noteq> k' \<and> {k, k'} \<subseteq> dom (entries l)"
      "IsInterior r \<Longrightarrow> \<exists>k k'. k \<noteq> k' \<and> {k, k'} \<subseteq> dom (entries r)"
    using InteriorNode.IH(1) [OF wf(1)] InteriorNode.IH(2) [OF wf(2)] by simp_all
  have dom: "dom (entries (InteriorNode h rc ch l r)) = dom (entries l) \<union> dom (entries r)" by auto
  consider "IsInterior l" | "IsInterior r" | "\<not> IsEmpty l" "\<not> IsEmpty r"
    using wf IsLeaf_wf_trie by (auto simp: contractible_def)
  then show ?case
  proof cases
    case 1
    then show ?thesis using IH(1) unfolding dom by blast
  next
    case 2
    then show ?thesis using IH(2) unfolding dom by blast
  next
    case 3
    then obtain k k' where "k \<in> dom (entries l)" "on_path L (path @ [False]) k"
        "k' \<in> dom (entries r)" "on_path L (path @ [True]) k'"
      using child_nonempty [OF wf(1) _ IH(1)] child_nonempty [OF wf(2) _ IH(2)] by blast
    then have "k \<noteq> k'" "{k, k'} \<subseteq> dom (entries (InteriorNode h rc ch l r))"
      unfolding dom using on_path_sides by blast+
    then show ?thesis by blast
  qed
qed simp_all

lemma entries_child:
  assumes n: "wf_trie L path (InteriorNode h rc ch l r)"
  shows "entries l = entries (InteriorNode h rc ch l r) |` Collect (on_path L (path @ [False]))"
    and "entries r = entries (InteriorNode h rc ch l r) |` Collect (on_path L (path @ [True]))"
proof -
  have l: "entries l k = Some v \<Longrightarrow> on_path L (path @ [False]) k" for k v
    using n entries_on_path [of L "path @ [False]" l k] by auto
  have r: "entries r k = Some v \<Longrightarrow> on_path L (path @ [True]) k" for k v
    using n entries_on_path [of L "path @ [True]" r k] by auto
  have "entries l k = (entries (InteriorNode h rc ch l r) |` Collect (on_path L (path @ [False]))) k"
    and "entries r k = (entries (InteriorNode h rc ch l r) |` Collect (on_path L (path @ [True]))) k" for k
    using l [of k] r [of k] on_path_sides [of L path k]
    by (cases "entries l k"; cases "entries r k"; auto simp: restrict_map_def map_add_def)+
  then show "entries l = entries (InteriorNode h rc ch l r) |` Collect (on_path L (path @ [False]))"
    and "entries r = entries (InteriorNode h rc ch l r) |` Collect (on_path L (path @ [True]))"
    by blast+
qed

lemma trie_unique:
  "wf_trie L path n \<Longrightarrow> wf_trie L path m \<Longrightarrow> path \<noteq> [] \<or> IsInterior n \<and> IsInterior m \<Longrightarrow>
     entries n = entries m \<Longrightarrow> skel n = skel m"
proof (induction n arbitrary: path m)
  case (InteriorNode h rc ch l r)
  let ?n = "InteriorNode h rc ch l r"
  have "IsInterior m"
  proof (cases "path = []")
    case False
    then obtain k k' where "k \<noteq> k'" "{k, k'} \<subseteq> dom (entries m)"
      using entries_two [OF InteriorNode.prems(1)] InteriorNode.prems(4) by (auto simp del: entries.simps)
    then show ?thesis using InteriorNode.prems(2) by (cases m) (auto split: if_splits)
  qed (use InteriorNode.prems(3) in simp)
  then obtain h' rc' ch' l' r' where m: "m = InteriorNode h' rc' ch' l' r'" by (cases m) auto
  have "entries l = entries l'" "entries r = entries r'"
    using entries_child [OF InteriorNode.prems(1)] entries_child [OF InteriorNode.prems(2) [unfolded m]]
      InteriorNode.prems(4) m by metis+
  then show ?case
    using InteriorNode.IH(1) [of "path @ [False]" l'] InteriorNode.IH(2) [of "path @ [True]" r']
      InteriorNode.prems(1,2) m by simp
next
  case (DictionaryLeafNode key val h ch rc)
  then have p: "path \<noteq> []" by simp
  show ?case
  proof (cases m)
    case (DictionaryLeafNode key' val' h' ch' rc')
    moreover have "key = key' \<and> val = val'"
      using \<open>entries (Leaf key val h ch rc) = entries m\<close> DictionaryLeafNode
      by (metis entries.simps(1) fun_upd_same fun_upd_other option.distinct(1) option.inject)
    ultimately show ?thesis by simp
  next
    case (InteriorNode h' rc' ch' l' r')
    then obtain k k' where "k \<noteq> k'" "{k, k'} \<subseteq> dom (entries m)"
      using entries_two [OF DictionaryLeafNode(2) p] by auto
    then show ?thesis
      using \<open>entries (Leaf key val h ch rc) = entries m\<close> [symmetric] by (auto split: if_splits)
  qed (use DictionaryLeafNode in \<open>auto simp: fun_eq_iff split: if_splits\<close>)
next
  case EmptyLeafNode
  then have p: "path \<noteq> []" and e: "entries m = Map.empty" by simp_all
  show ?case
    using EmptyLeafNode.prems(2) e entries_two [OF EmptyLeafNode.prems(2) p]
    by (cases m) (simp_all del: entries.simps(2))
qed simp_all

section \<open>Counting and height\<close>

lemma finite_entries: "finite (dom (entries n))"
  by (induction n) (simp_all del: fun_upd_apply)

lemma NonEmptyLeafNodes_card:
  "wf_trie L path n \<Longrightarrow> NonEmptyLeafNodesInSubtree n = Inr (card (dom (entries n)))"
proof (induction n arbitrary: path)
  case (InteriorNode h rc ch l r)
  have wf: "wf_trie L (path @ [False]) l" "wf_trie L (path @ [True]) r"
    using InteriorNode.prems by simp_all
  then have "l \<noteq> NilNode" "r \<noteq> NilNode" by auto
  moreover have "dom (entries l) \<inter> dom (entries r) = {}"
    using entries_on_path [OF wf(1)] entries_on_path [OF wf(2)] on_path_sides by blast
  ultimately show ?case
    using InteriorNode.IH wf card_Un_disjoint [OF finite_entries finite_entries, of r l]
    by (simp add: Int_commute)
qed simp_all

lemma GetNodeHeight_bound:
  "wf_trie L path n \<Longrightarrow> length path \<le> 8 * L \<Longrightarrow>
     \<exists>d. GetNodeHeight n = Inr d \<and> 0 \<le> d \<and> d \<le> int (8 * L - length path)"
proof (induction n arbitrary: path)
  case (InteriorNode h rc ch l r)
  have len: "length path < 8 * L" using InteriorNode.prems by simp
  obtain a b where "GetNodeHeight l = Inr a" "0 \<le> a" "a \<le> int (8 * L - Suc (length path))"
      "GetNodeHeight r = Inr b" "0 \<le> b" "b \<le> int (8 * L - Suc (length path))"
    using InteriorNode.IH(1) [of "path @ [False]"] InteriorNode.IH(2) [of "path @ [True]"]
      InteriorNode.prems(1) len by auto
  then show ?case
    using len by (simp add: GetNodeHeight.simps [of "InteriorNode h rc ch l r"])
qed (simp_all add: GetNodeHeight.simps)

section \<open>The operations of the full trie\<close>

abbreviation trie_map :: "FullMPT \<Rightarrow> bytes \<rightharpoonup> bytes" where
  "trie_map fm \<equiv> entries (fm_root fm)"

lemma on_path_Nil [simp]: "on_path L [] k \<longleftrightarrow> length k = L"
  by (simp add: on_path_def)

lemma trie_inv_NewFullMPT: "0 < L \<Longrightarrow> trie_inv L NewFullMPT"
  by (simp add: trie_inv_def NewFullMPT_def)

lemma trie_map_NewFullMPT [simp]: "trie_map NewFullMPT = Map.empty"
  by (simp add: NewFullMPT_def)

lemma Get_ok: "trie_inv L fm \<Longrightarrow> length k = L \<Longrightarrow> Get fm k = Inr (trie_map fm k)"
  using getHelper_entries [of L "[]" "fm_root fm" k] by (simp add: trie_inv_def Get_def)

lemma trie_inv_pos: "trie_inv L fm \<Longrightarrow> 0 < L"
  by (cases "fm_root fm") (auto simp: trie_inv_def)

lemma Insert_ok:
  assumes "trie_inv L fm" and "length k = L"
  shows "\<exists>fm'. Insert fm k v = Inr fm' \<and> trie_inv L fm' \<and> trie_map fm' = (trie_map fm)(k \<mapsto> v)"
proof -
  have "wf_trie L [] (fm_root fm)" "on_path L [] k" using assms by (simp_all add: trie_inv_def)
  from insertHelper_ok [OF trie_inv_pos [OF assms(1)] this, of v] obtain m where
    "insertHelper k v (-1) (fm_root fm) = Inr m" "wf_trie L [] m" "entries m = (trie_map fm)(k \<mapsto> v)"
    "IsInterior (fm_root fm) \<longrightarrow> IsInterior m" "hash_ok (fm_root fm) \<longrightarrow> hash_ok m" "marks_ok (fm_root fm) \<longrightarrow> marks_ok m"
    by (simp del: fun_upd_apply) blast
  then show ?thesis using assms(1) by (simp add: Insert_def trie_inv_def)
qed

lemma Delete_ok:
  assumes "trie_inv L fm" and "length k = L"
  shows "\<exists>fm'. Delete fm k = Inr fm' \<and> trie_inv L fm' \<and> trie_map fm' = (trie_map fm)(k := None)"
proof -
  have "wf_trie L [] (fm_root fm)" "on_path L [] k" using assms by (simp_all add: trie_inv_def)
  from deleteHelper_ok [OF this] obtain m where
    "deleteHelper k (-1) (fm_root fm) True = Inr m" "wf_trie L [] m" "entries m = (trie_map fm)(k := None)"
    "IsInterior (fm_root fm) \<longrightarrow> IsInterior m" "hash_ok (fm_root fm) \<longrightarrow> hash_ok m" "marks_ok (fm_root fm) \<longrightarrow> marks_ok m"
    by (simp del: fun_upd_apply) blast
  then show ?thesis using assms(1) by (simp add: Delete_def trie_inv_def)
qed

lemma trie_inv_nonnil: "trie_inv L fm \<Longrightarrow> fm_root fm \<noteq> NilNode"
  by (auto simp: trie_inv_def)

lemma Commitment_ok:
  assumes "trie_inv L fm"
  shows "\<exists>fm'. Commitment fm = Inr (thash (fm_root fm), fm') \<and> trie_inv L fm' \<and> skel (fm_root fm') = skel (fm_root fm)
    \<and> trie_map fm' = trie_map fm \<and> all_cached (fm_root fm')"
proof -
  have g: "GetHash (fm_root fm) = Inr (thash (fm_root fm), cached (fm_root fm))"
    using GetHash_ok trie_inv_nonnil [OF assms] assms by (simp add: trie_inv_def)
  have s: "skel (cached (fm_root fm)) = skel (fm_root fm)" by simp
  show ?thesis
    using g assms skel_same_trie [OF s] by (simp add: Commitment_def trie_inv_def)
qed

lemma Reset_ok:
  assumes "trie_inv L fm"
  shows "\<exists>fm'. Reset fm = Inr fm' \<and> trie_inv L fm' \<and> skel (fm_root fm') = skel (fm_root fm)
    \<and> trie_map fm' = trie_map fm \<and> all_unchanged (fm_root fm')"
proof -
  have "complete (fm_root fm)" "marks_ok (fm_root fm)"
    using assms by (auto simp: trie_inv_def intro: wf_trie_complete)
  from MarkUnchangedAll_ok [OF this] obtain m where m: "MarkUnchangedAll (fm_root fm) = Inr m"
      "skel m = skel (fm_root fm)" "all_unchanged m" "hash_ok (fm_root fm) \<longrightarrow> hash_ok m"
    by auto
  then show ?thesis
    using assms skel_same_trie [OF m(2)] by (simp add: Reset_def trie_inv_def marks_ok_all_unchanged)
qed

text \<open>The hash of the map a trie holds.\<close>

definition map_digest :: "nat \<Rightarrow> (bytes \<rightharpoonup> bytes) \<Rightarrow> bytes" where
  "map_digest L m = thash (SOME n. IsInterior n \<and> wf_trie L [] n \<and> entries n = m)"

lemma map_digest_trie: "trie_inv L fm \<Longrightarrow> thash (fm_root fm) = map_digest L (trie_map fm)"
proof -
  assume fm: "trie_inv L fm"
  let ?P = "\<lambda>n. IsInterior n \<and> wf_trie L [] n \<and> entries n = trie_map fm"
  have "?P (fm_root fm)" using fm by (simp add: trie_inv_def)
  then have "?P (SOME n. ?P n)" by (rule someI)
  then have "skel (SOME n. ?P n) = skel (fm_root fm)"
    using fm trie_unique [of L "[]"] by (simp add: trie_inv_def)
  then have "thash (SOME n. ?P n) = thash (fm_root fm)" by (rule skel_same(2))
  then show ?thesis by (simp only: map_digest_def)
qed

interpretation fmd: auth_dict NewFullMPT Insert Delete Get Commitment Reset "trie_inv 32"
  "\<lambda>k. length k = 32" trie_map "map_digest 32"
proof unfold_locales
  fix s :: FullMPT and k v :: bytes
  assume s: "trie_inv 32 s"
  show "\<exists>t. Commitment s = Inr (map_digest 32 (trie_map s), t) \<and> trie_inv 32 t \<and> trie_map t = trie_map s"
    using Commitment_ok [OF s] map_digest_trie [OF s] by auto
  show "\<exists>t. Reset s = Inr t \<and> trie_inv 32 t \<and> trie_map t = trie_map s"
    using Reset_ok [OF s] by auto
  assume k: "length k = 32"
  show "\<exists>t. Insert s k v = Inr t \<and> trie_inv 32 t \<and> trie_map t = (trie_map s)(k \<mapsto> v)"
    using s k by (rule Insert_ok)
  show "\<exists>t. Delete s k = Inr t \<and> trie_inv 32 t \<and> trie_map t = (trie_map s)(k := None)"
    using s k by (rule Delete_ok)
  show "Get s k = Inr (trie_map s k)"
    using s k by (rule Get_ok)
qed (simp_all add: trie_inv_NewFullMPT)

text \<open>A copy taken right after \<open>Commitment\<close> is a trie of its own with the same map.\<close>

lemma Copy_ok:
  assumes fm: "trie_inv L fm" and c: "all_cached (fm_root fm)"
  shows "\<exists>fm'. FullMPT_Copy fm = Inr fm' \<and> trie_inv L fm' \<and> skel (fm_root fm') = skel (fm_root fm)
    \<and> all_cached (fm_root fm')"
proof -
  have n: "fm_root fm \<noteq> NilNode" using trie_inv_nonnil [OF fm] .
  obtain m where m: "DeepCopy (fm_root fm) = Inr m" "hash_ok m" "all_cached m" "skel m = skel (fm_root fm)"
    using DeepCopy_hash_ok [OF n _ c] fm by (auto simp: trie_inv_def)
  have "marks_ok m" using DeepCopy_skel [OF n] m(1) by auto
  moreover have i: "IsInterior m" "wf_trie L [] m"
    using skel_same_trie [OF m(4)] fm by (simp_all add: trie_inv_def)
  ultimately have "trie_inv L \<lparr>fm_root = m\<rparr>" using m by (simp add: trie_inv_def)
  moreover have "FullMPT_Copy fm = Inr \<lparr>fm_root = m\<rparr>"
    using i(1) m(1) by (cases m) (simp_all add: FullMPT_Copy_def newFullMPTWithRoot_def)
  ultimately show ?thesis using m by simp
qed

section \<open>Example tries\<close>

abbreviation ex_key :: "byte \<Rightarrow> bytes" where
  "ex_key b \<equiv> b # zeros 31"

abbreviation ex_leaf :: "byte \<Rightarrow> node" where
  "ex_leaf b \<equiv> NewDictionaryLeafNode (ex_key b) [b]"

definition ex_two :: FullMPT where
  "ex_two = \<lparr>fm_root = NewInteriorNode (ex_leaf 0x00) (ex_leaf 0x80)\<rparr>"

definition ex_one :: FullMPT where
  "ex_one = \<lparr>fm_root = NewInteriorNode (ex_leaf 0x00) EmptyLeafNode\<rparr>"

definition ex_deep :: FullMPT where
  "ex_deep = \<lparr>fm_root = NewInteriorNode (NewInteriorNode (ex_leaf 0x00) (ex_leaf 0x40)) EmptyLeafNode\<rparr>"

lemma ex_bits:
  "GetBit (ex_key b) 0 = Inr (bit b 7)" "GetBit (ex_key b) (Suc 0) = Inr (bit b 6)" "GetBit (ex_key b) 1 = Inr (bit b 6)"
  "GetBit (ex_key b) 2 = Inr (bit b 5)" "GetBit (ex_key b) 3 = Inr (bit b 4)"
  by (simp_all add: GetBit_key_bits nth_append byte_bits_def)

lemma ex_path:
  "take (Suc 0) (key_bits (ex_key b)) = [bit b 7]" "take (Suc (Suc 0)) (key_bits (ex_key b)) = [bit b 7, bit b 6]"
  by (simp_all add: byte_bits_def upt_rec)

lemma trie_inv_ex: "trie_inv 32 ex_two" "trie_inv 32 ex_one" "trie_inv 32 ex_deep"
  by (simp_all add: trie_inv_def ex_two_def ex_one_def ex_deep_def contractible_def ex_path del: key_bits_simps)

lemma trie_map_ex:
  "trie_map ex_two = [ex_key 0x00 \<mapsto> [0x00], ex_key 0x80 \<mapsto> [0x80]]"
  "trie_map ex_deep = [ex_key 0x00 \<mapsto> [0x00], ex_key 0x40 \<mapsto> [0x40]]"
  by (simp_all add: ex_two_def ex_deep_def del: fun_upd_apply)

section \<open>Properties\<close>

text \<open>
  C1. Any sequence of insertions, deletions, commitments and resets with 32-byte keys runs through on
  the empty trie, keeps the representation invariant, and refines the same updates on a finite map:
  afterwards \<open>Get\<close> returns for every key what the map holds.
\<close>

theorem dictionary_refines_map:
  assumes "list_all (op_valid (\<lambda>k. length k = 32)) ops"
  shows "\<exists>fm. run_dict Insert Delete Commitment Reset ops NewFullMPT = Inr fm \<and> trie_inv 32 fm
    \<and> (\<forall>k. length k = 32 \<longrightarrow> Get fm k = Inr (fold dict_step ops Map.empty k))"
proof -
  obtain fm where "run_dict Insert Delete Commitment Reset ops NewFullMPT = Inr fm" "trie_inv 32 fm"
      "trie_map fm = fold dict_step ops (trie_map NewFullMPT)"
    using fmd.run_ok [OF fmd.empty_inv assms] by blast
  then show ?thesis using fmd.get_ok by (auto simp: fmd.empty_abs)
qed

definition ex_ops :: "(bytes, bytes) dict_op list" where
  "ex_ops = [OpInsert (ex_key 0x00) [1], OpInsert (ex_key 0x20) [2], OpCommit, OpDelete (ex_key 0x00), OpReset,
     OpInsert (ex_key 0x20) [3]]"

definition ex_ops' :: "(bytes, bytes) dict_op list" where
  "ex_ops' = [OpInsert (ex_key 0x20) [3]]"

lemma ex_ops_valid: "list_all (op_valid (\<lambda>k. length k = 32)) ex_ops" "list_all (op_valid (\<lambda>k. length k = 32)) ex_ops'"
  by (simp_all add: ex_ops_def ex_ops'_def)

lemma ex_ops_fold:
  "fold dict_step ex_ops Map.empty = [ex_key 0x20 \<mapsto> [3]]" "fold dict_step ex_ops' Map.empty = [ex_key 0x20 \<mapsto> [3]]"
  by (auto simp: ex_ops_def ex_ops'_def)

theorem dictionary_refines_map_witness:
  "list_all (op_valid (\<lambda>k. length k = 32)) ex_ops
    \<and> (\<exists>fm. run_dict Insert Delete Commitment Reset ex_ops NewFullMPT = Inr fm \<and> trie_inv 32 fm
        \<and> Get fm (ex_key 0x20) = Inr (Some [3]) \<and> Get fm (ex_key 0x00) = Inr None)"
  using dictionary_refines_map [OF ex_ops_valid(1)] ex_ops_valid(1) by (auto simp: ex_ops_fold)

text \<open>
  C2. The commitment is independent of the history: two sequences of operations that lead to the same
  map give the same commitment, whatever the order of insertions, the deletions in between, and the
  points at which hashes were computed and cached.
\<close>

theorem commitment_history_independent:
  assumes "list_all (op_valid (\<lambda>k. length k = 32)) ops" and "list_all (op_valid (\<lambda>k. length k = 32)) ops'"
    and "fold dict_step ops Map.empty = fold dict_step ops' Map.empty"
  shows "\<exists>h fm fm'. bind_go (run_dict Insert Delete Commitment Reset ops NewFullMPT) Commitment = Inr (h, fm)
    \<and> bind_go (run_dict Insert Delete Commitment Reset ops' NewFullMPT) Commitment = Inr (h, fm')"
  using fmd.run_commitment_order [OF assms] .

theorem commitment_history_independent_witness:
  "\<exists>h fm fm'. bind_go (run_dict Insert Delete Commitment Reset ex_ops NewFullMPT) Commitment = Inr (h, fm)
    \<and> bind_go (run_dict Insert Delete Commitment Reset ex_ops' NewFullMPT) Commitment = Inr (h, fm')"
  using commitment_history_independent [OF ex_ops_valid] by (simp add: ex_ops_fold)

text \<open>
  C19. The commitment is the root of the hash tree over the contents: leaves hash key and value,
  interior nodes the two child hashes, whatever was cached before. Computing it fills the caches:
  nothing is left to recompute, a copy taken then is a valid trie of the same map, and its
  commitment is the same.
\<close>

theorem commitment_then_copy:
  assumes "trie_inv L fm"
  shows "\<exists>fm' c c'. Commitment fm = Inr (thash (fm_root fm), fm') \<and> trie_inv L fm' \<and> trie_map fm' = trie_map fm
    \<and> CountRecalculations fm' = Inr 0 \<and> FullMPT_Copy fm' = Inr c \<and> trie_inv L c \<and> trie_map c = trie_map fm
    \<and> Commitment c = Inr (thash (fm_root fm), c')"
proof -
  obtain fm' where 1: "Commitment fm = Inr (thash (fm_root fm), fm')" "trie_inv L fm'"
      "skel (fm_root fm') = skel (fm_root fm)" "all_cached (fm_root fm')"
    using Commitment_ok [OF assms] by blast
  obtain c where 2: "FullMPT_Copy fm' = Inr c" "trie_inv L c" "skel (fm_root c) = skel (fm_root fm')"
    using Copy_ok [OF 1(2,4)] by blast
  obtain c' where 3: "Commitment c = Inr (thash (fm_root c), c')" using Commitment_ok [OF 2(2)] by blast
  have "CountRecalculations fm' = Inr 0"
    using 1(2,4) by (cases "fm_root fm'") (auto simp: CountRecalculations_def trie_inv_def)
  then show ?thesis
    using 1 2 3 skel_same_trie(2) [OF 1(3)] skel_same_trie(2) [OF 2(3)] skel_same(2) [OF 1(3)] skel_same(2) [OF 2(3)]
    by simp
qed

theorem commitment_then_copy_witness:
  "\<exists>fm' c c'. Commitment ex_two = Inr (thash (fm_root ex_two), fm') \<and> FullMPT_Copy fm' = Inr c
    \<and> Commitment c = Inr (thash (fm_root ex_two), c')"
  using commitment_then_copy [OF trie_inv_ex(1)] by blast

text \<open>
  The counters are right and the trie is shallow: \<open>Size\<close> is the number of stored keys, every
  node is interior, an empty leaf or a dictionary leaf, leaves outnumber interior nodes by one, and
  the height is at most the number of key bits.
\<close>

lemma counters_and_height:
  assumes "trie_inv L fm"
  shows "\<exists>i e h. Size fm = Inr (card (dom (trie_map fm))) \<and> CountInteriorNodes fm = Inr i \<and> CountEmptyLeafNodes fm = Inr e
    \<and> CountNodes fm = Inr (i + e + card (dom (trie_map fm))) \<and> e + card (dom (trie_map fm)) = i + 1
    \<and> MaxHeight fm = Inr h \<and> 0 \<le> h \<and> h \<le> int (8 * L)"
proof -
  have wf: "wf_trie L [] (fm_root fm)" using assms by (simp add: trie_inv_def)
  obtain h where "GetNodeHeight (fm_root fm) = Inr h" "0 \<le> h" "h \<le> int (8 * L)"
    using GetNodeHeight_bound [OF wf] by auto
  moreover obtain i e d where "InteriorNodesInSubtree (fm_root fm) = Inr i" "EmptyLeafNodesInSubtree (fm_root fm) = Inr e"
      "NonEmptyLeafNodesInSubtree (fm_root fm) = Inr d" "NodesInSubtree (fm_root fm) = Inr (i + e + d)" "e + d = i + 1"
    using subtree_counts [OF wf_trie_complete [OF wf]] by blast
  ultimately show ?thesis
    using NonEmptyLeafNodes_card [OF wf]
    by (simp add: Size_def CountInteriorNodes_def CountEmptyLeafNodes_def CountNodes_def MaxHeight_def)
qed

text \<open>
  \<open>Reset\<close> clears every change mark and nothing else; after it an insertion or deletion marks
  the root again.
\<close>

lemma reset_clears_marks:
  assumes "trie_inv L fm" and "length k = L"
  shows "\<exists>fm' fi fd. Reset fm = Inr fm' \<and> all_unchanged (fm_root fm') \<and> skel (fm_root fm') = skel (fm_root fm)
    \<and> Insert fm' k v = Inr fi \<and> Changed (fm_root fi) \<and> Delete fm' k = Inr fd \<and> Changed (fm_root fd)"
proof -
  obtain fm' where r: "Reset fm = Inr fm'" "trie_inv L fm'" "skel (fm_root fm') = skel (fm_root fm)" "all_unchanged (fm_root fm')"
    using Reset_ok [OF assms(1)] by blast
  obtain fi fd where o: "Insert fm' k v = Inr fi" "Delete fm' k = Inr fd"
    using Insert_ok [OF r(2) assms(2)] Delete_ok [OF r(2) assms(2)] by blast
  have "Changed (fm_root fi)" "Changed (fm_root fd)"
    using o r(2) by (cases "fm_root fm'"; auto simp: trie_inv_def Insert_def Delete_def bind_go_eq_Inr
        insertHelper.simps [of _ _ _ "InteriorNode _ _ _ _ _"] deleteHelper.simps [of _ _ "InteriorNode _ _ _ _ _"]
        Let_def split: if_splits)+
  with r o show ?thesis by blast
qed

end
