(* ===== verification/Codec.thy ===== *)
theory Codec
  imports Bv_Prelude
begin

text \<open>
  The contract of an encoder and its decoder over a \<open>bytes.Buffer\<close>: decoding an encoding that is
  followed by anything returns the value and leaves what follows. Injectivity, unique parsing and
  the encoding of a sequence follow once for all codecs of the program; a canonical codec accepts
  only encodings, so its decoder is characterised completely.
\<close>

primrec dec_seq :: "(bytes \<Rightarrow> ('a \<times> bytes) go) \<Rightarrow> nat \<Rightarrow> bytes \<Rightarrow> ('a list \<times> bytes) go" where
  "dec_seq dec 0 b = Inr ([], b)"
| "dec_seq dec (Suc n) b =
     bind_go (dec b) (\<lambda>(x, b). bind_go (dec_seq dec n b) (\<lambda>(xs, b). Inr (x # xs, b)))"

text \<open>The loop of an encoder that may fail: every element written in turn, stopping at the first error.\<close>

fun write_all :: "('a \<Rightarrow> bytes go) \<Rightarrow> 'a list \<Rightarrow> bytes go" where
  "write_all wr [] = Inr []"
| "write_all wr (x # xs) = bind_go (wr x) (\<lambda>w. bind_go (write_all wr xs) (\<lambda>ws. Inr (w @ ws)))"

lemma panic_free_dec_seq [parser_intros]: "(\<And>b. panic_free (dec b)) \<Longrightarrow> panic_free (dec_seq dec n b)"
  by (induction n arbitrary: b) (auto intro!: parser_intros)

locale codec =
  fixes enc :: "'a \<Rightarrow> bytes"
    and dec :: "bytes \<Rightarrow> ('a \<times> bytes) go"
    and ok :: "'a \<Rightarrow> bool"
  assumes dec_enc: "ok x \<Longrightarrow> dec (enc x @ r) = Inr (x, r)"
begin

lemma enc_parse_unique:
  assumes "ok x" and "ok y" and "enc x @ r = enc y @ s"
  shows "x = y \<and> r = s"
proof -
  have "Inr (x, r) = (Inr (y, s) :: ('a \<times> bytes) go)"
    using dec_enc [OF assms(1), of r] dec_enc [OF assms(2), of s] unfolding assms(3) by (rule box_equals [OF refl])
  then show ?thesis by simp
qed

lemma enc_inject: "ok x \<Longrightarrow> ok y \<Longrightarrow> enc x = enc y \<longleftrightarrow> x = y"
  using enc_parse_unique [of x y "[]" "[]"] by auto

lemma enc_prefix_free:
  assumes "ok x" and "ok y" and "x \<noteq> y"
  shows "enc y \<noteq> enc x @ s"
  using enc_parse_unique [OF assms(1,2), of s "[]"] assms(3) by auto

lemma dec_seq_enc:
  "list_all ok xs \<Longrightarrow> dec_seq dec (length xs) (concat (map enc xs) @ r) = Inr (xs, r)"
  by (induction xs) (simp_all add: dec_enc)

lemma enc_seq_inject:
  assumes "list_all ok xs" and "list_all ok ys" and "length xs = length ys"
    and "concat (map enc xs) = concat (map enc ys)"
  shows "xs = ys"
proof -
  have "Inr (xs, []) = (Inr (ys, []) :: ('a list \<times> bytes) go)"
    using dec_seq_enc [OF assms(1), of "[]"] dec_seq_enc [OF assms(2), of "[]"]
    unfolding assms(3,4) by (rule box_equals [OF refl])
  then show ?thesis by simp
qed

end

text \<open>A codec whose decoder accepts nothing but encodings.\<close>

locale canonical_codec = codec +
  assumes dec_sound: "dec b = Inr (x, r) \<Longrightarrow> ok x \<and> b = enc x @ r"
begin

lemma dec_iff: "dec b = Inr (x, r) \<longleftrightarrow> ok x \<and> b = enc x @ r"
  using dec_sound dec_enc by blast

lemma dec_seq_sound:
  "dec_seq dec n b = Inr (xs, r) \<Longrightarrow> length xs = n \<and> list_all ok xs \<and> b = concat (map enc xs) @ r"
  by (induction n arbitrary: b xs) (auto simp: go_simps dec_iff)

lemma dec_seq_iff:
  "dec_seq dec n b = Inr (xs, r) \<longleftrightarrow> length xs = n \<and> list_all ok xs \<and> b = concat (map enc xs) @ r"
  using dec_seq_sound dec_seq_enc by blast

end

text \<open>
  An encoder that may refuse a value: it accepts the good ones, and what it writes for them decodes.
  The accepted part is a codec.
\<close>

locale checked_codec =
  fixes enc :: "'a \<Rightarrow> bytes go"
    and dec :: "bytes \<Rightarrow> ('a \<times> bytes) go"
    and ok :: "'a \<Rightarrow> bool"
  assumes enc_dec: "ok x \<Longrightarrow> \<exists>w. enc x = Inr w \<and> (\<forall>r. dec (w @ r) = Inr (x, r))"
begin

lemma enc_total: "ok x \<Longrightarrow> enc x = Inr (projr (enc x))"
  using enc_dec by fastforce

lemma dec_of_enc: "ok x \<Longrightarrow> enc x = Inr w \<Longrightarrow> dec (w @ r) = Inr (x, r)"
  using enc_dec by fastforce

lemma write_all_dec:
  "list_all ok xs \<Longrightarrow> \<exists>w. write_all enc xs = Inr w \<and> (\<forall>r. dec_seq dec (length xs) (w @ r) = Inr (xs, r))"
proof (induction xs)
  case (Cons x xs)
  then show ?case using enc_dec [of x] by fastforce
qed simp

end

sublocale checked_codec \<subseteq> accepted: codec "\<lambda>x. projr (enc x)" dec ok
  by unfold_locales (use enc_dec in fastforce)

end
