(* ===== verification/Mpt_Serial.thy ===== *)
theory Mpt_Serial
  imports Full_MPT_Correct Codec
begin

text \<open>
  Serialization of nodes and tries (\<open>Serialize\<close>, \<open>ByteSize\<close>, \<open>DeserializeNode\<close> and
  the \<open>Deserialize...\<close> constructors of \<open>mpt/\<close>). Lengths are written as \<open>int32\<close>; the
  reader compares them as signed numbers. \<open>DeserializeNode\<close> recurses through the reader, so the
  model gives it fuel; every level consumes the type byte, hence one unit more than the number of
  unread bytes is always enough (\<open>DeserializeNode_fuel_enough\<close>).
\<close>

section \<open>Definitions\<close>

fun ByteSize :: "node \<Rightarrow> nat" where
  "ByteSize NilNode = 0"
| "ByteSize (Stub hash) = 5 + length hash"
| "ByteSize EmptyLeafNode = 1"
| "ByteSize (DictionaryLeafNode key value _ _ _) = 9 + length key + length value"
| "ByteSize (InteriorNode _ _ _ leftChild rightChild) =
     9 + (if leftChild \<noteq> NilNode then ByteSize leftChild else 0)
       + (if rightChild \<noteq> NilNode then ByteSize rightChild else 0)"

fun Serialize :: "node \<Rightarrow> bytes" where
  "Serialize NilNode = []"
| "Serialize (Stub hash) = [0x00] @ putBE32 (word_of_nat (length hash)) @ hash"
| "Serialize EmptyLeafNode = [0x02]"
| "Serialize (DictionaryLeafNode key value _ _ _) =
     [0x01] @ putBE32 (word_of_nat (length key)) @ key @ putBE32 (word_of_nat (length value)) @ value"
| "Serialize (InteriorNode _ _ _ leftChild rightChild) =
     [0x03]
     @ (if leftChild \<noteq> NilNode then putBE32 (word_of_nat (ByteSize leftChild)) @ Serialize leftChild else putBE32 0)
     @ (if rightChild \<noteq> NilNode then putBE32 (word_of_nat (ByteSize rightChild)) @ Serialize rightChild else putBE32 0)"

definition DeserializeNewStub :: "bytes \<Rightarrow> (node \<times> bytes) go" where
  "DeserializeNewStub r =
     bind_go (readBE32 r) (\<lambda>(iLen, r).
       if sint iLen > 0 then
         bind_go (bufRead (unat iLen) r) (\<lambda>(stub, r).
           if length stub \<noteq> unat iLen then Inl (GoError ''Specified length of stub not present in buffer'')
           else Inr (NewStub stub, r))
       else Inl (GoError ''Dictionary leaf node needs a stub of at least 1 byte''))"

definition DeserializeNewDictionaryLeafNode :: "bytes \<Rightarrow> (node \<times> bytes) go" where
  "DeserializeNewDictionaryLeafNode r =
     bind_go (readBE32 r) (\<lambda>(iLen, r).
       if sint iLen > 0 then
         bind_go (bufRead (unat iLen) r) (\<lambda>(key, r).
           if length key \<noteq> unat iLen then Inl (GoError ''Specified length of key not present in buffer'')
           else bind_go (readBE32 r) (\<lambda>(iLen, r).
             if sint iLen > 0 then
               bind_go (bufRead (unat iLen) r) (\<lambda>(value, r).
                 if length value \<noteq> unat iLen then Inl (GoError ''Specified length of value not present in buffer'')
                 else Inr (NewDictionaryLeafNode key value, r))
             else Inl (GoError ''Dictionary leaf node needs a value of at least 1 byte'')))
       else Inl (GoError ''Dictionary leaf node needs a key of at least 1 byte''))"

definition DeserializeNewInteriorNode :: "(bytes \<Rightarrow> (node \<times> bytes) go) \<Rightarrow> bytes \<Rightarrow> (node \<times> bytes) go" where
  "DeserializeNewInteriorNode deserializeNode r =
     bind_go (readBE32 r) (\<lambda>(iLen, r).
     bind_go (if sint iLen > 0 then deserializeNode r else Inr (NilNode, r)) (\<lambda>(leftNode, r).
     bind_go (readBE32 r) (\<lambda>(iLen, r).
     bind_go (if sint iLen > 0 then deserializeNode r else Inr (NilNode, r)) (\<lambda>(rightNode, r).
       Inr (NewInteriorNode leftNode rightNode, r)))))"

primrec DeserializeNode_fuel :: "nat \<Rightarrow> bytes \<Rightarrow> (node \<times> bytes) go" where
  "DeserializeNode_fuel 0 r = Inl (GoPanic ''fuel'')"
| "DeserializeNode_fuel (Suc f) r =
     bind_go (bufRead 1 r) (\<lambda>(typeByte, r).
       if length typeByte \<noteq> 1 then Inl (GoError ''Unable to read type byte'')
       else if typeByte ! 0 = 0x00 then DeserializeNewStub r
       else if typeByte ! 0 = 0x01 then DeserializeNewDictionaryLeafNode r
       else if typeByte ! 0 = 0x02 then Inr (EmptyLeafNode, r)
       else if typeByte ! 0 = 0x03 then DeserializeNewInteriorNode (DeserializeNode_fuel f) r
       else Inl (GoError ''Unknown leaf type''))"

definition DeserializeNode :: "bytes \<Rightarrow> (node \<times> bytes) go" where
  "DeserializeNode r = DeserializeNode_fuel (Suc (length r)) r"

definition FullMPT_Bytes :: "FullMPT \<Rightarrow> bytes" where
  "FullMPT_Bytes fm = Serialize (fm_root fm)"

definition DeserializeNewFullMPT :: "bytes \<Rightarrow> (FullMPT \<times> bytes) go" where
  "DeserializeNewFullMPT r = bind_go (DeserializeNode r) (\<lambda>(possibleRoot, r).
     case possibleRoot of
       InteriorNode _ _ _ _ _ \<Rightarrow> Inr (newFullMPTWithRoot possibleRoot, r)
     | _ \<Rightarrow> Inl (GoError ''The passed byte array is no valid tree''))"

section \<open>Sizes\<close>

lemma length_Serialize: "length (Serialize n) = ByteSize n"
  by (induction n) simp_all

section \<open>Consumption and fuel\<close>

lemma shrinks_leaves [parser_intros]:
  "length r \<le> n \<Longrightarrow> shrinks n (DeserializeNewStub r)"
  "length r \<le> n \<Longrightarrow> shrinks n (DeserializeNewDictionaryLeafNode r)"
  unfolding DeserializeNewStub_def DeserializeNewDictionaryLeafNode_def
  by (auto intro!: parser_intros)

lemma shrinks_interior:
  assumes "\<And>q. length q \<le> n \<Longrightarrow> shrinks n (d q)" and "length r \<le> n"
  shows "shrinks n (DeserializeNewInteriorNode d r)"
  unfolding DeserializeNewInteriorNode_def using assms
  by (auto intro!: parser_intros)

lemma shrinks_node: "length r \<le> n \<Longrightarrow> shrinks n (DeserializeNode_fuel f r)"
proof (induction f arbitrary: r)
  case (Suc f)
  show ?case
    using Suc by (auto intro!: parser_intros shrinks_interior)
qed (simp add: parser_intros)

lemma interior_cong:
  assumes "\<And>q. length q \<le> length r \<Longrightarrow> d q = d' q" and "\<And>q n. length q \<le> n \<Longrightarrow> shrinks n (d q)"
  shows "DeserializeNewInteriorNode d r = DeserializeNewInteriorNode d' r"
proof -
  have b: "length q' \<le> length q" if "readBE32 q = Inr (w, q')" for q w q'
    using shrinks_Inr [OF shrinks_reads(3) [OF order_refl] that] .
  have d: "length q' \<le> length r"
    if "(if c then d' q else Inr (NilNode, q)) = Inr (x, q')" "length q \<le> length r" for c q x q'
    using assms(2) [OF that(2)] that assms(1) [OF that(2)] by (auto simp: shrinks_def split: if_splits)
  show ?thesis
    unfolding DeserializeNewInteriorNode_def
    by (auto simp: assms(1) intro!: bind_go_cong dest!: b) (rule assms(1), drule d, simp_all)
qed

text \<open>
  Fuel above the number of unread bytes does not change the result.
\<close>

lemma DeserializeNode_fuel_enough:
  "length r < f \<Longrightarrow> DeserializeNode_fuel f r = DeserializeNode r"
proof -
  have "DeserializeNode_fuel f r = DeserializeNode_fuel g r" if "length r < f" "length r < g" for g
    using that
  proof (induction f arbitrary: g r)
    case (Suc f)
    then obtain g' where g: "g = Suc g'" by (cases g) auto
    show ?case
    proof (cases r)
      case (Cons b r')
      have "DeserializeNewInteriorNode (DeserializeNode_fuel f) r' = DeserializeNewInteriorNode (DeserializeNode_fuel g') r'"
        using Suc Cons g by (intro interior_cong shrinks_node) auto
      then show ?thesis using Cons g by (simp add: bufRead_def)
    qed (simp add: g bufRead_def)
  qed simp
  from this [OF _ lessI] show "length r < f \<Longrightarrow> DeserializeNode_fuel f r = DeserializeNode r"
    unfolding DeserializeNode_def .
qed

lemma DeserializeNode_consumes:
  assumes "DeserializeNode_fuel f r = Inr (n, r')"
  shows "length r' < length r"
proof (cases f)
  case (Suc g)
  then obtain b q where r: "r = b # q" using assms by (cases r) (auto simp: bufRead_def)
  have "shrinks (length q) (DeserializeNode_fuel f r)"
    by (auto simp: Suc r bufRead_def intro!: parser_intros shrinks_interior shrinks_node)
  from shrinks_Inr [OF this assms] show ?thesis by (simp add: r)
qed (use assms in simp)

lemma DeserializeNode_interior:
  assumes "DeserializeNode r = Inr (n, r')" and "IsInterior n"
  shows "\<exists>a b. n = InteriorNode (zeros 32) True True a b"
  using assms
  by (auto simp: DeserializeNode_def DeserializeNewStub_def DeserializeNewDictionaryLeafNode_def
      DeserializeNewInteriorNode_def bind_go_eq_Inr split: if_splits)

section \<open>No input makes the parser panic\<close>

lemma panic_free_leaves [parser_intros]:
  "panic_free (DeserializeNewStub r)" "panic_free (DeserializeNewDictionaryLeafNode r)"
  unfolding DeserializeNewStub_def DeserializeNewDictionaryLeafNode_def
  by (auto intro!: parser_intros)

lemma panic_free_node: "length r < f \<Longrightarrow> panic_free (DeserializeNode_fuel f r)"
proof (induction f arbitrary: r)
  case (Suc f)
  have i: "panic_free (DeserializeNewInteriorNode (DeserializeNode_fuel f) q)" if "length q < f" for q
    using that unfolding DeserializeNewInteriorNode_def
    by (auto intro!: parser_intros Suc.IH split: if_splits
        dest!: shrinks_Inr [OF shrinks_reads(3) [OF order_refl]] shrinks_Inr [OF shrinks_node [OF order_refl]])
  show ?case
    using Suc.prems by (cases r) (auto simp: bufRead_def intro!: parser_intros i)
qed simp

section \<open>Round trip\<close>

text \<open>The node a reader builds: caches empty, everything marked.\<close>

fun fresh :: "node \<Rightarrow> node" where
  "fresh (DictionaryLeafNode key value _ _ _) = NewDictionaryLeafNode key value"
| "fresh (InteriorNode _ _ _ l r) = NewInteriorNode (fresh l) (fresh r)"
| "fresh n = n"

text \<open>Trees whose lengths fit \<open>int32\<close> and that have no empty key, value or stub.\<close>

definition int32_len :: "nat \<Rightarrow> bool" where
  "int32_len n \<longleftrightarrow> 0 < n \<and> n < 2 ^ 31"

fun serial_ok :: "node \<Rightarrow> bool" where
  "serial_ok (Stub hash) \<longleftrightarrow> int32_len (length hash)"
| "serial_ok (DictionaryLeafNode key value _ _ _) \<longleftrightarrow> int32_len (length key) \<and> int32_len (length value)"
| "serial_ok EmptyLeafNode \<longleftrightarrow> True"
| "serial_ok (InteriorNode _ _ _ l r) \<longleftrightarrow>
     (l = NilNode \<or> serial_ok l \<and> int32_len (ByteSize l)) \<and> (r = NilNode \<or> serial_ok r \<and> int32_len (ByteSize r))"
| "serial_ok NilNode \<longleftrightarrow> False"

lemma int32_len_word:
  assumes "int32_len n"
  shows "sint (word_of_nat n :: 32 word) = int n" and "unat (word_of_nat n :: 32 word) = n"
    and "0 < sint (word_of_nat n :: 32 word)"
proof -
  show u: "unat (word_of_nat n :: 32 word) = n"
    using assms by (simp add: unat_of_nat int32_len_def)
  show s: "sint (word_of_nat n :: 32 word) = int n"
    using assms by (simp add: signed_of_nat signed_take_bit_int_eq_self int32_len_def)
  show "0 < sint (word_of_nat n :: 32 word)"
    unfolding s using assms by (simp add: int32_len_def)
qed

lemma int32_len_0 [simp]: "\<not> int32_len 0"
  by (simp add: int32_len_def)

lemma int32_len_nonempty: "int32_len (length h) \<Longrightarrow> h \<noteq> []"
  by (auto simp: int32_len_def)

lemma DeserializeNewStub_put:
  "int32_len (length h) \<Longrightarrow>
     DeserializeNewStub (putBE32 (word_of_nat (length h)) @ h @ r) = Inr (Stub h, r)"
  by (simp add: DeserializeNewStub_def int32_len_word int32_len_nonempty bufRead_append)

lemma DeserializeNewDictionaryLeafNode_put:
  "int32_len (length k) \<Longrightarrow> int32_len (length v) \<Longrightarrow>
     DeserializeNewDictionaryLeafNode
       (putBE32 (word_of_nat (length k)) @ k @ putBE32 (word_of_nat (length v)) @ v @ r)
     = Inr (NewDictionaryLeafNode k v, r)"
  by (simp add: DeserializeNewDictionaryLeafNode_def int32_len_word int32_len_nonempty bufRead_append)

lemma DeserializeNode_fuel_Serialize:
  "serial_ok n \<Longrightarrow> node_size n \<le> f \<Longrightarrow> DeserializeNode_fuel f (Serialize n @ r) = Inr (fresh n, r)"
proof (induction n arbitrary: f r)
  case (InteriorNode h rc ch a b)
  then obtain g where f: "f = Suc g" "node_size a \<le> g" "node_size b \<le> g" by (cases f) auto
  have put: "bind_go (readBE32 ((if x \<noteq> NilNode then putBE32 (word_of_nat (ByteSize x)) @ Serialize x else putBE32 0) @ q))
        (\<lambda>(iLen, r). bind_go (if sint iLen > 0 then DeserializeNode_fuel g r else Inr (NilNode, r)) k)
      = k (fresh x, q)"
    if "x = NilNode \<or> serial_ok x \<and> int32_len (ByteSize x)"
      and "serial_ok x \<Longrightarrow> DeserializeNode_fuel g (Serialize x @ q) = Inr (fresh x, q)" for x q and k :: "node \<times> bytes \<Rightarrow> (node \<times> bytes) go"
    using that by (cases "x = NilNode") (auto simp: int32_len_word)
  show ?case
    using InteriorNode.prems(1) InteriorNode.IH(1) [OF _ f(2)] InteriorNode.IH(2) [OF _ f(3)]
    by (simp add: f(1) bufRead_def DeserializeNewInteriorNode_def put del: if_split)
qed (auto simp: bufRead_def DeserializeNewStub_put DeserializeNewDictionaryLeafNode_put
    gr0_conv_Suc Suc_le_eq)

lemma node_size_ByteSize: "node_size n \<le> ByteSize n"
  by (induction n) auto

lemma DeserializeNode_Serialize:
  "serial_ok n \<Longrightarrow> DeserializeNode (Serialize n @ r) = Inr (fresh n, r)"
  unfolding DeserializeNode_def using node_size_ByteSize [of n]
  by (intro DeserializeNode_fuel_Serialize) (simp_all add: length_Serialize)

lemma skel_fresh [simp]: "skel (fresh n) = skel n"
  by (induction n) simp_all

lemma fresh_ok [simp]: "hash_ok (fresh n)" "marks_ok (fresh n)"
  by (induction n) simp_all

lemma fresh_fresh [simp]: "fresh (fresh n) = fresh n"
  by (induction n) simp_all

lemma IsInterior_fresh [simp]: "IsInterior (fresh n) = IsInterior n"
  by (cases n) simp_all

interpretation node_codec: codec Serialize DeserializeNode "\<lambda>n. serial_ok n \<and> fresh n = n"
  by unfold_locales (simp add: DeserializeNode_Serialize)

lemma DeserializeNewFullMPT_Bytes:
  assumes "trie_inv L fm" and "serial_ok (fm_root fm)"
  shows "\<exists>fm'. DeserializeNewFullMPT (FullMPT_Bytes fm @ r) = Inr (fm', r) \<and> trie_inv L fm'
    \<and> skel (fm_root fm') = skel (fm_root fm) \<and> trie_map fm' = trie_map fm"
proof -
  let ?n = "fresh (fm_root fm)"
  have s: "skel ?n = skel (fm_root fm)" by simp
  obtain h rc ch a b where n: "?n = InteriorNode h rc ch a b"
    using assms(1) by (cases "fm_root fm") (auto simp: trie_inv_def)
  have "DeserializeNewFullMPT (FullMPT_Bytes fm @ r) = Inr (newFullMPTWithRoot ?n, r)"
    by (simp add: DeserializeNewFullMPT_def FullMPT_Bytes_def DeserializeNode_Serialize [OF assms(2)] n)
  moreover have "trie_inv L (newFullMPTWithRoot ?n)"
    using assms(1) skel_same_trie [OF s] by (simp add: trie_inv_def newFullMPTWithRoot_def)
  ultimately show ?thesis
    using s skel_same_trie(2) [OF s] by (simp add: newFullMPTWithRoot_def)
qed

text \<open>Whatever a reader returns has no cached hash.\<close>

lemma DeserializeNode_fuel_fresh: "DeserializeNode_fuel f r = Inr (n, r') \<Longrightarrow> fresh n = n"
proof (induction f arbitrary: r n r')
  case (Suc f)
  have i: "fresh m = m" if "DeserializeNewInteriorNode (DeserializeNode_fuel f) q = Inr (m, q')" for q m q'
    using that by (auto simp: DeserializeNewInteriorNode_def bind_go_eq_Inr dest!: Suc.IH split: if_splits)
  show ?case
    using Suc.prems
    by (auto simp: DeserializeNewStub_def DeserializeNewDictionaryLeafNode_def bind_go_eq_Inr dest!: i split: if_splits)
qed simp

lemma DeserializeNode_fresh: "DeserializeNode r = Inr (n, r') \<Longrightarrow> fresh n = n"
  unfolding DeserializeNode_def by (rule DeserializeNode_fuel_fresh)

section \<open>Properties\<close>

text \<open>
  C16. Deserializing any node that was serialized, followed by anything, returns the node with its
  caches reset and leaves the rest of the reader untouched, provided every length fits the
  \<open>int32\<close> it is written as and no key, value or stub is empty.
\<close>

theorem node_roundtrip:
  "serial_ok n \<Longrightarrow> DeserializeNode (Serialize n @ r) = Inr (fresh n, r) \<and> length (Serialize n) = ByteSize n"
  by (simp add: DeserializeNode_Serialize length_Serialize)

theorem node_roundtrip_witness:
  "DeserializeNode (Serialize (fm_root ex_two) @ [0xff]) = Inr (fresh (fm_root ex_two), [0xff])"
  using node_roundtrip [of "fm_root ex_two" "[0xff]"] by (simp add: ex_two_def int32_len_def)

text \<open>
  C17. No input makes the node parser panic or run out of the fuel the model gives it: every byte
  string is parsed or rejected with an error, and a parsed node consumed at least one byte.
\<close>

theorem DeserializeNode_total:
  "panic_free (DeserializeNode r) \<and> (\<forall>n r'. DeserializeNode r = Inr (n, r') \<longrightarrow> length r' < length r)"
proof
  show "panic_free (DeserializeNode r)"
    unfolding DeserializeNode_def by (rule panic_free_node) simp
  show "\<forall>n r'. DeserializeNode r = Inr (n, r') \<longrightarrow> length r' < length r"
    unfolding DeserializeNode_def by (intro allI impI) (rule DeserializeNode_consumes)
qed

theorem DeserializeNode_total_witness:
  "DeserializeNode [0x02, 0x07] = Inr (EmptyLeafNode, [0x07]) \<and> length [0x07 :: byte] < length [0x02 :: byte, 0x07]"
  using DeserializeNode_total [of "[0x02, 0x07]"] by (simp add: DeserializeNode_def bufRead_def)

text \<open>
  C18. A trie that is written out and read back holds the same map, satisfies the invariant again and
  has the same commitment.
\<close>

theorem FullMPT_roundtrip:
  assumes "trie_inv L fm" and "serial_ok (fm_root fm)"
  shows "\<exists>fm' c c'. DeserializeNewFullMPT (FullMPT_Bytes fm @ r) = Inr (fm', r) \<and> trie_inv L fm' \<and> trie_map fm' = trie_map fm
    \<and> Commitment fm = Inr (thash (fm_root fm), c) \<and> Commitment fm' = Inr (thash (fm_root fm), c')"
proof -
  obtain fm' where f: "DeserializeNewFullMPT (FullMPT_Bytes fm @ r) = Inr (fm', r)" "trie_inv L fm'"
      "skel (fm_root fm') = skel (fm_root fm)" "trie_map fm' = trie_map fm"
    using DeserializeNewFullMPT_Bytes [OF assms] by blast
  then show ?thesis
    using Commitment_ok [OF assms(1)] Commitment_ok [OF f(2)] skel_same(2) [OF f(3)] by auto
qed

theorem FullMPT_roundtrip_witness:
  "\<exists>fm'. DeserializeNewFullMPT (FullMPT_Bytes ex_two @ []) = Inr (fm', []) \<and> trie_map fm' = trie_map ex_two"
proof -
  have "serial_ok (fm_root ex_two)" by (simp add: ex_two_def int32_len_def)
  from FullMPT_roundtrip [OF trie_inv_ex(1) this, of "[]"] show ?thesis by blast
qed

text \<open>
  Copying a trie that was read from bytes, before its commitment is computed, copies the unset
  hashes as if they were valid: the copy's commitment is the all-zero hash, whatever the trie holds.
\<close>

lemma copy_before_commitment:
  assumes "DeserializeNewFullMPT r = Inr (fm, r')"
  shows "\<exists>c. FullMPT_Copy fm = Inr c \<and> Commitment c = Inr (zeros 32, c)"
proof -
  obtain n q where d: "DeserializeNode r = Inr (n, q)"
    using assms by (cases "DeserializeNode r") (auto simp: DeserializeNewFullMPT_def)
  then have n: "DeserializeNode r = Inr (n, r')" "IsInterior n" "fm = \<lparr>fm_root = n\<rparr>"
    using assms by (cases n; simp add: DeserializeNewFullMPT_def newFullMPTWithRoot_def)+
  then obtain l r where "n = InteriorNode (zeros 32) True True l r"
    using DeserializeNode_interior [of r n r'] by auto
  moreover from this obtain m where m: "DeepCopy n = Inr m" "skel m = skel n" using DeepCopy_skel [of n] by auto
  ultimately have "\<exists>l' r'. m = InteriorNode (zeros 32) False True l' r'"
    by (auto simp: bind_go_eq_Inr)
  then show ?thesis
    using m(1) by (auto simp: n(3) FullMPT_Copy_def newFullMPTWithRoot_def Commitment_def)
qed

end
