(* ===== verification/Partial_MPT.thy ===== *)
theory Partial_MPT
  imports Mpt_Serial
begin

text \<open>
  Partial tries (\<open>mpt/partialmpt.go\<close>): the proofs a server hands out. \<open>copyMultiplePaths\<close>
  copies the paths to some keys and replaces everything else by stubs; the model returns the copy
  and the source, whose caches the copying fills. \<open>prunes p n\<close> says that \<open>p\<close> is \<open>n\<close> with
  subtrees replaced by stubs of their hashes. The lemmas show completeness (a proof built for some
  keys answers them like the full trie and has its commitment) and what a verified proof binds:
  \<open>forgery\<close> computes from a deviating proof what its author must have found.
\<close>

section \<open>Definitions\<close>

record PartialMPT =
  pm_root :: node

definition NewPartialMPT :: "FullMPT \<Rightarrow> (PartialMPT \<times> FullMPT) go" where
  "NewPartialMPT fm =
     (case fm_root fm of
        InteriorNode hash recalculateHash changed leftChild rightChild \<Rightarrow>
          bind_go (GetHash leftChild) (\<lambda>(lh, leftChild).
          bind_go (GetHash rightChild) (\<lambda>(rh, rightChild).
            Inr (\<lparr>pm_root = NewInteriorNode (NewStub lh) (NewStub rh)\<rparr>,
                 fm\<lparr>fm_root := InteriorNode hash recalculateHash changed leftChild rightChild\<rparr>)))
      | _ \<Rightarrow> nil_deref)"

text \<open>The loop that divides the keys by the next bit, in order.\<close>

primrec divide_keys :: "bytes list \<Rightarrow> int \<Rightarrow> (bytes list \<times> bytes list) go" where
  "divide_keys [] currentBitIndex = Inr ([], [])"
| "divide_keys (key # keys) currentBitIndex =
     bind_go (GetBit key (nat (currentBitIndex + 1))) (\<lambda>bit.
     bind_go (divide_keys keys currentBitIndex) (\<lambda>(matchLeft, matchRight).
       if bit then Inr (matchLeft, key # matchRight) else Inr (key # matchLeft, matchRight)))"

fun with_children :: "node \<Rightarrow> node \<Rightarrow> node \<Rightarrow> node" where
  "with_children (InteriorNode h rc ch _ _) l r = InteriorNode h rc ch l r"
| "with_children n l r = n"

definition value_bytes :: "node \<Rightarrow> bytes" where
  "value_bytes n = (case GetValue n of None \<Rightarrow> [] | Some v \<Rightarrow> v)"

function copyMultiplePaths :: "bytes list \<Rightarrow> node \<Rightarrow> int \<Rightarrow> (node \<times> node) go" where
  "copyMultiplePaths matchingKeys copyNode currentBitIndex =
     (if copyNode = NilNode then nil_deref
      else if matchingKeys = [] then
        if IsEmpty copyNode then Inr (EmptyLeafNode, copyNode)
        else bind_go (GetHash copyNode) (\<lambda>(h, copyNode). Inr (NewStub h, copyNode))
      else if IsLeaf copyNode then
        if IsEmpty copyNode then Inr (EmptyLeafNode, copyNode)
        else bind_go (GetHash copyNode) (\<lambda>(h, copyNode).
          Inr (NewDictionaryLeafNodeCachedHash (GetKey copyNode) (value_bytes copyNode) h, copyNode))
      else bind_go (divide_keys matchingKeys currentBitIndex) (\<lambda>(matchLeft, matchRight).
        bind_go (copyMultiplePaths matchLeft (GetLeftChild copyNode) (currentBitIndex + 1)) (\<lambda>(leftChild, l).
        bind_go (copyMultiplePaths matchRight (GetRightChild copyNode) (currentBitIndex + 1)) (\<lambda>(rightChild, r).
        bind_go (GetHash (with_children copyNode l r)) (\<lambda>(h, copyNode).
          Inr (NewInteriorNodeWithCachedHash leftChild rightChild h, copyNode))))))"
  by pat_completeness auto
termination
  by (relation "measure (\<lambda>(ks, n, i). node_size n)") (simp_all add: node_size_children)

text \<open>The type assertion on the copied root.\<close>

definition as_PartialMPT :: "node \<Rightarrow> PartialMPT go" where
  "as_PartialMPT root =
     (case root of InteriorNode _ _ _ _ _ \<Rightarrow> Inr \<lparr>pm_root = root\<rparr>
      | _ \<Rightarrow> Inl (GoPanic ''interface conversion''))"

definition NewPartialMPTIncludingKey :: "FullMPT \<Rightarrow> bytes \<Rightarrow> (PartialMPT \<times> FullMPT) go" where
  "NewPartialMPTIncludingKey fm key =
     bind_go (copyMultiplePaths [key] (fm_root fm) (-1)) (\<lambda>(root, n).
     bind_go (as_PartialMPT root) (\<lambda>pm. Inr (pm, fm\<lparr>fm_root := n\<rparr>)))"

definition NewPartialMPTIncludingKeys :: "FullMPT \<Rightarrow> bytes list \<Rightarrow> (PartialMPT \<times> FullMPT) go" where
  "NewPartialMPTIncludingKeys fm keys =
     (if keys = [] then Inl (GoError ''Can't create a partial MPT from 0 keys'')
      else bind_go (copyMultiplePaths keys (fm_root fm) (-1)) (\<lambda>(root, n).
           bind_go (as_PartialMPT root) (\<lambda>pm. Inr (pm, fm\<lparr>fm_root := n\<rparr>))))"

function partialGetHelper :: "node \<Rightarrow> bytes \<Rightarrow> int \<Rightarrow> bytes option go" where
  "partialGetHelper currentNode key currentBitIndex =
     (if currentNode = NilNode then nil_deref
      else if IsStub currentNode then Inl (GoError ''Stub encountered'')
      else if IsLeaf currentNode then
        if \<not> IsEmpty currentNode \<and> GetKey currentNode = key then Inr (GetValue currentNode)
        else Inr None
      else bind_go (GetBit key (nat (currentBitIndex + 1))) (\<lambda>bit.
        if bit then partialGetHelper (GetRightChild currentNode) key (currentBitIndex + 1)
        else partialGetHelper (GetLeftChild currentNode) key (currentBitIndex + 1)))"
  by pat_completeness auto
termination
  by (relation "measure (\<lambda>(n, k, i). node_size n)") (simp_all add: node_size_children)

definition PartialMPT_Get :: "PartialMPT \<Rightarrow> bytes \<Rightarrow> bytes option go" where
  "PartialMPT_Get pm key = partialGetHelper (pm_root pm) key (-1)"

definition PartialMPT_Commitment :: "PartialMPT \<Rightarrow> (bytes \<times> PartialMPT) go" where
  "PartialMPT_Commitment pm = bind_go (GetHash (pm_root pm)) (\<lambda>(h, root). Inr (h, pm\<lparr>pm_root := root\<rparr>))"

definition PartialMPT_Dispose :: "PartialMPT \<Rightarrow> PartialMPT go" where
  "PartialMPT_Dispose pm = bind_go (Dispose (pm_root pm)) (\<lambda>root. Inr (pm\<lparr>pm_root := root\<rparr>))"

definition PartialMPT_ByteSize :: "PartialMPT \<Rightarrow> nat" where
  "PartialMPT_ByteSize pm = ByteSize (pm_root pm)"

definition PartialMPT_Bytes :: "PartialMPT \<Rightarrow> bytes" where
  "PartialMPT_Bytes pm = Serialize (pm_root pm)"

definition DeserializeNewPartialMPT :: "bytes \<Rightarrow> (PartialMPT \<times> bytes) go" where
  "DeserializeNewPartialMPT r = bind_go (DeserializeNode r) (\<lambda>(possibleRoot, r).
     case possibleRoot of
       InteriorNode _ _ _ _ _ \<Rightarrow> Inr (\<lparr>pm_root = possibleRoot\<rparr>, r)
     | _ \<Rightarrow> Inl (GoError ''The passed byte array is no valid tree''))"

lemma as_PartialMPT_Inr: "as_PartialMPT n = Inr pm \<longleftrightarrow> IsInterior n \<and> pm = \<lparr>pm_root = n\<rparr>"
  by (cases n) (auto simp: as_PartialMPT_def)

declare copyMultiplePaths.simps [simp del] partialGetHelper.simps [simp del]

section \<open>Pruned copies\<close>

fun prunes :: "node \<Rightarrow> node \<Rightarrow> bool" where
  "prunes (Stub h) n \<longleftrightarrow> h = thash n"
| "prunes EmptyLeafNode n \<longleftrightarrow> n = EmptyLeafNode"
| "prunes (DictionaryLeafNode key value _ _ _) n \<longleftrightarrow>
     (\<exists>h ch rc. n = DictionaryLeafNode key value h ch rc)"
| "prunes (InteriorNode _ _ _ l r) n \<longleftrightarrow>
     (\<exists>h rc ch l' r'. n = InteriorNode h rc ch l' r' \<and> prunes l l' \<and> prunes r r')"
| "prunes NilNode n \<longleftrightarrow> False"

lemma prunes_thash: "prunes p n \<Longrightarrow> thash p = thash n"
  by (induction p arbitrary: n) auto

lemma divide_keys_ok:
  assumes "length path < 8 * L"
  shows "\<forall>k \<in> set keys. on_path L path k \<Longrightarrow>
    divide_keys keys (int (length path) - 1)
      = Inr (filter (\<lambda>k. \<not> key_bits k ! length path) keys, filter (\<lambda>k. key_bits k ! length path) keys)"
  using GetBit_on_path [OF _ assms] by (induction keys) simp_all

text \<open>
  What a copy of a correct subtree is: pruned, with the right cached hashes, and it answers the keys
  it was made for. The source keeps its contents and invariants.
\<close>

definition copied :: "nat \<Rightarrow> bool list \<Rightarrow> bytes list \<Rightarrow> node \<Rightarrow> node \<Rightarrow> node \<Rightarrow> bool" where
  "copied L path keys n p n' \<longleftrightarrow>
     prunes p n \<and> hash_ok p \<and> all_cached p \<and> p \<noteq> NilNode \<and> (keys \<noteq> [] \<longrightarrow> IsInterior n \<longrightarrow> IsInterior p)
     \<and> (\<forall>k \<in> set keys. partialGetHelper p k (int (length path) - 1) = Inr (entries n k))
     \<and> skel n' = skel n \<and> hash_ok n' \<and> n' \<noteq> NilNode \<and> Changed n' = Changed n \<and> marks_ok n' = marks_ok n
     \<and> (all_cached n \<longrightarrow> all_cached n')"

lemma copied_thash:
  assumes "copied L path keys n p n'"
  shows "thash p = thash n" and "thash n' = thash n"
proof -
  have p: "prunes p n" and s: "skel n' = skel n" using assms by (simp_all only: copied_def)
  show "thash p = thash n" and "thash n' = thash n"
    by (rule prunes_thash [OF p], rule skel_same(2) [OF s])
qed

lemma copied_stub:
  assumes "hash_ok n" and "wf_trie L path n" and "\<not> IsEmpty n"
  shows "copied L path [] n (Stub (thash n)) (cached n)"
  using assms by (cases n) (auto simp: copied_def)

lemma copied_leaf:
  assumes "hash_ok n" and "wf_trie L path n" and "IsLeaf n"
  shows "\<exists>p n'. copyMultiplePaths keys n i = Inr (p, n') \<and> copied L path keys n p n'"
proof (cases n)
  case (DictionaryLeafNode key val h ch rc)
  then have f: "n \<noteq> NilNode" "\<not> IsEmpty n" "GetKey (cached n) = key" "value_bytes (cached n) = val"
      "thash n = Sum256 (key @ val)"
    by (simp_all add: value_bytes_def)
  note g = GetHash_ok [OF assms(1) f(1)]
  show ?thesis
  proof (cases "keys = []")
    case True
    have "copyMultiplePaths keys n i = Inr (Stub (thash n), cached n)"
      using f g True by (subst copyMultiplePaths.simps) simp
    then show ?thesis
      using copied_stub [OF assms(1,2) f(2)] True by blast
  next
    case False
    have "copyMultiplePaths keys n i = Inr (Leaf key val (Sum256 (key @ val)) True False, cached n)"
      using f g False assms(3) by (subst copyMultiplePaths.simps) simp
    moreover have "copied L path keys n (Leaf key val (Sum256 (key @ val)) True False) (cached n)"
      using DictionaryLeafNode assms(1) by (auto simp: copied_def partialGetHelper.simps)
    ultimately show ?thesis by (intro exI conjI)
  qed
next
  case EmptyLeafNode
  have "copyMultiplePaths keys n i = Inr (EmptyLeafNode, n)"
    using EmptyLeafNode by (subst copyMultiplePaths.simps) simp
  moreover have "copied L path keys n EmptyLeafNode n"
    by (simp add: EmptyLeafNode copied_def partialGetHelper.simps [of EmptyLeafNode])
  ultimately show ?thesis by (intro exI conjI)
qed (use assms in auto)

lemma copied_interior:
  assumes n: "hash_ok n" "wf_trie L path n" "n = InteriorNode h rc ch l r"
    and len: "length path < 8 * L" and keys: "keys \<noteq> []" "\<forall>k \<in> set keys. on_path L path k"
    and l: "copied L (path @ [False]) (filter (\<lambda>k. \<not> key_bits k ! length path) keys) l pl l'"
    and r: "copied L (path @ [True]) (filter (\<lambda>k. key_bits k ! length path) keys) r pr r'"
  shows "copied L path keys n (InteriorNode (thash n) False True pl pr) (cached (InteriorNode h rc ch l' r'))"
proof -
  let ?p = "InteriorNode (thash n) False True pl pr" and ?n' = "InteriorNode h rc ch l' r'"
  have same: "thash l' = thash l" "thash r' = thash r" "thash pl = thash l" "thash pr = thash r"
    using copied_thash [OF l] copied_thash [OF r] by simp_all
  have ok: "hash_ok ?n'" using n(1) l r same by (auto simp: n(3) copied_def)
  have get: "partialGetHelper ?p k (int (length path) - 1) = Inr (entries n k)" if k: "k \<in> set keys" for k
  proof -
    have p: "on_path L path k" using k keys by simp
    have "partialGetHelper ?p k (int (length path) - 1)
        = partialGetHelper (if key_bits k ! length path then pr else pl) k (int (length path))"
      using GetBit_on_path [OF p len] by (subst partialGetHelper.simps) simp
    also have "\<dots> = Inr (entries (if key_bits k ! length path then r else l) k)"
      using l r k by (simp add: copied_def)
    also have "\<dots> = Inr (entries n k)"
      using entries_side [OF n(2) [unfolded n(3)] p] by (simp add: n(3) del: entries.simps)
    finally show ?thesis .
  qed
  have "prunes ?p n" "hash_ok ?p" "all_cached ?p"
    using l r same by (simp_all add: n(3) copied_def)
  moreover have "skel (cached ?n') = skel n" "Changed (cached ?n') = Changed n" "marks_ok (cached ?n') = marks_ok n"
    using l r by (simp_all add: n(3) copied_def)
  ultimately show ?thesis
    unfolding copied_def using get ok by auto
qed

lemma copyMultiplePaths_ok:
  "hash_ok n \<Longrightarrow> wf_trie L path n \<Longrightarrow> \<forall>k \<in> set keys. on_path L path k \<Longrightarrow>
     \<exists>p n'. copyMultiplePaths keys n (int (length path) - 1) = Inr (p, n') \<and> copied L path keys n p n'"
proof (induction n arbitrary: path keys)
  case (InteriorNode h rc ch l r)
  let ?n = "InteriorNode h rc ch l r"
  have len: "length path < 8 * L" and wf: "wf_trie L (path @ [False]) l" "wf_trie L (path @ [True]) r"
    using InteriorNode.prems(2) by simp_all
  show ?case
  proof (cases "keys = []")
    case True
    have "copyMultiplePaths keys ?n (int (length path) - 1) = Inr (Stub (thash ?n), cached ?n)"
      using True GetHash_ok [OF InteriorNode.prems(1)]
      by (subst copyMultiplePaths.simps) (simp del: thash.simps cached.simps GetHash.simps)
    then show ?thesis
      using copied_stub [OF InteriorNode.prems(1,2)] True by (auto simp del: thash.simps cached.simps)
  next
    case False
    let ?kl = "filter (\<lambda>k. \<not> key_bits k ! length path) keys" and ?kr = "filter (\<lambda>k. key_bits k ! length path) keys"
    have "\<forall>k \<in> set ?kl. on_path L (path @ [False]) k" "\<forall>k \<in> set ?kr. on_path L (path @ [True]) k"
      using InteriorNode.prems(3) on_path_step [OF _ len] by auto
    with InteriorNode.IH(1) [OF _ wf(1)] InteriorNode.IH(2) [OF _ wf(2)] InteriorNode.prems(1)
    obtain pl l' pr r' where c: "copyMultiplePaths ?kl l (int (length path)) = Inr (pl, l')"
        "copied L (path @ [False]) ?kl l pl l'" "copyMultiplePaths ?kr r (int (length path)) = Inr (pr, r')"
        "copied L (path @ [True]) ?kr r pr r'"
      unfolding path_index hash_ok.simps by metis
    let ?n' = "InteriorNode h rc ch l' r'"
    have same: "thash l' = thash l" "thash r' = thash r"
      using copied_thash [OF c(2)] copied_thash [OF c(4)] by simp_all
    have "hash_ok ?n'" using InteriorNode.prems(1) c same by (auto simp: copied_def)
    then have g: "GetHash ?n' = Inr (thash ?n, cached ?n')" using GetHash_ok [of ?n'] same by simp
    have "copyMultiplePaths keys ?n (int (length path) - 1)
        = Inr (InteriorNode (thash ?n) False True pl pr, cached ?n')"
      using False divide_keys_ok [OF len InteriorNode.prems(3)] c(1,3) g
      by (subst copyMultiplePaths.simps) (simp del: cached.simps GetHash.simps)
    then show ?thesis
      using copied_interior [OF InteriorNode.prems(1,2) refl len False InteriorNode.prems(3) c(2,4)] by blast
  qed
next
  case (DictionaryLeafNode key val h ch rc)
  show ?case using copied_leaf [OF DictionaryLeafNode(1,2)] by (simp only: IsLeaf.simps simp_thms)
next
  case EmptyLeafNode
  show ?case using copied_leaf [OF EmptyLeafNode(1,2)] by (simp only: IsLeaf.simps simp_thms)
qed simp_all

section \<open>Completeness of proofs\<close>

lemma NewPartialMPTIncludingKeys_ok:
  assumes fm: "trie_inv L fm" and keys: "keys \<noteq> []" "\<forall>k \<in> set keys. length k = L"
  shows "\<exists>pm fm'. NewPartialMPTIncludingKeys fm keys = Inr (pm, fm')
    \<and> PartialMPT_Commitment pm = Inr (thash (fm_root fm), pm) \<and> prunes (pm_root pm) (fm_root fm) \<and> hash_ok (pm_root pm)
    \<and> (\<forall>k \<in> set keys. PartialMPT_Get pm k = Inr (trie_map fm k))
    \<and> trie_inv L fm' \<and> skel (fm_root fm') = skel (fm_root fm)"
proof -
  obtain p n where c: "copyMultiplePaths keys (fm_root fm) (-1) = Inr (p, n)" "copied L [] keys (fm_root fm) p n"
    using copyMultiplePaths_ok [of "fm_root fm" L "[]" keys] fm keys by (auto simp: trie_inv_def)
  have i: "IsInterior p" using c(2) fm keys(1) by (simp add: copied_def trie_inv_def)
  then obtain h rc ch l r where p: "p = InteriorNode h rc ch l r" by (cases p) auto
  have "GetHash p = Inr (thash (fm_root fm), p)"
    using c(2) prunes_thash [of p "fm_root fm"] by (simp add: copied_def p)
  moreover have "as_PartialMPT p = Inr \<lparr>pm_root = p\<rparr>" by (simp add: as_PartialMPT_def p)
  moreover have "trie_inv L (fm\<lparr>fm_root := n\<rparr>)"
    using c(2) fm skel_same_trie [of n "fm_root fm"] by (simp add: copied_def trie_inv_def)
  moreover have "prunes p (fm_root fm)" "hash_ok p" "\<forall>k \<in> set keys. partialGetHelper p k (-1) = Inr (trie_map fm k)"
      "skel n = skel (fm_root fm)"
    using c(2) by (simp_all add: copied_def)
  ultimately show ?thesis
    using c(1) keys(1) by (simp add: NewPartialMPTIncludingKeys_def PartialMPT_Commitment_def PartialMPT_Get_def)
qed

text \<open>The proof survives transport.\<close>

lemma partialGetHelper_skel:
  "skel p = skel q \<Longrightarrow> partialGetHelper p k i = partialGetHelper q k i"
proof (induction p arbitrary: q i)
  case (InteriorNode h rc ch l r)
  then obtain h' rc' ch' l' r' where q: "q = InteriorNode h' rc' ch' l' r'" "skel l = skel l'" "skel r = skel r'"
    by (cases q) auto
  then have "partialGetHelper l k (i + 1) = partialGetHelper l' k (i + 1)"
      "partialGetHelper r k (i + 1) = partialGetHelper r' k (i + 1)"
    using InteriorNode.IH by simp_all
  then show ?case
    by (cases "GetBit k (nat (i + 1))") (simp_all add: q(1) partialGetHelper.simps [of "InteriorNode _ _ _ _ _"])
qed (case_tac q; auto simp: partialGetHelper.simps)+

lemma DeserializeNewPartialMPT_Bytes:
  assumes "IsInterior (pm_root pm)" and "serial_ok (pm_root pm)"
  shows "\<exists>pm'. DeserializeNewPartialMPT (PartialMPT_Bytes pm @ r) = Inr (pm', r)
    \<and> (\<forall>k. PartialMPT_Get pm' k = PartialMPT_Get pm k)
    \<and> (\<exists>pm''. PartialMPT_Commitment pm' = Inr (thash (pm_root pm), pm''))"
proof -
  let ?n = "fresh (pm_root pm)"
  have s: "skel ?n = skel (pm_root pm)" by simp
  obtain h rc ch a b where n: "?n = InteriorNode h rc ch a b"
    using assms(1) by (cases "pm_root pm") auto
  have "DeserializeNewPartialMPT (PartialMPT_Bytes pm @ r) = Inr (\<lparr>pm_root = ?n\<rparr>, r)"
    by (simp add: DeserializeNewPartialMPT_def PartialMPT_Bytes_def DeserializeNode_Serialize [OF assms(2)] n)
  moreover have "?n \<noteq> NilNode" by (simp add: n)
  from GetHash_ok [OF fresh_ok(1) this] have "GetHash ?n = Inr (thash (pm_root pm), cached ?n)"
    by (simp only: skel_same(2) [OF s])
  ultimately show ?thesis
    using partialGetHelper_skel [OF s] by (simp add: PartialMPT_Get_def PartialMPT_Commitment_def)
qed

section \<open>What a verified inclusion proof binds\<close>

text \<open>
  A proof whose commitment is that of a full trie and that shows a value for a key the trie does not
  hold exhibits one of three things: two different strings with the same hash, a string that hashes
  to the all-zero hash of the empty leaf, or a leaf and an interior node with the same hash input
  (key and value on one side, the two child hashes on the other: the hash of a node does not say
  which kind of node it is).
\<close>

datatype evidence =
    Collision bytes bytes
  | ZeroPreimage bytes
  | Confusion bytes bytes bytes bytes

fun evidence_ok :: "evidence \<Rightarrow> bool" where
  "evidence_ok (Collision x y) \<longleftrightarrow> x \<noteq> y \<and> Sum256 x = Sum256 y"
| "evidence_ok (ZeroPreimage x) \<longleftrightarrow> Sum256 x = zeros 32"
| "evidence_ok (Confusion key value lh rh) \<longleftrightarrow> key @ value = lh @ rh"

definition compare_inputs :: "bytes \<Rightarrow> bytes \<Rightarrow> evidence option \<Rightarrow> evidence option" where
  "compare_inputs x y e = (if x \<noteq> y then Some (Collision x y) else e)"

fun forgery :: "bytes \<Rightarrow> nat \<Rightarrow> node \<Rightarrow> node \<Rightarrow> evidence option" where
  "forgery k d (InteriorNode _ _ _ pl pr) (InteriorNode _ _ _ l r) =
     compare_inputs (thash pl @ thash pr) (thash l @ thash r)
       (if key_bits k ! d then forgery k (Suc d) pr r else forgery k (Suc d) pl l)"
| "forgery k d (InteriorNode _ _ _ pl pr) (DictionaryLeafNode key value _ _ _) =
     compare_inputs (thash pl @ thash pr) (key @ value) (Some (Confusion key value (thash pl) (thash pr)))"
| "forgery k d (InteriorNode _ _ _ pl pr) EmptyLeafNode = Some (ZeroPreimage (thash pl @ thash pr))"
| "forgery k d (DictionaryLeafNode pk pv _ _ _) (DictionaryLeafNode key value _ _ _) =
     compare_inputs (pk @ pv) (key @ value) None"
| "forgery k d (DictionaryLeafNode pk pv _ _ _) (InteriorNode _ _ _ l r) =
     compare_inputs (pk @ pv) (thash l @ thash r) (Some (Confusion pk pv (thash l) (thash r)))"
| "forgery k d (DictionaryLeafNode pk pv _ _ _) EmptyLeafNode = Some (ZeroPreimage (pk @ pv))"
| "forgery k d p n = None"

definition forged :: "bytes \<Rightarrow> nat \<Rightarrow> node \<Rightarrow> node \<Rightarrow> bool" where
  "forged k d p n \<longleftrightarrow> (case forgery k d p n of None \<Rightarrow> False | Some e \<Rightarrow> evidence_ok e)"

lemma forged_compare:
  assumes "Sum256 x = Sum256 y" and "x = y \<Longrightarrow> (case e of None \<Rightarrow> False | Some e \<Rightarrow> evidence_ok e)"
  shows "case compare_inputs x y e of None \<Rightarrow> False | Some e \<Rightarrow> evidence_ok e"
  using assms by (cases "x = y") (simp_all add: compare_inputs_def)

lemma partialGet_shown:
  assumes "partialGetHelper p k i = Inr x"
  shows "length (thash p) = 32"
  using assms by (cases p) (simp_all add: partialGetHelper.simps)

lemma inclusion_binding:
  "wf_trie L path n \<Longrightarrow> on_path L path k \<Longrightarrow> thash p = thash n \<Longrightarrow>
     partialGetHelper p k (int (length path) - 1) = Inr (Some v) \<Longrightarrow>
     entries n k = Some v \<or> forged k (length path) p n"
proof (induction p arbitrary: n path)
  case (InteriorNode h rc ch pl pr)
  let ?p = "InteriorNode h rc ch pl pr"
  show ?case
  proof (cases n)
    case n: (InteriorNode h' rc' ch' l r)
    let ?b = "key_bits k ! length path"
    have len: "length path < 8 * L" and wf: "wf_trie L (path @ [False]) l" "wf_trie L (path @ [True]) r"
      using InteriorNode.prems(1) by (simp_all add: n)
    have step: "on_path L (path @ [?b]) k" using on_path_step [OF InteriorNode.prems(2) len] by blast
    have h: "Sum256 (thash pl @ thash pr) = Sum256 (thash l @ thash r)"
      using InteriorNode.prems(3) n by simp
    have get: "partialGetHelper (if ?b then pr else pl) k (int (length path)) = Inr (Some v)"
      using InteriorNode.prems(4) GetBit_on_path [OF InteriorNode.prems(2) len]
      by (simp add: partialGetHelper.simps [of ?p] split: if_splits)
    have lens: "length (thash l) = 32" "length (thash r) = 32"
      using wf by (auto intro: length_thash wf_trie_complete)
    have sub: "entries (if ?b then r else l) k = Some v
        \<or> forged k (Suc (length path)) (if ?b then pr else pl) (if ?b then r else l)"
      if eq: "thash pl @ thash pr = thash l @ thash r"
    proof (cases ?b)
      case True
      with get have "length (thash pr) = 32" by (auto intro: partialGet_shown)
      with eq lens have "thash pr = thash r" by simp
      with InteriorNode.IH(2) [OF wf(2)] True step get show ?thesis by simp
    next
      case False
      with get have "length (thash pl) = 32" by (auto intro: partialGet_shown)
      with eq lens have "thash pl = thash l" by simp
      with InteriorNode.IH(1) [OF wf(1)] False step get show ?thesis by simp
    qed
    show ?thesis
      using sub entries_side [OF InteriorNode.prems(1) [unfolded n] InteriorNode.prems(2)] h
      by (cases "thash pl @ thash pr = thash l @ thash r")
        (auto simp: n forged_def compare_inputs_def simp del: entries.simps split: if_splits)
  qed (use InteriorNode.prems in \<open>auto simp: forged_def compare_inputs_def\<close>)
next
  case (DictionaryLeafNode pk pv h ch rc)
  then have k: "pk = k" "pv = v" by (auto simp: partialGetHelper.simps split: if_splits)
  show ?case
  proof (cases n)
    case n: (DictionaryLeafNode key val h' ch' rc')
    then show ?thesis
      using DictionaryLeafNode.prems k
      by (cases "k @ v = key @ val") (auto simp: forged_def compare_inputs_def on_path_def)
  qed (use DictionaryLeafNode.prems in \<open>auto simp: forged_def compare_inputs_def\<close>)
qed (simp_all add: partialGetHelper.simps)

section \<open>Absence proofs are not binding\<close>

text \<open>
  An interior node can be presented as a leaf whose key and value are its two child hashes. The
  result has the same commitment and shows keys of the hidden subtree as absent.
\<close>

definition hide_left :: "node \<Rightarrow> node" where
  "hide_left root =
     NewInteriorNode
       (NewDictionaryLeafNode (thash (GetLeftChild (GetLeftChild root))) (thash (GetRightChild (GetLeftChild root))))
       (NewStub (thash (GetRightChild root)))"

lemma hide_left_ok:
  assumes fm: "trie_inv 32 fm" and l: "IsInterior (GetLeftChild (fm_root fm))"
  shows "thash (hide_left (fm_root fm)) = thash (fm_root fm)" and "serial_ok (hide_left (fm_root fm))"
    and "\<exists>k v. length k = 32 \<and> trie_map fm k = Some v \<and> partialGetHelper (hide_left (fm_root fm)) k (-1) = Inr None"
proof -
  obtain h rc ch h' rc' ch' a b r where n: "fm_root fm = InteriorNode h rc ch (InteriorNode h' rc' ch' a b) r"
    using fm l by (cases "fm_root fm"; cases "GetLeftChild (fm_root fm)") (auto simp: trie_inv_def)
  let ?l = "InteriorNode h' rc' ch' a b"
  have wf: "wf_trie 32 [] (fm_root fm)" "wf_trie 32 [False] ?l"
    using fm by (simp_all add: n trie_inv_def)
  have "complete a" "complete b" "complete r"
    using wf_trie_complete [OF wf(1)] by (simp_all add: n)
  then have len: "length (thash a) = 32" "length (thash b) = 32" "length (thash r) = 32"
    by (simp_all add: length_thash)
  show "thash (hide_left (fm_root fm)) = thash (fm_root fm)" by (simp add: n hide_left_def)
  show "serial_ok (hide_left (fm_root fm))" by (simp add: n hide_left_def len int32_len_def)
  obtain k where k: "k \<in> dom (entries ?l)" "k \<noteq> thash a"
    using entries_two [OF wf(2)] by (auto simp del: entries.simps)
  have p: "on_path 32 [False] k" using entries_on_path [OF wf(2) k(1)] .
  then have "on_path 32 [] k" "\<not> key_bits k ! 0"
    using on_path_prefix [of 32 "[]" "[False]" k] by (auto simp: on_path_def take_Suc_conv_app_nth)
  moreover from this have "trie_map fm k = entries ?l k"
    using entries_side [of 32 "[]" h rc ch ?l r k] wf(1) by (simp add: n del: entries.simps)
  moreover have "partialGetHelper (hide_left (fm_root fm)) k (-1) = Inr None"
    using k(2) calculation GetBit_on_path [of 32 "[]" k] by (simp add: n hide_left_def partialGetHelper.simps)
  ultimately show "\<exists>k v. length k = 32 \<and> trie_map fm k = Some v \<and> partialGetHelper (hide_left (fm_root fm)) k (-1) = Inr None"
    using k(1) by (auto simp del: entries.simps)
qed

section \<open>Properties\<close>

lemma DeserializeNewPartialMPT_Inr:
  assumes "DeserializeNewPartialMPT b = Inr (pm, r)"
  shows "IsInterior (pm_root pm) \<and> fresh (pm_root pm) = pm_root pm"
proof -
  obtain n q where d: "DeserializeNode b = Inr (n, q)"
    using assms by (cases "DeserializeNode b") (auto simp: DeserializeNewPartialMPT_def)
  then show ?thesis
    using assms DeserializeNode_fresh [OF d] by (cases n) (auto simp: DeserializeNewPartialMPT_def)
qed

lemma PartialMPT_Commitment_fresh:
  assumes "IsInterior (pm_root pm) \<and> fresh (pm_root pm) = pm_root pm"
  shows "\<exists>pm'. PartialMPT_Commitment pm = Inr (thash (pm_root pm), pm')"
proof -
  have "hash_ok (pm_root pm)" "pm_root pm \<noteq> NilNode" using assms fresh_ok(1) [of "pm_root pm"] by auto
  from GetHash_ok [OF this] show ?thesis by (simp add: PartialMPT_Commitment_def)
qed

text \<open>
  C4. Proofs are complete: the partial trie built for some keys has the commitment of the full trie,
  answers each of the keys exactly as the full trie does (present with its value, or absent), and
  building it leaves the full trie's map and invariants unchanged. When it can be serialized, the
  client that reads it back sees the same answers and the same commitment.
\<close>

theorem proofs_complete:
  assumes "trie_inv L fm" and "keys \<noteq> []" and "\<forall>k \<in> set keys. length k = L"
  shows "\<exists>pm fm'. NewPartialMPTIncludingKeys fm keys = Inr (pm, fm') \<and> trie_inv L fm' \<and> trie_map fm' = trie_map fm
    \<and> PartialMPT_Commitment pm = Inr (thash (fm_root fm), pm)
    \<and> (\<forall>k \<in> set keys. PartialMPT_Get pm k = Inr (trie_map fm k))
    \<and> (serial_ok (pm_root pm) \<longrightarrow> (\<exists>pm' pm''. DeserializeNewPartialMPT (PartialMPT_Bytes pm @ r) = Inr (pm', r)
        \<and> PartialMPT_Commitment pm' = Inr (thash (fm_root fm), pm'')
        \<and> (\<forall>k \<in> set keys. PartialMPT_Get pm' k = Inr (trie_map fm k))))"
proof -
  obtain pm fm' where p: "NewPartialMPTIncludingKeys fm keys = Inr (pm, fm')" "trie_inv L fm'"
      "PartialMPT_Commitment pm = Inr (thash (fm_root fm), pm)" "prunes (pm_root pm) (fm_root fm)"
      "\<forall>k \<in> set keys. PartialMPT_Get pm k = Inr (trie_map fm k)" "skel (fm_root fm') = skel (fm_root fm)"
    using NewPartialMPTIncludingKeys_ok [OF assms] by blast
  have i: "IsInterior (pm_root pm)"
    using p(1) by (auto simp: NewPartialMPTIncludingKeys_def as_PartialMPT_Inr bind_go_eq_Inr split: if_splits)
  have "\<exists>pm' pm''. DeserializeNewPartialMPT (PartialMPT_Bytes pm @ r) = Inr (pm', r)
        \<and> PartialMPT_Commitment pm' = Inr (thash (fm_root fm), pm'')
        \<and> (\<forall>k \<in> set keys. PartialMPT_Get pm' k = Inr (trie_map fm k))" if "serial_ok (pm_root pm)"
    using DeserializeNewPartialMPT_Bytes [OF i that, of r] p(5) prunes_thash [OF p(4)] by auto
  then show ?thesis using p skel_same_trie(2) [OF p(6)] by blast
qed

theorem proofs_complete_witness:
  "\<exists>pm fm'. NewPartialMPTIncludingKeys ex_two [ex_key 0x80, ex_key 0xc0] = Inr (pm, fm')
    \<and> PartialMPT_Commitment pm = Inr (thash (fm_root ex_two), pm)
    \<and> PartialMPT_Get pm (ex_key 0x80) = Inr (Some [0x80]) \<and> PartialMPT_Get pm (ex_key 0xc0) = Inr None"
  using proofs_complete [OF trie_inv_ex(1), of "[ex_key 0x80, ex_key 0xc0]" "[]"]
  by (simp add: trie_map_ex) blast

text \<open>
  C3. Inclusion proofs bind: if a client reads any proof bytes, the proof has the commitment of a full
  trie and shows a value for a key, then the trie holds that value for that key, or the proof and the
  trie together contain one of three things, which \<open>forgery\<close> extracts: two different inputs with
  the same SHA-256 hash, an input that hashes to the all-zero empty-leaf hash, or a leaf whose key
  and value concatenate to the child hashes of an interior node.
\<close>

theorem inclusion_proofs_bind:
  assumes "trie_inv 32 fm" and "length k = 32"
    and "DeserializeNewPartialMPT b = Inr (pm, r)"
    and "PartialMPT_Commitment pm = Inr (c, pm')" and "Commitment fm = Inr (c, fm')"
    and "PartialMPT_Get pm k = Inr (Some v)"
  shows "trie_map fm k = Some v \<or> forged k 0 (pm_root pm) (fm_root fm)"
proof -
  have "thash (pm_root pm) = c"
    using PartialMPT_Commitment_fresh [OF DeserializeNewPartialMPT_Inr [OF assms(3)]] assms(4) by auto
  moreover have "thash (fm_root fm) = c" using Commitment_ok [OF assms(1)] assms(5) by auto
  ultimately show ?thesis
    using inclusion_binding [of 32 "[]" "fm_root fm" k "pm_root pm" v] assms(1,2,6)
    by (simp add: trie_inv_def PartialMPT_Get_def)
qed

theorem inclusion_proofs_bind_witness:
  "trie_map ex_two (ex_key 0x80) = Some [0x80] \<or> forged (ex_key 0x80) 0 (fm_root ex_two) (fm_root ex_two)"
proof -
  let ?pm = "\<lparr>pm_root = fm_root ex_two\<rparr>"
  have s: "serial_ok (fm_root ex_two)" "fresh (fm_root ex_two) = fm_root ex_two" by (simp_all add: ex_two_def int32_len_def)
  have d: "DeserializeNewPartialMPT (PartialMPT_Bytes ?pm @ []) = Inr (?pm, [])"
    using DeserializeNode_Serialize [OF s(1), of "[]"] s(2)
    by (simp add: DeserializeNewPartialMPT_def PartialMPT_Bytes_def) (simp add: ex_two_def)
  obtain pm' fm' where c: "PartialMPT_Commitment ?pm = Inr (thash (fm_root ex_two), pm')"
      "Commitment ex_two = Inr (thash (fm_root ex_two), fm')"
    using PartialMPT_Commitment_fresh [OF DeserializeNewPartialMPT_Inr [OF d]] Commitment_ok [OF trie_inv_ex(1)] by auto
  have "PartialMPT_Get ?pm (ex_key 0x80) = Inr (Some [0x80])"
    by (simp add: PartialMPT_Get_def ex_two_def partialGetHelper.simps [of "InteriorNode _ _ _ _ _"]
        partialGetHelper.simps [of "Leaf _ _ _ _ _"] ex_bits)
  from inclusion_proofs_bind [OF trie_inv_ex(1) _ d c this] show ?thesis by simp
qed

text \<open>
  C20. Absence proofs do not bind: for every trie whose left half holds at least two keys there is a
  serialized proof with the trie's commitment that shows a stored key as absent. It presents the
  interior node above the key as a leaf made of its two child hashes.
\<close>

theorem absence_proofs_forgeable:
  assumes "trie_inv 32 fm" and "IsInterior (GetLeftChild (fm_root fm))"
  shows "\<exists>b pm pm' k v. DeserializeNewPartialMPT b = Inr (pm, [])
    \<and> PartialMPT_Commitment pm = Inr (thash (fm_root fm), pm')
    \<and> length k = 32 \<and> trie_map fm k = Some v \<and> PartialMPT_Get pm k = Inr None"
proof -
  let ?p = "\<lparr>pm_root = hide_left (fm_root fm)\<rparr>"
  note h = hide_left_ok [OF assms]
  obtain k v where k: "length k = 32" "trie_map fm k = Some v" "PartialMPT_Get ?p k = Inr None"
    using h(3) by (auto simp: PartialMPT_Get_def)
  have "IsInterior (pm_root ?p)" by (simp add: hide_left_def)
  from DeserializeNewPartialMPT_Bytes [OF this, of "[]"] obtain pm' pm'' where
    "DeserializeNewPartialMPT (PartialMPT_Bytes ?p) = Inr (pm', [])" "PartialMPT_Get pm' k = Inr None"
    "PartialMPT_Commitment pm' = Inr (thash (fm_root fm), pm'')"
    using h(1,2) k(3) by auto
  then show ?thesis using k by blast
qed

theorem absence_proofs_forgeable_witness:
  "\<exists>b pm pm' k v. DeserializeNewPartialMPT b = Inr (pm, [])
    \<and> PartialMPT_Commitment pm = Inr (thash (fm_root ex_deep), pm')
    \<and> trie_map ex_deep k = Some v \<and> PartialMPT_Get pm k = Inr None"
proof -
  have "IsInterior (GetLeftChild (fm_root ex_deep))" by (simp add: ex_deep_def)
  from absence_proofs_forgeable [OF trie_inv_ex(3) this] show ?thesis by blast
qed

end
