(* ===== verification/Delta_MPT.thy ===== *)
theory Delta_MPT
  imports Partial_MPT
begin

text \<open>
  Deltas (\<open>mpt/deltampt.go\<close>) and their application to a partial trie (\<open>UpdateNode\<close> of
  \<open>mpt/node.go\<close>, \<open>ProcessUpdates\<close> of \<open>mpt/partialmpt.go\<close>). \<open>changes_of\<close> and
  \<open>updates_of\<close> describe what the two copying passes produce on a correct trie.
  \<open>delta_ok t t'\<close> is the condition on the old and the new trie under which applying the update
  brings a client from the one to the other: every node that is not marked is as before. Empty
  leaves are never marked, so a deletion, or an insertion that splits below a shared prefix, breaks
  it; the last section shows what the client then ends up with.
\<close>

section \<open>Definitions\<close>

record DeltaMPT =
  dm_root :: node

function copyChangesOnlyHelper :: "node \<Rightarrow> (node \<times> node) go" where
  "copyChangesOnlyHelper currentNode =
     (if currentNode = NilNode then nil_deref
      else if \<not> Changed currentNode then
        bind_go (GetHash currentNode) (\<lambda>(h, currentNode). Inr (NewStub h, currentNode))
      else if IsLeaf currentNode then
        if IsEmpty currentNode then Inr (EmptyLeafNode, currentNode)
        else bind_go (GetHash currentNode) (\<lambda>(h, currentNode).
          Inr (NewDictionaryLeafNodeCachedHash (GetKey currentNode) (value_bytes currentNode) h, currentNode))
      else
        bind_go (copyChangesOnlyHelper (GetLeftChild currentNode)) (\<lambda>(leftChild, l).
        bind_go (copyChangesOnlyHelper (GetRightChild currentNode)) (\<lambda>(rightChild, r).
        bind_go (GetHash (with_children currentNode l r)) (\<lambda>(h, currentNode).
          Inr (NewInteriorNodeWithCachedHash leftChild rightChild h, currentNode)))))"
  by pat_completeness auto
termination
  by (relation "measure node_size") (simp_all add: node_size_children)

definition NewDeltaMPT :: "FullMPT \<Rightarrow> (DeltaMPT \<times> FullMPT) go" where
  "NewDeltaMPT fm =
     (let root = fm_root fm in
      if root = NilNode then nil_deref
      else bind_go (copyChangesOnlyHelper (GetLeftChild root)) (\<lambda>(leftChild, l).
           bind_go (copyChangesOnlyHelper (GetRightChild root)) (\<lambda>(rightChild, r).
             Inr (\<lparr>dm_root = NewInteriorNode leftChild rightChild\<rparr>, fm\<lparr>fm_root := with_children root l r\<rparr>))))"

function getUpdatesHelper :: "bytes list \<Rightarrow> node \<Rightarrow> int \<Rightarrow> (node \<times> node) go" where
  "getUpdatesHelper keys currentNode currentBitIndex =
     (if currentNode = NilNode then nil_deref
      else if IsStub currentNode then Inr (NilNode, currentNode)
      else if keys = [] then
        if IsEmpty currentNode then Inr (EmptyLeafNode, currentNode)
        else bind_go (GetHash currentNode) (\<lambda>(h, currentNode). Inr (NewStub h, currentNode))
      else if IsLeaf currentNode then
        if IsEmpty currentNode then Inr (EmptyLeafNode, currentNode)
        else bind_go (GetHash currentNode) (\<lambda>(h, currentNode).
          Inr (NewDictionaryLeafNodeCachedHash (GetKey currentNode) (value_bytes currentNode) h, currentNode))
      else bind_go (divide_keys keys currentBitIndex) (\<lambda>(matchLeft, matchRight).
        bind_go (getUpdatesHelper matchLeft (GetLeftChild currentNode) (currentBitIndex + 1)) (\<lambda>(leftChild, l).
        bind_go (getUpdatesHelper matchRight (GetRightChild currentNode) (currentBitIndex + 1)) (\<lambda>(rightChild, r).
        bind_go (GetHash (with_children currentNode l r)) (\<lambda>(h, currentNode).
          Inr (NewInteriorNodeWithCachedHash leftChild rightChild h, currentNode))))))"
  by pat_completeness auto
termination
  by (relation "measure (\<lambda>(ks, n, i). node_size n)") (simp_all add: node_size_children)

definition GetUpdatesForKeys :: "DeltaMPT \<Rightarrow> bytes list \<Rightarrow> (DeltaMPT \<times> DeltaMPT) go" where
  "GetUpdatesForKeys dm keys =
     bind_go (getUpdatesHelper keys (dm_root dm) (-1)) (\<lambda>(root, n).
       case root of
         InteriorNode _ _ _ _ _ \<Rightarrow> Inr (\<lparr>dm_root = root\<rparr>, dm\<lparr>dm_root := n\<rparr>)
       | _ \<Rightarrow> Inl (GoPanic ''interface conversion''))"

definition GetUpdatesForKey :: "DeltaMPT \<Rightarrow> bytes \<Rightarrow> (DeltaMPT \<times> DeltaMPT) go" where
  "GetUpdatesForKey dm key = GetUpdatesForKeys dm [key]"

fun UpdateNode :: "node \<Rightarrow> node \<Rightarrow> node" where
  "UpdateNode n (InteriorNode h rc ch l2 r2) =
     (let left = (if n \<noteq> NilNode then GetLeftChild n else NilNode);
          right = (if n \<noteq> NilNode then GetRightChild n else NilNode);
          left = (if l2 \<noteq> NilNode then UpdateNode left l2 else left);
          right = (if r2 \<noteq> NilNode then UpdateNode right r2 else right)
      in NewInteriorNode left right)"
| "UpdateNode n n2 = n2"

definition UpdateNodeFromReader :: "node \<Rightarrow> bytes \<Rightarrow> (node \<times> bytes) go" where
  "UpdateNodeFromReader n r = bind_go (DeserializeNode r) (\<lambda>(n2, r). Inr (UpdateNode n n2, r))"

definition ProcessUpdates :: "PartialMPT \<Rightarrow> DeltaMPT \<Rightarrow> PartialMPT go" where
  "ProcessUpdates pm delta = as_PartialMPT (UpdateNode (pm_root pm) (dm_root delta))"

definition DeserializeNewDeltaMPT :: "bytes \<Rightarrow> (DeltaMPT \<times> bytes) go" where
  "DeserializeNewDeltaMPT r = bind_go (DeserializeNode r) (\<lambda>(possibleRoot, r).
     case possibleRoot of
       InteriorNode _ _ _ _ _ \<Rightarrow> Inr (\<lparr>dm_root = possibleRoot\<rparr>, r)
     | _ \<Rightarrow> Inl (GoError ''The passed byte array is no valid tree''))"

definition ProcessUpdatesFromReader :: "PartialMPT \<Rightarrow> bytes \<Rightarrow> (PartialMPT \<times> bytes) go" where
  "ProcessUpdatesFromReader pm r = bind_go (DeserializeNewDeltaMPT r) (\<lambda>(dmpt, r).
     bind_go (ProcessUpdates pm dmpt) (\<lambda>pm. Inr (pm, r)))"

definition DeltaMPT_ByteSize :: "DeltaMPT \<Rightarrow> nat" where
  "DeltaMPT_ByteSize dm = ByteSize (dm_root dm)"

definition DeltaMPT_Bytes :: "DeltaMPT \<Rightarrow> bytes" where
  "DeltaMPT_Bytes dm = Serialize (dm_root dm)"

definition DeltaMPT_Dispose :: "DeltaMPT \<Rightarrow> DeltaMPT go" where
  "DeltaMPT_Dispose dm = bind_go (Dispose (dm_root dm)) (\<lambda>root. Inr (dm\<lparr>dm_root := root\<rparr>))"

definition DeltaMPT_Copy :: "DeltaMPT \<Rightarrow> DeltaMPT go" where
  "DeltaMPT_Copy dm = bind_go (DeepCopy (dm_root dm)) (\<lambda>copiedRoot.
     case copiedRoot of
       InteriorNode _ _ _ _ _ \<Rightarrow> Inr \<lparr>dm_root = copiedRoot\<rparr>
     | _ \<Rightarrow> Inl (GoPanic ''interface conversion''))"

declare copyChangesOnlyHelper.simps [simp del] getUpdatesHelper.simps [simp del]

section \<open>What the two passes produce\<close>

fun changes_of :: "node \<Rightarrow> node" where
  "changes_of (DictionaryLeafNode key value _ ch _) =
     (if ch then DictionaryLeafNode key value (Sum256 (key @ value)) True False else Stub (Sum256 (key @ value)))"
| "changes_of (InteriorNode _ _ ch l r) =
     (if ch then InteriorNode (Sum256 (thash l @ thash r)) False True (changes_of l) (changes_of r)
      else Stub (Sum256 (thash l @ thash r)))"
| "changes_of n = Stub (thash n)"

lemma changes_of_simps [simp]:
  "thash (changes_of n) = thash n" "hash_ok (changes_of n)" "all_cached (changes_of n)"
  "changes_of n \<noteq> NilNode"
proof -
  show t: "thash (changes_of n) = thash n" for n by (induction n) simp_all
  show a: "all_cached (changes_of n)" for n by (induction n) simp_all
  show "hash_ok (changes_of n)" by (induction n) (simp_all add: t a)
  show "changes_of n \<noteq> NilNode" by (cases n) simp_all
qed

lemma copyChangesOnlyHelper_ok:
  "hash_ok n \<Longrightarrow> complete n \<Longrightarrow>
     \<exists>n'. copyChangesOnlyHelper n = Inr (changes_of n, n') \<and> skel n' = skel n \<and> hash_ok n' \<and> complete n'
       \<and> Changed n' = Changed n \<and> marks_ok n' = marks_ok n \<and> (all_cached n \<longrightarrow> all_cached n')"
proof (induction n)
  case (InteriorNode h rc ch l r)
  let ?n = "InteriorNode h rc ch l r"
  show ?case
  proof (cases ch)
    case False
    have "complete (cached ?n)" using skel_same(1) [OF skel_cached [of ?n]] InteriorNode.prems(2) by simp
    moreover have "copyChangesOnlyHelper ?n = Inr (changes_of ?n, cached ?n)"
      using False GetHash_ok [OF InteriorNode.prems(1)]
      by (subst copyChangesOnlyHelper.simps) (simp del: cached.simps GetHash.simps)
    ultimately show ?thesis
      using InteriorNode.prems by (simp del: cached.simps changes_of.simps hash_ok.simps all_cached.simps)
  next
    case True
    obtain l' r' where c: "copyChangesOnlyHelper l = Inr (changes_of l, l')" "skel l' = skel l" "hash_ok l'"
        "complete l'" "Changed l' = Changed l" "marks_ok l' = marks_ok l" "all_cached l \<longrightarrow> all_cached l'"
        "copyChangesOnlyHelper r = Inr (changes_of r, r')" "skel r' = skel r" "hash_ok r'"
        "complete r'" "Changed r' = Changed r" "marks_ok r' = marks_ok r" "all_cached r \<longrightarrow> all_cached r'"
      using InteriorNode by auto
    let ?n' = "InteriorNode h rc ch l' r'"
    have t: "thash l' = thash l" "thash r' = thash r" using c(2,9) by (auto dest: skel_same(2))
    have ok: "hash_ok ?n'" using InteriorNode.prems(1) c t by auto
    have "complete (cached ?n')" using skel_same(1) [OF skel_cached [of ?n']] c(4,11) by simp
    moreover have "copyChangesOnlyHelper ?n = Inr (changes_of ?n, cached ?n')"
      using True c(1,8) GetHash_ok [OF ok] t
      by (subst copyChangesOnlyHelper.simps) (simp del: cached.simps GetHash.simps)
    ultimately show ?thesis
      using c ok by (simp del: cached.simps changes_of.simps hash_ok.simps all_cached.simps)
  qed
next
  case (DictionaryLeafNode key val h ch rc)
  let ?n = "Leaf key val h ch rc"
  have "copyChangesOnlyHelper ?n = Inr (changes_of ?n, cached ?n)"
    using GetHash_ok [OF DictionaryLeafNode.prems(1)]
    by (cases ch) (simp_all add: copyChangesOnlyHelper.simps [of "Leaf _ _ _ _ _"] value_bytes_def del: GetHash.simps)
  then show ?case using DictionaryLeafNode.prems(1) by simp
qed (simp_all add: copyChangesOnlyHelper.simps)

text \<open>The update for some keys, read off the new trie.\<close>

fun updates_of :: "bytes list \<Rightarrow> nat \<Rightarrow> node \<Rightarrow> node" where
  "updates_of ks d (DictionaryLeafNode key value h ch rc) =
     (if \<not> ch then NilNode
      else if ks = [] then Stub (Sum256 (key @ value))
      else DictionaryLeafNode key value (Sum256 (key @ value)) True False)"
| "updates_of ks d (InteriorNode h rc ch l r) =
     (if \<not> ch then NilNode
      else if ks = [] then Stub (Sum256 (thash l @ thash r))
      else InteriorNode (Sum256 (thash l @ thash r)) False True
             (updates_of (filter (\<lambda>k. \<not> key_bits k ! d) ks) (Suc d) l)
             (updates_of (filter (\<lambda>k. key_bits k ! d) ks) (Suc d) r))"
| "updates_of ks d n = NilNode"

lemma getUpdatesHelper_ok:
  "wf_trie L path n \<Longrightarrow> \<forall>k \<in> set ks. on_path L path k \<Longrightarrow>
     getUpdatesHelper ks (changes_of n) (int (length path) - 1) = Inr (updates_of ks (length path) n, changes_of n)"
proof (induction n arbitrary: path ks)
  case (InteriorNode h rc ch l r)
  let ?c = "InteriorNode (Sum256 (thash l @ thash r)) False True (changes_of l) (changes_of r)"
  have len: "length path < 8 * L" and wf: "wf_trie L (path @ [False]) l" "wf_trie L (path @ [True]) r"
    using InteriorNode.prems(1) by simp_all
  have "\<forall>k \<in> set (filter (\<lambda>k. \<not> key_bits k ! length path) ks). on_path L (path @ [False]) k"
      "\<forall>k \<in> set (filter (\<lambda>k. key_bits k ! length path) ks). on_path L (path @ [True]) k"
    using InteriorNode.prems(2) on_path_step [OF _ len] by auto
  note IH = InteriorNode.IH(1) [OF wf(1) this(1)] InteriorNode.IH(2) [OF wf(2) this(2)]
  have "getUpdatesHelper ks ?c (int (length path) - 1)
      = Inr (updates_of ks (length path) (InteriorNode h rc True l r), ?c)"
    using IH divide_keys_ok [OF len InteriorNode.prems(2)]
    by (subst getUpdatesHelper.simps) simp
  then show ?case by (cases ch) (simp_all add: getUpdatesHelper.simps [of _ "Stub _"])
qed (auto simp: getUpdatesHelper.simps value_bytes_def)

section \<open>When a delta describes the change\<close>

fun delta_ok :: "node \<Rightarrow> node \<Rightarrow> bool" where
  "delta_ok t (InteriorNode h rc ch l r) \<longleftrightarrow>
     (if ch then delta_ok (GetLeftChild t) l \<and> delta_ok (GetRightChild t) r
      else skel t = skel (InteriorNode h rc ch l r))"
| "delta_ok t n \<longleftrightarrow> Changed n \<or> skel t = skel n"

lemma delta_ok_refl: "skel t = skel n \<Longrightarrow> delta_ok t n"
proof (induction n arbitrary: t)
  case (InteriorNode h rc ch l r)
  then show ?case by (cases t) auto
qed simp_all

lemma delta_ok_skel: "skel t = skel u \<Longrightarrow> delta_ok t n = delta_ok u n"
proof (induction n arbitrary: t u)
  case (InteriorNode h rc ch l r)
  have "skel (GetLeftChild t) = skel (GetLeftChild u)" "skel (GetRightChild t) = skel (GetRightChild u)"
    using InteriorNode.prems by (cases t; cases u; simp)+
  note c = this
  have "delta_ok (GetLeftChild t) l = delta_ok (GetLeftChild u) l"
      "delta_ok (GetRightChild t) r = delta_ok (GetRightChild u) r"
    by (rule InteriorNode.IH(1) [OF c(1)], rule InteriorNode.IH(2) [OF c(2)])
  then show ?case using InteriorNode.prems by (cases ch) (simp_all del: skel.simps)
qed simp_all

text \<open>
  The client's view \<open>p\<close> of the old trie \<open>t\<close>: pruned, and able to answer the keys it tracks.
\<close>

definition tracks :: "nat \<Rightarrow> bytes list \<Rightarrow> node \<Rightarrow> node \<Rightarrow> bool" where
  "tracks d ks p t \<longleftrightarrow> prunes p t \<and> hash_ok p \<and> (\<forall>k \<in> set ks. partialGetHelper p k (int d - 1) = Inr (entries t k))"

lemma prunes_skel: "skel t = skel u \<Longrightarrow> prunes p t = prunes p u"
proof (induction p arbitrary: t u)
  case (InteriorNode h rc ch l r)
  show ?case
  proof (cases "IsInterior t")
    case True
    then obtain h1 rc1 ch1 l1 r1 h2 rc2 ch2 l2 r2 where
      "t = InteriorNode h1 rc1 ch1 l1 r1" "u = InteriorNode h2 rc2 ch2 l2 r2" "skel l1 = skel l2" "skel r1 = skel r2"
      using InteriorNode.prems by (cases t; cases u) simp_all
    then show ?thesis using InteriorNode.IH(1) [of l1 l2] InteriorNode.IH(2) [of r1 r2] by simp
  next
    case False
    moreover have "\<not> IsInterior u" using False skel_same_trie(3) [OF InteriorNode.prems] by simp
    ultimately show ?thesis by (cases t; cases u) simp_all
  qed
next
  case (Stub h)
  then show ?case using skel_same(2) [of t u] by simp
next
  case (DictionaryLeafNode key val h ch rc)
  then show ?case by (cases t; cases u) simp_all
next
  case EmptyLeafNode
  then show ?case by (cases t; cases u) simp_all
qed simp

lemma tracks_skel: "skel t = skel u \<Longrightarrow> tracks d ks p t = tracks d ks p u"
  using prunes_skel [of t u p] skel_same_trie(2) [of t u] by (simp add: tracks_def)

definition applied :: "node \<Rightarrow> node \<Rightarrow> node" where
  "applied p u = (if u \<noteq> NilNode then UpdateNode p u else p)"

lemma tracks_interior:
  assumes wf: "wf_trie L path (InteriorNode h rc ch l r)" and ks: "\<forall>k \<in> set ks. on_path L path k"
    and l: "tracks (Suc (length path)) (filter (\<lambda>k. \<not> key_bits k ! length path) ks) pl l"
    and r: "tracks (Suc (length path)) (filter (\<lambda>k. key_bits k ! length path) ks) pr r"
  shows "tracks (length path) ks (InteriorNode (zeros 32) True True pl pr) (InteriorNode h rc ch l r)"
proof -
  let ?p = "InteriorNode (zeros 32) True True pl pr" and ?n = "InteriorNode h rc ch l r"
  have "partialGetHelper ?p k (int (length path) - 1) = Inr (entries ?n k)" if k: "k \<in> set ks" for k
  proof -
    have p: "on_path L path k" using k ks by simp
    have len: "length path < 8 * L" using wf by simp
    have "partialGetHelper ?p k (int (length path) - 1)
        = partialGetHelper (if key_bits k ! length path then pr else pl) k (int (length path))"
      using GetBit_on_path [OF p len] by (subst partialGetHelper.simps) simp
    also have "\<dots> = Inr (entries (if key_bits k ! length path then r else l) k)"
      using l r k by (simp add: tracks_def)
    also have "\<dots> = Inr (entries ?n k)"
      using entries_side [OF wf p] by (simp del: entries.simps)
    finally show ?thesis .
  qed
  then show ?thesis using l r by (simp add: tracks_def)
qed

text \<open>The view of a child, from the view of the parent.\<close>

lemma tracks_children:
  assumes t: "wf_trie L path t" and ks: "ks \<noteq> []" "\<forall>k \<in> set ks. on_path L path k"
    and p: "tracks (length path) ks p t" and i: "IsInterior t"
  shows "tracks (Suc (length path)) (filter (\<lambda>k. \<not> key_bits k ! length path) ks) (GetLeftChild p) (GetLeftChild t)"
    and "tracks (Suc (length path)) (filter (\<lambda>k. key_bits k ! length path) ks) (GetRightChild p) (GetRightChild t)"
proof -
  obtain h rc ch l r where n: "t = InteriorNode h rc ch l r" using i by (cases t) auto
  obtain k0 where k0: "k0 \<in> set ks" using ks(1) by (cases ks) auto
  then have "\<not> IsStub p" using p by (cases p) (auto simp: tracks_def partialGetHelper.simps)
  with p n obtain h' rc' ch' pl pr where q: "p = InteriorNode h' rc' ch' pl pr" "prunes pl l" "prunes pr r"
      "hash_ok pl" "hash_ok pr"
    by (cases p) (auto simp: tracks_def)
  have get: "partialGetHelper (if key_bits k ! length path then pr else pl) k (int (length path))
      = Inr (entries (if key_bits k ! length path then r else l) k)" if k: "k \<in> set ks" for k
  proof -
    have o: "on_path L path k" using k ks by simp
    have len: "length path < 8 * L" using t n by simp
    have "partialGetHelper p k (int (length path) - 1) = Inr (entries t k)" using p k by (simp add: tracks_def)
    then show ?thesis
      using GetBit_on_path [OF o len] entries_side [OF t [unfolded n] o]
      by (simp add: partialGetHelper.simps [of "InteriorNode h' rc' ch' pl pr"] q(1) n del: entries.simps split: if_splits)
  qed
  show "tracks (Suc (length path)) (filter (\<lambda>k. \<not> key_bits k ! length path) ks) (GetLeftChild p) (GetLeftChild t)"
    using q get by (fastforce simp: tracks_def n)
  show "tracks (Suc (length path)) (filter (\<lambda>k. key_bits k ! length path) ks) (GetRightChild p) (GetRightChild t)"
    using q get by (fastforce simp: tracks_def n)
qed

lemma update_ok:
  "wf_trie L path n \<Longrightarrow> \<forall>k \<in> set ks. on_path L path k \<Longrightarrow> delta_ok t n \<Longrightarrow>
     t = NilNode \<and> p = NilNode \<or> wf_trie L path t \<and> tracks (length path) ks p t \<Longrightarrow>
     tracks (length path) ks (applied p (updates_of ks (length path) n)) n
       \<and> (IsInterior n \<and> Changed n \<and> ks \<noteq> [] \<longrightarrow> IsInterior (applied p (updates_of ks (length path) n)))"
proof (induction n arbitrary: path ks t p)
  case (InteriorNode h rc ch l r)
  let ?n = "InteriorNode h rc ch l r"
  have wf: "wf_trie L (path @ [False]) l" "wf_trie L (path @ [True]) r" and len: "length path < 8 * L"
    using InteriorNode.prems(1) by simp_all
  consider (same) "\<not> ch" | (stub) "ch" "ks = []" | (walk) "ch" "ks \<noteq> []" by blast
  then show ?case
  proof cases
    case same
    then have "skel t = skel ?n" using InteriorNode.prems(3) by simp
    moreover from this have "t \<noteq> NilNode" by auto
    ultimately have "tracks (length path) ks p ?n"
      using InteriorNode.prems(4) tracks_skel [of t ?n "length path" ks p] by simp
    then show ?thesis using same by (simp add: applied_def)
  next
    case stub
    then show ?thesis by (simp add: applied_def tracks_def)
  next
    case walk
    let ?kl = "filter (\<lambda>k. \<not> key_bits k ! length path) ks" and ?kr = "filter (\<lambda>k. key_bits k ! length path) ks"
    have kl: "\<forall>k \<in> set ?kl. on_path L (path @ [False]) k" and kr: "\<forall>k \<in> set ?kr. on_path L (path @ [True]) k"
      using InteriorNode.prems(2) on_path_step [OF _ len] by auto
    have d: "delta_ok (GetLeftChild t) l" "delta_ok (GetRightChild t) r"
      using InteriorNode.prems(3) walk by simp_all
    let ?A = "GetLeftChild t = NilNode \<and> GetLeftChild p = NilNode
          \<or> wf_trie L (path @ [False]) (GetLeftChild t) \<and> tracks (Suc (length path)) ?kl (GetLeftChild p) (GetLeftChild t)"
    let ?B = "GetRightChild t = NilNode \<and> GetRightChild p = NilNode
          \<or> wf_trie L (path @ [True]) (GetRightChild t) \<and> tracks (Suc (length path)) ?kr (GetRightChild p) (GetRightChild t)"
    have sub: "?A \<and> ?B"
    proof (cases "IsInterior t")
      case True
      then have "wf_trie L path t" "tracks (length path) ks p t" using InteriorNode.prems(4) by auto
      moreover from this True have "wf_trie L (path @ [False]) (GetLeftChild t)" "wf_trie L (path @ [True]) (GetRightChild t)"
        by (cases t; simp)+
      ultimately show "?A \<and> ?B"
        using tracks_children [OF _ walk(2) InteriorNode.prems(2) _ True] by blast
    next
      case False
      then have "GetLeftChild t = NilNode" "GetRightChild t = NilNode" by (cases t; simp)+
      moreover have "GetLeftChild p = NilNode" "GetRightChild p = NilNode"
        using False InteriorNode.prems(4) by (cases p; auto simp: tracks_def)+
      ultimately show "?A \<and> ?B"
        by simp
    qed
    have L: "tracks (Suc (length path)) ?kl (applied (GetLeftChild p) (updates_of ?kl (Suc (length path)) l)) l"
      using InteriorNode.IH(1) [OF wf(1) kl d(1), of "GetLeftChild p"] sub by simp
    have R: "tracks (Suc (length path)) ?kr (applied (GetRightChild p) (updates_of ?kr (Suc (length path)) r)) r"
      using InteriorNode.IH(2) [OF wf(2) kr d(2), of "GetRightChild p"] sub by simp
    have "applied p (updates_of ks (length path) ?n)
        = InteriorNode (zeros 32) True True (applied (GetLeftChild p) (updates_of ?kl (Suc (length path)) l))
            (applied (GetRightChild p) (updates_of ?kr (Suc (length path)) r))"
      using walk by (simp add: applied_def Let_def)
    then show ?thesis
      using tracks_interior [OF InteriorNode.prems(1,2) L R] walk by (simp del: updates_of.simps)
  qed
next
  case (DictionaryLeafNode key val h ch rc)
  show ?case
  proof (cases ch)
    case True
    then show ?thesis
      by (auto simp: applied_def tracks_def partialGetHelper.simps)
  next
    case False
    then have "skel t = skel (Leaf key val h ch rc)" using DictionaryLeafNode.prems(3) by simp
    moreover from this have "t \<noteq> NilNode" by auto
    ultimately have "tracks (length path) ks p (Leaf key val h ch rc)"
      using DictionaryLeafNode.prems(4) tracks_skel [of t _ "length path" ks p] by metis
    then show ?thesis using False by (simp add: applied_def)
  qed
next
  case EmptyLeafNode
  then have "t = EmptyLeafNode" by (cases t) simp_all
  then show ?case using EmptyLeafNode.prems(4) by (simp add: applied_def)
qed simp_all

section \<open>Operations that keep a delta faithful\<close>

text \<open>
  Updating the value of a stored key, and adding a key where there was an empty leaf, keep
  \<open>delta_ok\<close>.
\<close>

lemma insertHelper_delta_ok:
  "wf_trie L path n \<Longrightarrow> on_path L path k \<Longrightarrow> entries n k \<noteq> None \<Longrightarrow> delta_ok t n \<Longrightarrow>
     \<exists>m. insertHelper k v (int (length path) - 1) n = Inr m \<and> delta_ok t m"
proof (induction n arbitrary: path t)
  case (InteriorNode h rc ch l r)
  let ?n = "InteriorNode h rc ch l r" and ?b = "key_bits k ! length path"
  have len: "length path < 8 * L" and wf: "wf_trie L (path @ [False]) l" "wf_trie L (path @ [True]) r"
    using InteriorNode.prems(1) by simp_all
  have step: "on_path L (path @ [?b]) k" using on_path_step [OF InteriorNode.prems(2) len] by blast
  have e: "entries (if ?b then r else l) k \<noteq> None"
    using entries_side [OF InteriorNode.prems(1,2)] InteriorNode.prems(3) by (auto simp del: entries.simps)
  have d: "delta_ok (GetLeftChild t) l" "delta_ok (GetRightChild t) r"
    using InteriorNode.prems(4) by (cases ch; cases t; auto intro: delta_ok_refl)+
  note bit = GetBit_on_path [OF InteriorNode.prems(2) len]
  show ?case
  proof (cases ?b)
    case True
    then obtain m where "insertHelper k v (int (length path)) r = Inr m" "delta_ok (GetRightChild t) m"
      using InteriorNode.IH(2) [OF wf(2) _ _ d(2)] step e by auto
    then show ?thesis using True bit d by (simp add: insertHelper.simps [of _ _ _ ?n])
  next
    case False
    then obtain m where "insertHelper k v (int (length path)) l = Inr m" "delta_ok (GetLeftChild t) m"
      using InteriorNode.IH(1) [OF wf(1) _ _ d(1)] step e by auto
    then show ?thesis using False bit d by (simp add: insertHelper.simps [of _ _ _ ?n])
  qed
qed (auto simp: insertHelper.simps split: if_splits)

definition delta_from :: "FullMPT \<Rightarrow> FullMPT \<Rightarrow> bool" where
  "delta_from fm0 fm \<longleftrightarrow> delta_ok (GetLeftChild (fm_root fm0)) (GetLeftChild (fm_root fm))
     \<and> delta_ok (GetRightChild (fm_root fm0)) (GetRightChild (fm_root fm))"

lemma delta_from_iff:
  assumes "trie_inv L fm0" and "trie_inv L fm"
  shows "delta_ok (fm_root fm0) (fm_root fm) \<Longrightarrow> delta_from fm0 fm"
    and "delta_from fm0 fm \<Longrightarrow> Changed (fm_root fm) \<Longrightarrow> delta_ok (fm_root fm0) (fm_root fm)"
  using assms
  by (cases "fm_root fm0"; cases "fm_root fm"; auto simp: trie_inv_def delta_from_def intro: delta_ok_refl split: if_splits)+

lemma Insert_Changed: "Insert fm k v = Inr fm' \<Longrightarrow> IsInterior (fm_root fm) \<Longrightarrow> Changed (fm_root fm')"
  by (cases "fm_root fm") (auto simp: Insert_def insertHelper.simps [of _ _ _ "InteriorNode _ _ _ _ _"] bind_go_eq_Inr split: if_splits)

text \<open>A series of updates of stored keys.\<close>

primrec insert_all :: "(bytes \<times> bytes) list \<Rightarrow> FullMPT \<Rightarrow> FullMPT go" where
  "insert_all [] fm = Inr fm"
| "insert_all (kv # kvs) fm = bind_go (Insert fm (fst kv) (snd kv)) (insert_all kvs)"

lemma insert_all_ok:
  assumes "trie_inv L fm0"
  shows "trie_inv L fm \<Longrightarrow> delta_ok (fm_root fm0) (fm_root fm) \<Longrightarrow>
     \<forall>(k, v) \<in> set kvs. k \<in> dom (trie_map fm) \<Longrightarrow>
     \<exists>fm'. insert_all kvs fm = Inr fm' \<and> trie_inv L fm' \<and> delta_ok (fm_root fm0) (fm_root fm')
       \<and> trie_map fm' = trie_map fm ++ map_of (rev kvs)"
proof (induction kvs arbitrary: fm)
  case (Cons kv kvs)
  obtain k v where kv: "kv = (k, v)" by (cases kv)
  have k: "k \<in> dom (trie_map fm)" using Cons.prems(3) kv by simp
  have wf: "wf_trie L [] (fm_root fm)" using Cons.prems(1) by (simp add: trie_inv_def)
  have len: "on_path L [] k" using entries_on_path [OF wf k] .
  obtain fm1 where fm1: "Insert fm k v = Inr fm1" "trie_inv L fm1" "trie_map fm1 = (trie_map fm)(k \<mapsto> v)"
    using Insert_ok [OF Cons.prems(1)] len by fastforce
  have "delta_ok (fm_root fm0) (fm_root fm1)"
    using insertHelper_delta_ok [OF wf len _ Cons.prems(2), of v] k fm1(1)
    by (auto simp: Insert_def bind_go_eq_Inr)
  moreover have "\<forall>(k, v) \<in> set kvs. k \<in> dom (trie_map fm1)" using Cons.prems(3) fm1(3) by auto
  ultimately obtain fm' where "insert_all kvs fm1 = Inr fm'" "trie_inv L fm'" "delta_ok (fm_root fm0) (fm_root fm')"
      "trie_map fm' = trie_map fm1 ++ map_of (rev kvs)"
    using Cons.IH [OF fm1(2)] by blast
  then show ?case using fm1 kv by (simp add: map_add_def fun_eq_iff split: option.splits)
qed simp

section \<open>The client after an update\<close>

lemma NewDeltaMPT_ok:
  assumes "trie_inv L fm"
  shows "\<exists>fm'. NewDeltaMPT fm = Inr (\<lparr>dm_root = NewInteriorNode (changes_of (GetLeftChild (fm_root fm)))
      (changes_of (GetRightChild (fm_root fm)))\<rparr>, fm') \<and> trie_inv L fm' \<and> skel (fm_root fm') = skel (fm_root fm)"
proof -
  obtain h rc ch l r where n: "fm_root fm = InteriorNode h rc ch l r"
    using assms by (cases "fm_root fm") (auto simp: trie_inv_def)
  have ok: "hash_ok l" "hash_ok r" "complete l" "complete r" "wf_trie L [] (fm_root fm)"
    using assms wf_trie_complete [of L "[]" "fm_root fm"] by (simp_all add: trie_inv_def n)
  obtain l' r' where c: "copyChangesOnlyHelper l = Inr (changes_of l, l')" "skel l' = skel l" "hash_ok l'"
      "Changed l' = Changed l" "marks_ok l' = marks_ok l" "all_cached l \<longrightarrow> all_cached l'"
      "copyChangesOnlyHelper r = Inr (changes_of r, r')" "skel r' = skel r" "hash_ok r'"
      "Changed r' = Changed r" "marks_ok r' = marks_ok r" "all_cached r \<longrightarrow> all_cached r'"
    using copyChangesOnlyHelper_ok [OF ok(1,3)] copyChangesOnlyHelper_ok [OF ok(2,4)] by blast
  have s: "skel (InteriorNode h rc ch l' r') = skel (fm_root fm)" using c by (simp add: n)
  have "wf_trie L [] (InteriorNode h rc ch l' r')" unfolding skel_same_trie(1) [OF s] by (rule ok(5))
  moreover have "thash l' = thash l" "thash r' = thash r" using c(2,8) by (auto dest: skel_same(2))
  ultimately have "trie_inv L (fm\<lparr>fm_root := InteriorNode h rc ch l' r'\<rparr>)"
    using assms c by (simp add: trie_inv_def n del: wf_trie.simps)
  then show ?thesis using c s by (simp add: NewDeltaMPT_def n)
qed

lemma ProcessUpdates_ok:
  assumes fm0: "trie_inv L fm0" and fm: "trie_inv L fm" and d: "delta_from fm0 fm"
    and ks: "ks \<noteq> []" "\<forall>k \<in> set ks. length k = L" and pm: "tracks 0 ks (pm_root pm) (fm_root fm0)"
  shows "\<exists>dm fm' u dm' pm'. NewDeltaMPT fm = Inr (dm, fm') \<and> GetUpdatesForKeys dm ks = Inr (u, dm')
    \<and> ProcessUpdates pm u = Inr pm' \<and> tracks 0 ks (pm_root pm') (fm_root fm)"
proof -
  let ?old = "fm_root fm0" and ?n = "fm_root fm"
  obtain h rc ch l r where n: "?n = InteriorNode h rc ch l r"
    using fm by (cases ?n) (auto simp: trie_inv_def)
  let ?m = "InteriorNode h rc True l r"
  have wf: "wf_trie L [] ?m" "wf_trie L [] ?old" using fm0 fm by (simp_all add: trie_inv_def n)
  have on: "\<forall>k \<in> set ks. on_path L [] k" using ks(2) by simp
  let ?c = "NewInteriorNode (changes_of l) (changes_of r)"
  have u: "getUpdatesHelper ks ?c (-1) = Inr (updates_of ks 0 ?m, cached ?c)"
  proof -
    let ?kl = "filter (\<lambda>k. \<not> key_bits k ! 0) ks" and ?kr = "filter (\<lambda>k. key_bits k ! 0) ks"
    have len: "length ([] :: bool list) < 8 * L" and w: "wf_trie L [False] l" "wf_trie L [True] r"
      using wf(1) by simp_all
    have "\<forall>k \<in> set ?kl. on_path L [False] k" "\<forall>k \<in> set ?kr. on_path L [True] k"
      using on on_path_step [OF _ len] by auto
    then have "getUpdatesHelper ?kl (changes_of l) 0 = Inr (updates_of ?kl 1 l, changes_of l)"
        "getUpdatesHelper ?kr (changes_of r) 0 = Inr (updates_of ?kr 1 r, changes_of r)"
      using getUpdatesHelper_ok [OF w(1)] getUpdatesHelper_ok [OF w(2)] by simp_all
    moreover have "divide_keys ks (-1) = Inr (?kl, ?kr)" using divide_keys_ok [OF len on] by simp
    moreover have "GetHash ?c = Inr (Sum256 (thash l @ thash r), cached ?c)"
      using GetHash_ok [of ?c] by simp
    ultimately show ?thesis
      using ks(1) by (simp add: getUpdatesHelper.simps [of ks "InteriorNode _ _ _ _ _"] del: GetHash.simps cached.simps)
  qed
  have "delta_ok ?old ?m" using d by (simp add: delta_from_def n)
  then have t: "tracks 0 ks (applied (pm_root pm) (updates_of ks 0 ?m)) ?m"
      "IsInterior (applied (pm_root pm) (updates_of ks 0 ?m))"
    using update_ok [OF wf(1) on, of ?old "pm_root pm"] pm wf(2) ks(1) by simp_all
  have i: "updates_of ks 0 ?m \<noteq> NilNode" "IsInterior (updates_of ks 0 ?m)" using ks(1) by simp_all
  let ?p = "UpdateNode (pm_root pm) (updates_of ks 0 ?m)"
  have "tracks 0 ks ?p ?n" "IsInterior ?p"
    using t i(1) tracks_skel [of ?m ?n 0 ks ?p] by (simp_all add: applied_def n del: updates_of.simps)
  moreover from this have "as_PartialMPT ?p = Inr \<lparr>pm_root = ?p\<rparr>"
    by (cases ?p) (simp_all add: as_PartialMPT_def del: updates_of.simps)
  moreover obtain fm' where "NewDeltaMPT fm = Inr (\<lparr>dm_root = ?c\<rparr>, fm')"
    using NewDeltaMPT_ok [OF fm] by (auto simp: n)
  moreover have "GetUpdatesForKeys \<lparr>dm_root = ?c\<rparr> ks = Inr (\<lparr>dm_root = updates_of ks 0 ?m\<rparr>, \<lparr>dm_root = cached ?c\<rparr>)"
    using u ks(1) by (simp add: GetUpdatesForKeys_def del: New_simps cached.simps)
  ultimately show ?thesis by (simp add: ProcessUpdates_def del: updates_of.simps New_simps)
qed

text \<open>
  One round between a server and a client that tracks some keys: the client has a proof for the
  committed trie, the trie changes, and the client applies the update it is sent.
\<close>

definition delta_round :: "FullMPT \<Rightarrow> (FullMPT \<Rightarrow> FullMPT go) \<Rightarrow> bytes list \<Rightarrow> (PartialMPT \<times> FullMPT) go" where
  "delta_round fm change keys =
     bind_go (Commitment fm) (\<lambda>(h, fm).
     bind_go (Reset fm) (\<lambda>fm.
     bind_go (NewPartialMPTIncludingKeys fm keys) (\<lambda>(pm, fm).
     bind_go (change fm) (\<lambda>fm.
     bind_go (NewDeltaMPT fm) (\<lambda>(dm, fm).
     bind_go (GetUpdatesForKeys dm keys) (\<lambda>(u, dm).
     bind_go (ProcessUpdates pm u) (\<lambda>pm. Inr (pm, fm))))))))"

lemma tracks_PartialMPT:
  assumes "tracks 0 ks (pm_root pm) (fm_root fm)" and "trie_inv L fm"
  shows "\<exists>pm'. PartialMPT_Commitment pm = Inr (thash (fm_root fm), pm')"
    and "\<forall>k \<in> set ks. PartialMPT_Get pm k = Inr (trie_map fm k)"
proof -
  have p: "prunes (pm_root pm) (fm_root fm)" "hash_ok (pm_root pm)" using assms(1) by (simp_all add: tracks_def)
  then have "pm_root pm \<noteq> NilNode" by auto
  from GetHash_ok [OF p(2) this] prunes_thash [OF p(1)]
  show "\<exists>pm'. PartialMPT_Commitment pm = Inr (thash (fm_root fm), pm')"
    by (simp add: PartialMPT_Commitment_def)
  show "\<forall>k \<in> set ks. PartialMPT_Get pm k = Inr (trie_map fm k)"
    using assms(1) by (simp add: tracks_def PartialMPT_Get_def)
qed

lemma skel_map: "skel (fm_root a) = skel (fm_root b) \<Longrightarrow> trie_map a = trie_map b"
  by (rule skel_same_trie(2))

lemma delta_round_ok:
  assumes fm: "trie_inv L fm" and kvs: "\<forall>(k, v) \<in> set kvs. k \<in> dom (trie_map fm)"
    and ks: "ks \<noteq> []" "\<forall>k \<in> set ks. length k = L"
  shows "\<exists>pm fm'. delta_round fm (insert_all kvs) ks = Inr (pm, fm') \<and> trie_inv L fm'
    \<and> trie_map fm' = trie_map fm ++ map_of (rev kvs) \<and> tracks 0 ks (pm_root pm) (fm_root fm')"
proof -
  obtain fm1 where 1: "Commitment fm = Inr (thash (fm_root fm), fm1)" "trie_inv L fm1" "trie_map fm1 = trie_map fm"
    using Commitment_ok [OF fm] by blast
  obtain fm2 where 2: "Reset fm1 = Inr fm2" "trie_inv L fm2" "trie_map fm2 = trie_map fm1"
    using Reset_ok [OF 1(2)] by blast
  obtain pm fm3 where 3: "NewPartialMPTIncludingKeys fm2 ks = Inr (pm, fm3)" "prunes (pm_root pm) (fm_root fm2)"
      "PartialMPT_Commitment pm = Inr (thash (fm_root fm2), pm)" "trie_inv L fm3" "skel (fm_root fm3) = skel (fm_root fm2)"
      "\<forall>k \<in> set ks. PartialMPT_Get pm k = Inr (trie_map fm2 k)" "hash_ok (pm_root pm)"
    using NewPartialMPTIncludingKeys_ok [OF 2(2) ks] by blast
  have t: "tracks 0 ks (pm_root pm) (fm_root fm3)"
    unfolding tracks_skel [OF 3(5)] using 3(2,6,7) by (simp add: tracks_def PartialMPT_Get_def)
  obtain fm4 where 4: "insert_all kvs fm3 = Inr fm4" "trie_inv L fm4" "delta_ok (fm_root fm3) (fm_root fm4)"
      "trie_map fm4 = trie_map fm3 ++ map_of (rev kvs)"
    using insert_all_ok [OF 3(4) 3(4) delta_ok_refl [OF refl]] kvs skel_map [OF 3(5)] 2(3) 1(3) by fastforce
  obtain dm fm5 u dm' pm' where 5: "NewDeltaMPT fm4 = Inr (dm, fm5)" "GetUpdatesForKeys dm ks = Inr (u, dm')"
      "ProcessUpdates pm u = Inr pm'" "tracks 0 ks (pm_root pm') (fm_root fm4)"
    using ProcessUpdates_ok [OF 3(4) 4(2) delta_from_iff(1) [OF 3(4) 4(2,3)] ks t] by blast
  have 6: "trie_inv L fm5" "skel (fm_root fm5) = skel (fm_root fm4)"
    using NewDeltaMPT_ok [OF 4(2)] 5(1) by auto
  have "delta_round fm (insert_all kvs) ks = Inr (pm', fm5)"
    by (simp add: delta_round_def 1(1) 2(1) 3(1) 4(1) 5(1-3))
  moreover have "trie_map fm5 = trie_map fm ++ map_of (rev kvs)"
    using skel_map [OF 6(2)] 4(4) skel_map [OF 3(5)] 2(3) 1(3) by simp
  ultimately show ?thesis
    using 6 5(4) tracks_skel [OF 6(2)] by blast
qed

text \<open>Rewriting of concrete runs.\<close>

lemmas ex_run = delta_round_def Commitment_def Reset_def NewPartialMPTIncludingKeys_def as_PartialMPT_def
  NewDeltaMPT_def GetUpdatesForKeys_def ProcessUpdates_def PartialMPT_Get_def Get_def Insert_def Delete_def
  copyMultiplePaths.simps [of _ "InteriorNode _ _ _ _ _"] copyMultiplePaths.simps [of _ "Leaf _ _ _ _ _"]
  copyMultiplePaths.simps [of _ EmptyLeafNode]
  copyChangesOnlyHelper.simps [of "InteriorNode _ _ _ _ _"] copyChangesOnlyHelper.simps [of "Leaf _ _ _ _ _"]
  copyChangesOnlyHelper.simps [of EmptyLeafNode]
  getUpdatesHelper.simps [of _ "InteriorNode _ _ _ _ _"] getUpdatesHelper.simps [of _ "Leaf _ _ _ _ _"]
  getUpdatesHelper.simps [of _ EmptyLeafNode] getUpdatesHelper.simps [of _ "Stub _"]
  partialGetHelper.simps [of "InteriorNode _ _ _ _ _"] partialGetHelper.simps [of "Leaf _ _ _ _ _"]
  partialGetHelper.simps [of EmptyLeafNode] partialGetHelper.simps [of NilNode] partialGetHelper.simps [of "Stub _"]
  getHelper.simps [of "InteriorNode _ _ _ _ _"] getHelper.simps [of "Leaf _ _ _ _ _"] getHelper.simps [of EmptyLeafNode]
  insertHelper.simps [of _ _ _ "InteriorNode _ _ _ _ _"] insertHelper.simps [of _ _ _ "Leaf _ _ _ _ _"]
  deleteHelper.simps [of _ _ "InteriorNode _ _ _ _ _"] deleteHelper.simps [of _ _ "Leaf _ _ _ _ _"]
  split_node.simps [of "Leaf _ _ _ _ _" "Leaf _ _ _ _ _"]
  Sum256_go_eq WitnessKeyAndValue_go_eq value_bytes_def ex_bits

section \<open>Properties\<close>

text \<open>
  C5. Deltas bring clients up to date on value updates: after a commitment and a reset, the server
  updates the values of any stored keys; a client that holds the proof for some keys and applies the
  update for them ends with the new commitment and the new values.
\<close>

theorem delta_updates_client:
  assumes "trie_inv L fm" and "\<forall>(k, v) \<in> set kvs. k \<in> dom (trie_map fm)" and "ks \<noteq> []" and "\<forall>k \<in> set ks. length k = L"
  shows "\<exists>pm fm' pm' fm''. delta_round fm (insert_all kvs) ks = Inr (pm, fm')
    \<and> trie_map fm' = trie_map fm ++ map_of (rev kvs)
    \<and> PartialMPT_Commitment pm = Inr (thash (fm_root fm'), pm') \<and> Commitment fm' = Inr (thash (fm_root fm'), fm'')
    \<and> (\<forall>k \<in> set ks. PartialMPT_Get pm k = Inr (trie_map fm' k))"
proof -
  obtain pm fm' where d: "delta_round fm (insert_all kvs) ks = Inr (pm, fm')" "trie_inv L fm'"
      "trie_map fm' = trie_map fm ++ map_of (rev kvs)" "tracks 0 ks (pm_root pm) (fm_root fm')"
    using delta_round_ok [OF assms] by blast
  then show ?thesis
    using tracks_PartialMPT [OF d(4,2)] Commitment_ok [OF d(2)] by blast
qed

theorem delta_updates_client_witness:
  "\<exists>pm fm' pm' fm''. delta_round ex_two (insert_all [(ex_key 0x80, [5]), (ex_key 0x00, [6]), (ex_key 0x80, [9])]) [ex_key 0x80]
      = Inr (pm, fm')
    \<and> PartialMPT_Commitment pm = Inr (thash (fm_root fm'), pm') \<and> Commitment fm' = Inr (thash (fm_root fm'), fm'')
    \<and> PartialMPT_Get pm (ex_key 0x80) = Inr (Some [9])"
  using delta_updates_client [OF trie_inv_ex(1), of "[(ex_key 0x80, [5]), (ex_key 0x00, [6]), (ex_key 0x80, [9])]" "[ex_key 0x80]"]
  by (auto simp: trie_map_ex map_add_def)



text \<open>
  Asking any delta for the updates of no keys panics: the helper returns a stub for the root and
  the type assertion to an interior node fails.
\<close>

lemma GetUpdatesForKeys_no_keys:
  assumes "trie_inv L fm"
  shows "\<exists>dm fm'. NewDeltaMPT fm = Inr (dm, fm') \<and> is_panic (GetUpdatesForKeys dm [])"
proof -
  let ?c = "NewInteriorNode (changes_of (GetLeftChild (fm_root fm))) (changes_of (GetRightChild (fm_root fm)))"
  have "GetHash ?c = Inr (thash ?c, cached ?c)" by (rule GetHash_ok) simp_all
  then have "is_panic (GetUpdatesForKeys \<lparr>dm_root = ?c\<rparr> [])"
    by (simp add: GetUpdatesForKeys_def getUpdatesHelper.simps [of _ "InteriorNode _ _ _ _ _"] del: GetHash.simps cached.simps)
  then show ?thesis using NewDeltaMPT_ok [OF assms] by blast
qed

end
