(* ===== verification/Chain_Hash.thy ===== *)
theory Chain_Hash
  imports Fast_Sha256 Bv_Utils
begin

text \<open>
  \<open>bitcoin/chainhash\<close>: the 32-byte hash type with its byte-reversed hexadecimal form, and the
  single and double SHA-256 of the standard library. A \<open>*Hash\<close> that may be nil is an
  \<open>option\<close>. The hexadecimal coder is the one of \<open>encoding/hex\<close>.
\<close>

section \<open>\<open>encoding/hex\<close>\<close>

definition hextable :: string where
  "hextable = ''0123456789abcdef''"

definition hex_EncodeToString :: "bytes \<Rightarrow> string" where
  "hex_EncodeToString bs = concat (map (\<lambda>b. [hextable ! (unat b div 16), hextable ! (unat b mod 16)]) bs)"

definition fromHexChar :: "char \<Rightarrow> nat option" where
  "fromHexChar c =
     (let n = of_char c :: nat
      in if 48 \<le> n \<and> n \<le> 57 then Some (n - 48)
         else if 97 \<le> n \<and> n \<le> 102 then Some (n - 97 + 10)
         else if 65 \<le> n \<and> n \<le> 70 then Some (n - 65 + 10)
         else None)"

fun hex_Decode :: "string \<Rightarrow> bytes go" where
  "hex_Decode [] = Inr []"
| "hex_Decode [c] = (if fromHexChar c = None then Inl (GoError ''invalid byte'') else Inl (GoError ''odd length''))"
| "hex_Decode (c # d # s) =
     (case (fromHexChar c, fromHexChar d) of
        (Some x, Some y) \<Rightarrow> bind_go (hex_Decode s) (\<lambda>bs. Inr (word_of_nat (16 * x + y) # bs))
      | _ \<Rightarrow> Inl (GoError ''invalid byte''))"

section \<open>The hash type\<close>

definition HashSize :: nat where
  "HashSize = 32"

definition MaxHashStringSize :: nat where
  "MaxHashStringSize = HashSize * 2"

definition hash_String :: "bytes \<Rightarrow> string" where
  "hash_String hash = hex_EncodeToString (fold swap_at [0..<HashSize div 2] hash)"

definition CloneBytes :: "bytes \<Rightarrow> bytes" where
  "CloneBytes hash = copy_bytes (zeros HashSize) hash"

definition SetBytes :: "bytes \<Rightarrow> bytes \<Rightarrow> bytes go" where
  "SetBytes hash newHash =
     (if length newHash \<noteq> HashSize then Inl (GoError ''invalid hash length'')
      else Inr (copy_bytes hash newHash))"

fun IsEqual :: "bytes option \<Rightarrow> bytes option \<Rightarrow> bool" where
  "IsEqual None None = True"
| "IsEqual (Some hash) (Some target) = (hash = target)"
| "IsEqual _ _ = False"

definition NewHash :: "bytes \<Rightarrow> bytes go" where
  "NewHash newHash = bind_go (SetBytes (zeros HashSize) newHash) Inr"

text \<open>
  The decoder pads an odd string with a leading zero digit, decodes into the tail of a zeroed hash
  and writes it to the destination in reversed byte order, two positions per iteration.
\<close>

definition reverse_step :: "bytes \<Rightarrow> nat \<Rightarrow> bytes \<Rightarrow> bytes" where
  "reverse_step reversedHash i dst =
     dst[i := reversedHash ! (HashSize - 1 - i), HashSize - 1 - i := reversedHash ! i]"

definition hash_Decode :: "bytes \<Rightarrow> string \<Rightarrow> bytes go" where
  "hash_Decode dst src =
     (if length src > MaxHashStringSize then Inl (GoError ''ErrHashStrSize'')
      else let srcBytes = (if length src mod 2 = 0 then src else CHR ''0'' # src)
           in bind_go (hex_Decode srcBytes) (\<lambda>decoded.
                let reversedHash = zeros (HashSize - length srcBytes div 2) @ decoded
                in Inr (fold (reverse_step reversedHash) [0..<HashSize div 2] dst)))"

definition NewHashFromStr :: "string \<Rightarrow> bytes go" where
  "NewHashFromStr hash = hash_Decode (zeros HashSize) hash"

section \<open>Hash functions\<close>

definition HashB :: "bytes \<Rightarrow> bytes" where
  "HashB b = fips_sha256 b"

definition HashH :: "bytes \<Rightarrow> bytes" where
  "HashH b = fips_sha256 b"

definition DoubleHashB :: "bytes \<Rightarrow> bytes" where
  "DoubleHashB b = fips_sha256 (fips_sha256 b)"

definition DoubleHashH :: "bytes \<Rightarrow> bytes" where
  "DoubleHashH b = fips_sha256 (fips_sha256 b)"

section \<open>Lemmas\<close>

lemma length_fips_sha256 [simp, len_simps]: "length (fips_sha256 b) = 32"
  using length_Sum256 [of b] by (simp only: Sum256_fips)

lemma length_DoubleHashH [simp, len_simps]: "length (DoubleHashH b) = 32" "length (DoubleHashB b) = 32"
  by (simp_all add: DoubleHashH_def DoubleHashB_def)

lemma fromHexChar_hextable:
  assumes "n < 16"
  shows "fromHexChar (hextable ! n) = Some n"
proof -
  have "\<forall>n \<in> set [0..<16]. fromHexChar (hextable ! n) = Some n"
    by code_simp
  with assms show ?thesis by simp
qed

lemma length_hex_Encode [simp, len_simps]: "length (hex_EncodeToString bs) = 2 * length bs"
  by (induction bs) (simp_all add: hex_EncodeToString_def)

lemma hex_Decode_Encode [simp, codec_simps]: "hex_Decode (hex_EncodeToString bs) = Inr bs"
proof (induction bs)
  case Nil
  show ?case by (simp add: hex_EncodeToString_def)
next
  case (Cons b bs)
  have "unat b div 16 < 16" "unat b mod 16 < 16"
    using unat_byte [of b] by (simp_all add: less_mult_imp_div_less)
  moreover have "(word_of_nat (16 * (unat b div 16) + unat b mod 16) :: byte) = b"
    by (simp only: mult_div_mod_eq) simp
  ultimately show ?case
    using Cons by (simp add: hex_EncodeToString_def fromHexChar_hextable)
qed

lemma hex_Decode_length: "hex_Decode s = Inr bs \<Longrightarrow> length s = 2 * length bs"
  by (induction s arbitrary: bs rule: hex_Decode.induct)
    (auto simp: go_simps split: if_splits option.splits)

lemma reverse_steps:
  assumes "length rh = 32" and "length dst = 32" and "n \<le> 16" and "j < 32"
  shows "fold (reverse_step rh) [0..<n] dst ! j = (if j < n \<or> 31 - j < n then rh ! (31 - j) else dst ! j)"
  using assms(3)
proof (induction n)
  case (Suc n)
  have len: "length (fold (reverse_step rh) is dst) = 32" for "is"
    using assms(2) by (induction "is" arbitrary: dst) (simp_all add: reverse_step_def)
  let ?d = "fold (reverse_step rh) [0..<n] dst"
  have "fold (reverse_step rh) [0..<Suc n] dst = ?d[n := rh ! (31 - n), 31 - n := rh ! n]"
    by (simp add: reverse_step_def HashSize_def)
  then show ?case
    using Suc assms(4) len [of "[0..<n]"] by (auto simp: nth_list_update less_Suc_eq)
qed simp

lemma reverse_steps_rev:
  assumes "length rh = 32" and "length dst = 32"
  shows "fold (reverse_step rh) [0..<HashSize div 2] dst = rev rh"
proof (rule nth_equalityI)
  have len: "length (fold (reverse_step rh) is dst) = length dst" for "is"
    by (induction "is" arbitrary: dst) (simp_all add: reverse_step_def)
  then show l: "length (fold (reverse_step rh) [0..<HashSize div 2] dst) = length (rev rh)"
    by (simp add: assms)
  fix j
  assume "j < length (fold (reverse_step rh) [0..<HashSize div 2] dst)"
  then have j: "j < 32" by (simp add: l assms)
  then show "fold (reverse_step rh) [0..<HashSize div 2] dst ! j = rev rh ! j"
    using reverse_steps [OF assms, of 16 j] by (auto simp: HashSize_def rev_nth assms(1))
qed

lemma hash_String_rev: "length h = 32 \<Longrightarrow> hash_String h = hex_EncodeToString (rev h)"
  using fold_swap_rev [of h] by (simp add: hash_String_def HashSize_def)

lemma NewHash_ok [simp]: "length h = 32 \<Longrightarrow> NewHash h = Inr h"
  by (simp add: NewHash_def SetBytes_def HashSize_def)

lemma NewHash_Inr: "NewHash b = Inr h \<longleftrightarrow> length b = 32 \<and> h = b"
  by (auto simp: NewHash_def SetBytes_def HashSize_def)

lemma CloneBytes_id [simp]: "length h = 32 \<Longrightarrow> CloneBytes h = h"
  by (simp add: CloneBytes_def HashSize_def)

lemma NewHashFromStr_String: "length h = 32 \<Longrightarrow> NewHashFromStr (hash_String h) = Inr h"
  by (simp add: NewHashFromStr_def hash_Decode_def hash_String_rev MaxHashStringSize_def HashSize_def
      reverse_steps_rev [unfolded HashSize_def, simplified])

lemma NewHashFromStr_length:
  assumes "NewHashFromStr s = Inr h"
  shows "length s \<le> 64 \<and> length h = 32"
proof -
  have len: "length (fold (reverse_step rh) is dst) = length dst" for rh "is" dst
    by (induction "is" arbitrary: dst) (simp_all add: reverse_step_def)
  show ?thesis
    using assms by (auto simp: NewHashFromStr_def hash_Decode_def MaxHashStringSize_def HashSize_def Let_def
        go_simps len split: if_splits)
qed

lemma IsEqual_iff [simp]: "IsEqual a b \<longleftrightarrow> a = b"
  by (cases a; cases b) simp_all

end
