(* ===== verification/Btc_Codec.thy ===== *)
theory Btc_Codec
  imports Codec Chain_Hash
begin

text \<open>
  \<open>bitcoin/wire/common.go\<close>: the primitive encodings of the Bitcoin protocol. An \<open>io.Writer\<close>
  is the bytes written to it (writes to a \<open>bytes.Buffer\<close> do not fail) and an \<open>io.Reader\<close> is the
  list of unread bytes. The free list of eight-byte buffers only saves allocations and leaves no trace
  in the values read or written. The element switch of \<open>readElement\<close> and \<open>writeElement\<close> on the
  dynamic type is a case distinction on \<open>elem_type\<close> and \<open>element\<close>; a \<open>time.Time\<close> is its
  Unix time in seconds. Signed integers are words read with \<open>sint\<close>. The protocol version is an
  argument only where the code looks at it.
\<close>

section \<open>Integers in either byte order\<close>

datatype byte_order = LittleEndian | BigEndian

fun order_get :: "byte_order \<Rightarrow> bytes \<Rightarrow> 'a::len word" where
  "order_get LittleEndian buf = word_of_nat (of_le buf)"
| "order_get BigEndian buf = word_of_nat (of_be buf)"

fun order_put :: "byte_order \<Rightarrow> nat \<Rightarrow> 'a::len word \<Rightarrow> bytes" where
  "order_put LittleEndian n v = to_le n (unat v)"
| "order_put BigEndian n v = to_be n (unat v)"

definition Uint8 :: "bytes \<Rightarrow> (byte \<times> bytes) go" where
  "Uint8 r = bind_go (readFull 1 r) (\<lambda>(buf, r). Inr (buf ! 0, r))"

definition Uint16 :: "byte_order \<Rightarrow> bytes \<Rightarrow> (16 word \<times> bytes) go" where
  "Uint16 byteOrder r = bind_go (readFull 2 r) (\<lambda>(buf, r). Inr (order_get byteOrder buf, r))"

definition Uint32 :: "byte_order \<Rightarrow> bytes \<Rightarrow> (32 word \<times> bytes) go" where
  "Uint32 byteOrder r = bind_go (readFull 4 r) (\<lambda>(buf, r). Inr (order_get byteOrder buf, r))"

definition Uint64 :: "byte_order \<Rightarrow> bytes \<Rightarrow> (64 word \<times> bytes) go" where
  "Uint64 byteOrder r = bind_go (readFull 8 r) (\<lambda>(buf, r). Inr (order_get byteOrder buf, r))"

definition PutUint8 :: "byte \<Rightarrow> bytes" where
  "PutUint8 v = [v]"

definition PutUint16 :: "byte_order \<Rightarrow> 16 word \<Rightarrow> bytes" where
  "PutUint16 byteOrder v = order_put byteOrder 2 v"

definition PutUint32 :: "byte_order \<Rightarrow> 32 word \<Rightarrow> bytes" where
  "PutUint32 byteOrder v = order_put byteOrder 4 v"

definition PutUint64 :: "byte_order \<Rightarrow> 64 word \<Rightarrow> bytes" where
  "PutUint64 byteOrder v = order_put byteOrder 8 v"

section \<open>Message errors\<close>

definition messageError :: "string \<Rightarrow> string \<Rightarrow> go_exn" where
  "messageError f desc = GoError (if f \<noteq> '''' then f @ '': '' @ desc else desc)"

section \<open>Elements\<close>

datatype elem_type =
    TInt32 | TUint32 | TInt64 | TUint64 | TBool | TUint32Time | TInt64Time | TChecksum | TCommand | TIP
  | THash | TServiceFlag | TInvType | TBitcoinNet | TBloomUpdateType | TRejectCode

datatype element =
    EInt32 "32 word" | EUint32 "32 word" | EInt64 "64 word" | EUint64 "64 word" | EBool bool
  | EUint32Time int | EInt64Time int | EChecksum bytes | ECommand bytes | EIP bytes
  | EHash bytes | EServiceFlag "64 word" | EInvType "32 word" | EBitcoinNet "32 word"
  | EBloomUpdateType byte | ERejectCode byte

fun elem_type_of :: "element \<Rightarrow> elem_type" where
  "elem_type_of (EInt32 _) = TInt32"
| "elem_type_of (EUint32 _) = TUint32"
| "elem_type_of (EInt64 _) = TInt64"
| "elem_type_of (EUint64 _) = TUint64"
| "elem_type_of (EBool _) = TBool"
| "elem_type_of (EUint32Time _) = TUint32Time"
| "elem_type_of (EInt64Time _) = TInt64Time"
| "elem_type_of (EChecksum _) = TChecksum"
| "elem_type_of (ECommand _) = TCommand"
| "elem_type_of (EIP _) = TIP"
| "elem_type_of (EHash _) = THash"
| "elem_type_of (EServiceFlag _) = TServiceFlag"
| "elem_type_of (EInvType _) = TInvType"
| "elem_type_of (EBitcoinNet _) = TBitcoinNet"
| "elem_type_of (EBloomUpdateType _) = TBloomUpdateType"
| "elem_type_of (ERejectCode _) = TRejectCode"

definition CommandSize :: nat where
  "CommandSize = 12"

fun readElement :: "elem_type \<Rightarrow> bytes \<Rightarrow> (element \<times> bytes) go" where
  "readElement TInt32 r = bind_go (Uint32 LittleEndian r) (\<lambda>(rv, r). Inr (EInt32 rv, r))"
| "readElement TUint32 r = bind_go (Uint32 LittleEndian r) (\<lambda>(rv, r). Inr (EUint32 rv, r))"
| "readElement TInt64 r = bind_go (Uint64 LittleEndian r) (\<lambda>(rv, r). Inr (EInt64 rv, r))"
| "readElement TUint64 r = bind_go (Uint64 LittleEndian r) (\<lambda>(rv, r). Inr (EUint64 rv, r))"
| "readElement TBool r = bind_go (Uint8 r) (\<lambda>(rv, r). Inr (EBool (if rv = 0x00 then False else True), r))"
| "readElement TUint32Time r = bind_go (Uint32 LittleEndian r) (\<lambda>(rv, r). Inr (EUint32Time (uint rv), r))"
| "readElement TInt64Time r = bind_go (Uint64 LittleEndian r) (\<lambda>(rv, r). Inr (EInt64Time (sint rv), r))"
| "readElement TChecksum r = bind_go (readFull 4 r) (\<lambda>(e, r). Inr (EChecksum e, r))"
| "readElement TCommand r = bind_go (readFull CommandSize r) (\<lambda>(e, r). Inr (ECommand e, r))"
| "readElement TIP r = bind_go (readFull 16 r) (\<lambda>(e, r). Inr (EIP e, r))"
| "readElement THash r = bind_go (readFull HashSize r) (\<lambda>(e, r). Inr (EHash e, r))"
| "readElement TServiceFlag r = bind_go (Uint64 LittleEndian r) (\<lambda>(rv, r). Inr (EServiceFlag rv, r))"
| "readElement TInvType r = bind_go (Uint32 LittleEndian r) (\<lambda>(rv, r). Inr (EInvType rv, r))"
| "readElement TBitcoinNet r = bind_go (Uint32 LittleEndian r) (\<lambda>(rv, r). Inr (EBitcoinNet rv, r))"
| "readElement TBloomUpdateType r = bind_go (Uint8 r) (\<lambda>(rv, r). Inr (EBloomUpdateType rv, r))"
| "readElement TRejectCode r = bind_go (Uint8 r) (\<lambda>(rv, r). Inr (ERejectCode rv, r))"

fun readElements :: "elem_type list \<Rightarrow> bytes \<Rightarrow> (element list \<times> bytes) go" where
  "readElements [] r = Inr ([], r)"
| "readElements (t # ts) r =
     bind_go (readElement t r) (\<lambda>(e, r). bind_go (readElements ts r) (\<lambda>(es, r). Inr (e # es, r)))"

text \<open>
  The writer has no case for the two time types; their fallback \<open>binary.Write\<close> refuses a
  \<open>time.Time\<close>, which is not of fixed size.
\<close>

fun writeElement :: "element \<Rightarrow> bytes go" where
  "writeElement (EInt32 e) = Inr (PutUint32 LittleEndian e)"
| "writeElement (EUint32 e) = Inr (PutUint32 LittleEndian e)"
| "writeElement (EInt64 e) = Inr (PutUint64 LittleEndian e)"
| "writeElement (EUint64 e) = Inr (PutUint64 LittleEndian e)"
| "writeElement (EBool e) = Inr (if e then PutUint8 0x01 else PutUint8 0x00)"
| "writeElement (EChecksum e) = Inr e"
| "writeElement (ECommand e) = Inr e"
| "writeElement (EIP e) = Inr e"
| "writeElement (EHash e) = Inr e"
| "writeElement (EServiceFlag e) = Inr (PutUint64 LittleEndian e)"
| "writeElement (EInvType e) = Inr (PutUint32 LittleEndian e)"
| "writeElement (EBitcoinNet e) = Inr (PutUint32 LittleEndian e)"
| "writeElement (EBloomUpdateType e) = Inr (PutUint8 e)"
| "writeElement (ERejectCode e) = Inr (PutUint8 e)"
| "writeElement _ = Inl (GoError ''binary.Write: invalid type'')"

fun writeElements :: "element list \<Rightarrow> bytes go" where
  "writeElements [] = Inr []"
| "writeElements (e # es) =
     bind_go (writeElement e) (\<lambda>w. bind_go (writeElements es) (\<lambda>ws. Inr (w @ ws)))"

section \<open>Variable length integers, strings and byte slices\<close>

definition MaxVarIntPayload :: nat where
  "MaxVarIntPayload = 9"

definition MaxMessagePayload :: nat where
  "MaxMessagePayload = 1024 * 1024 * 32"

abbreviation errNonCanonicalVarInt :: "'a go" where
  "errNonCanonicalVarInt \<equiv> Inl (messageError ''ReadVarInt'' ''non-canonical varint'')"

definition ReadVarInt :: "bytes \<Rightarrow> (64 word \<times> bytes) go" where
  "ReadVarInt r =
     bind_go (Uint8 r) (\<lambda>(discriminant, r).
       if discriminant = 0xff then
         bind_go (Uint64 LittleEndian r) (\<lambda>(rv, r).
           if rv < 0x100000000 then errNonCanonicalVarInt else Inr (rv, r))
       else if discriminant = 0xfe then
         bind_go (Uint32 LittleEndian r) (\<lambda>(sv, r). let rv = ucast sv in
           if rv < 0x10000 then errNonCanonicalVarInt else Inr (rv, r))
       else if discriminant = 0xfd then
         bind_go (Uint16 LittleEndian r) (\<lambda>(sv, r). let rv = ucast sv in
           if rv < 0xfd then errNonCanonicalVarInt else Inr (rv, r))
       else Inr (ucast discriminant, r))"

definition WriteVarInt :: "64 word \<Rightarrow> bytes" where
  "WriteVarInt v =
     (if v < 0xfd then PutUint8 (ucast v)
      else if v \<le> 0xffff then PutUint8 0xfd @ PutUint16 LittleEndian (ucast v)
      else if v \<le> 0xffffffff then PutUint8 0xfe @ PutUint32 LittleEndian (ucast v)
      else PutUint8 0xff @ PutUint64 LittleEndian v)"

definition VarIntSerializeSize :: "64 word \<Rightarrow> nat" where
  "VarIntSerializeSize v =
     (if v < 0xfd then 1
      else if v \<le> 0xffff then 3
      else if v \<le> 0xffffffff then 5
      else 9)"

definition ReadVarString :: "bytes \<Rightarrow> (bytes \<times> bytes) go" where
  "ReadVarString r =
     bind_go (ReadVarInt r) (\<lambda>(count, r).
       if unat count > MaxMessagePayload
       then Inl (messageError ''ReadVarString'' ''variable length string is too long'')
       else readFull (unat count) r)"

definition WriteVarString :: "bytes \<Rightarrow> bytes" where
  "WriteVarString str = WriteVarInt (word_of_nat (length str)) @ str"

definition ReadVarBytes :: "nat \<Rightarrow> bytes \<Rightarrow> (bytes \<times> bytes) go" where
  "ReadVarBytes maxAllowed r =
     bind_go (ReadVarInt r) (\<lambda>(count, r).
       if unat count > maxAllowed
       then Inl (messageError ''ReadVarBytes'' ''larger than the max allowed size'')
       else readFull (unat count) r)"

definition WriteVarBytes :: "bytes \<Rightarrow> bytes" where
  "WriteVarBytes bytes = WriteVarInt (word_of_nat (length bytes)) @ bytes"

text \<open>The random number is read big endian from a source of random bytes.\<close>

definition randomUint64 :: "bytes \<Rightarrow> (64 word \<times> bytes) go" where
  "randomUint64 r = Uint64 BigEndian r"

section \<open>Integer encodings are inverse to each other\<close>

named_theorems read_iffs

lemma guard_eq_Inr [go_simps]: "(if c then Inl e else m) = Inr y \<longleftrightarrow> \<not> c \<and> m = Inr y"
  by simp

lemma readFull_iff [read_iffs]: "readFull n b = Inr (x, r) \<longleftrightarrow> length x = n \<and> b = x @ r"
  using readFull_Inr [of n b x r] by auto

lemma order_get_put:
  assumes "LENGTH('a) = 8 * n"
  shows "order_get byteOrder (order_put byteOrder n (v :: 'a::len word)) = v"
proof -
  have "unat v < 2 ^ LENGTH('a)" by (rule unsigned_less)
  also have "(2 :: nat) ^ LENGTH('a) = 256 ^ n" by (simp add: assms power_mult)
  finally have "unat v mod 256 ^ n = unat v" by simp
  then show ?thesis
    by (cases byteOrder) (simp_all add: word_unat_eq_iff del: of_nat_mod)
qed

lemma order_put_get:
  assumes "LENGTH('a) = 8 * n" and "length buf = n"
  shows "order_put byteOrder n (order_get byteOrder buf :: 'a::len word) = buf"
proof -
  have p: "(2 :: nat) ^ LENGTH('a) = 256 ^ n" by (simp add: assms power_mult)
  have "unat (word_of_nat (of_le buf) :: 'a word) = of_le buf" "unat (word_of_nat (of_be buf) :: 'a word) = of_be buf"
    using of_le_bound [of buf] of_be_bound [of buf] by (simp_all add: unat_of_nat p assms(2))
  then show ?thesis
    by (cases byteOrder) (simp_all add: to_le_of_le to_be_of_be assms(2))
qed

lemma length_order_put [simp, len_simps]: "length (order_put byteOrder n v) = n"
  by (cases byteOrder) simp_all

lemma length_PutUint [simp, len_simps]:
  "length (PutUint8 b) = 1" "length (PutUint16 byteOrder v) = 2"
  "length (PutUint32 byteOrder w) = 4" "length (PutUint64 byteOrder x) = 8"
  by (simp_all add: PutUint8_def PutUint16_def PutUint32_def PutUint64_def)

lemma order_get_read:
  assumes "LENGTH('a) = 8 * n"
  shows "(length x = n \<and> b = x @ r \<and> order_get byteOrder x = (v :: 'a::len word))
    \<longleftrightarrow> x = order_put byteOrder n v \<and> b = order_put byteOrder n v @ r"
  using order_get_put [OF assms, of byteOrder v] order_put_get [OF assms, of x byteOrder] by auto

lemma Uint8_iff [read_iffs]: "Uint8 b = Inr (v, r) \<longleftrightarrow> b = PutUint8 v @ r"
  by (auto simp: Uint8_def PutUint8_def go_simps readFull_iff length_Suc_conv)

lemma Uint_iff [read_iffs]:
  "Uint16 byteOrder b = Inr (v, r) \<longleftrightarrow> b = PutUint16 byteOrder v @ r"
  "Uint32 byteOrder b = Inr (w, r) \<longleftrightarrow> b = PutUint32 byteOrder w @ r"
  "Uint64 byteOrder b = Inr (x, r) \<longleftrightarrow> b = PutUint64 byteOrder x @ r"
  using order_get_read [of 2 _ b r byteOrder v] order_get_read [of 4 _ b r byteOrder w]
    order_get_read [of 8 _ b r byteOrder x]
  by (auto simp: Uint16_def Uint32_def Uint64_def PutUint16_def PutUint32_def PutUint64_def go_simps readFull_iff)

lemma Uint_put [simp, codec_simps]:
  "Uint8 (PutUint8 a @ r) = Inr (a, r)"
  "Uint16 byteOrder (PutUint16 byteOrder v @ r) = Inr (v, r)"
  "Uint32 byteOrder (PutUint32 byteOrder w @ r) = Inr (w, r)"
  "Uint64 byteOrder (PutUint64 byteOrder x @ r) = Inr (x, r)"
  by (simp_all add: read_iffs)

lemma panic_free_Uint [parser_intros]:
  "panic_free (Uint8 b)" "panic_free (Uint16 byteOrder b)" "panic_free (Uint32 byteOrder b)" "panic_free (Uint64 byteOrder b)"
  by (auto simp: Uint8_def Uint16_def Uint32_def Uint64_def intro!: parser_intros)

section \<open>Variable length integers\<close>

lemma unat_ucast_self: "unat v < 2 ^ LENGTH('b) \<Longrightarrow> unat (ucast (v :: 'a::len word) :: 'b::len word) = unat v"
  by (simp only: unsigned_ucast_eq take_bit_nat_eq_self)

lemma ucast_unat_eq:
  assumes "unat v < 2 ^ LENGTH('b)"
  shows "ucast (ucast v :: 'b::len word) = (v :: 'a::len word)"
proof -
  have "unat v < 2 ^ LENGTH('a)" by (rule unsigned_less)
  then show ?thesis
    by (simp only: word_unat_eq_iff unat_ucast_self assms)
qed

lemma ReadVarInt_WriteVarInt [simp, codec_simps]: "ReadVarInt (WriteVarInt v @ r) = Inr (v, r)"
proof -
  consider "v < 0xfd" | "0xfd \<le> v" "v \<le> 0xffff" | "0xffff < v" "v \<le> 0xffffffff" | "0xffffffff < v"
    by (metis not_le)
  then show ?thesis
  proof cases
    case 1
    then have "unat v < 253" by (simp add: word_less_nat_alt)
    then have "ucast (ucast v :: byte) = v" "unat (ucast v :: byte) < 253"
      using ucast_unat_eq [of v, where 'b = 8] unat_ucast_self [of v, where 'b = 8] by simp_all
    then show ?thesis
      using 1 by (auto simp: ReadVarInt_def WriteVarInt_def word_unat_eq_iff)
  next
    case 2
    then have "unat v < 65536" "\<not> v < 0xfd" by (simp_all add: word_le_nat_alt not_less)
    then show ?thesis
      using 2 ucast_unat_eq [of v, where 'b = 16] by (simp add: ReadVarInt_def WriteVarInt_def Let_def)
  next
    case 3
    then have "unat v < 4294967296" "\<not> v < 0x10000" "\<not> v < 0xfd" "\<not> v \<le> 0xffff"
      by (simp_all add: word_le_nat_alt word_less_nat_alt)
    then show ?thesis
      using 3 ucast_unat_eq [of v, where 'b = 32] by (simp add: ReadVarInt_def WriteVarInt_def Let_def)
  next
    case 4
    then have "\<not> v < 0x100000000" "\<not> v < 0xfd" "\<not> v \<le> 0xffff" "\<not> v \<le> 0xffffffff"
      by (simp_all add: word_le_nat_alt word_less_nat_alt)
    then show ?thesis
      by (simp add: ReadVarInt_def WriteVarInt_def)
  qed
qed

lemma WriteVarInt_wide:
  "0x100000000 \<le> v \<Longrightarrow> WriteVarInt v = PutUint8 0xff @ PutUint64 LittleEndian v"
  by (simp add: WriteVarInt_def word_le_nat_alt word_less_nat_alt)

lemma WriteVarInt_32:
  assumes "0x10000 \<le> (ucast w :: 64 word)"
  shows "WriteVarInt (ucast w) = PutUint8 0xfe @ PutUint32 LittleEndian w"
proof -
  have u: "unat (ucast w :: 64 word) = unat w" using unat_word32 [of w] by (intro unat_ucast_self) simp
  have "ucast (ucast w :: 64 word) = w" using unat_word32 [of w] by (intro ucast_unat_eq) simp
  then show ?thesis
    using assms unat_word32 [of w] by (simp add: WriteVarInt_def word_le_nat_alt word_less_nat_alt u)
qed

lemma WriteVarInt_16:
  assumes "0xfd \<le> (ucast w :: 64 word)"
  shows "WriteVarInt (ucast w) = PutUint8 0xfd @ PutUint16 LittleEndian w"
proof -
  have l: "unat w < 65536" using unsigned_less [of w, where 'a = nat] by simp
  have u: "unat (ucast w :: 64 word) = unat w" using l by (intro unat_ucast_self) simp
  have "ucast (ucast w :: 64 word) = w" using l by (intro ucast_unat_eq) simp
  then show ?thesis
    using assms l by (simp add: WriteVarInt_def word_le_nat_alt word_less_nat_alt u)
qed

lemma WriteVarInt_8:
  assumes "w \<noteq> 0xff" "w \<noteq> 0xfe" "w \<noteq> 0xfd"
  shows "WriteVarInt (ucast w) = PutUint8 w"
proof -
  have u: "unat (ucast w :: 64 word) = unat w" using unat_byte [of w] by (intro unat_ucast_self) simp
  have "ucast (ucast w :: 64 word) = w" using unat_byte [of w] by (intro ucast_unat_eq) simp
  moreover have "unat w < 253" using assms unat_byte [of w] by (simp add: word_unat_eq_iff)
  ultimately show ?thesis
    by (simp add: WriteVarInt_def word_less_nat_alt u)
qed

lemma ReadVarInt_sound: "ReadVarInt b = Inr (v, r) \<Longrightarrow> b = WriteVarInt v @ r"
  by (auto simp: ReadVarInt_def go_simps read_iffs Let_def WriteVarInt_wide WriteVarInt_32 WriteVarInt_16 WriteVarInt_8
      not_less split: if_splits)

lemma ReadVarInt_iff [read_iffs]: "ReadVarInt b = Inr (v, r) \<longleftrightarrow> b = WriteVarInt v @ r"
  using ReadVarInt_sound [of b v r] by auto

lemma length_WriteVarInt [simp, len_simps]: "length (WriteVarInt v) = VarIntSerializeSize v"
  by (simp add: WriteVarInt_def VarIntSerializeSize_def)

lemma WriteVarInt_0 [simp]: "WriteVarInt 0 = [0]"
  by (simp add: WriteVarInt_def PutUint8_def)

lemma VarIntSerializeSize_bounds: "1 \<le> VarIntSerializeSize v" "VarIntSerializeSize v \<le> MaxVarIntPayload"
  by (simp_all add: VarIntSerializeSize_def MaxVarIntPayload_def)

lemma panic_free_ReadVarInt [parser_intros]: "panic_free (ReadVarInt b)"
  by (auto simp: ReadVarInt_def messageError_def Let_def intro!: parser_intros)

interpretation varint: canonical_codec WriteVarInt ReadVarInt "\<lambda>_. True"
  by unfold_locales (simp_all add: ReadVarInt_iff)

section \<open>Strings and byte slices\<close>

lemma unat_length: "length xs < 2 ^ 64 \<Longrightarrow> unat (word_of_nat (length xs) :: 64 word) = length xs"
  by (simp add: unat_of_nat)

lemma word_of_length_iff:
  "m < 2 ^ 64 \<Longrightarrow> (length x = unat v \<and> unat v \<le> m) \<longleftrightarrow> (v = (word_of_nat (length x) :: 64 word) \<and> length x \<le> m)"
  by (auto simp: unat_of_nat word_unat_eq_iff)

lemma ReadVarBytes_iff [read_iffs]:
  assumes "m < 2 ^ 64"
  shows "ReadVarBytes m b = Inr (x, r) \<longleftrightarrow> length x \<le> m \<and> b = WriteVarBytes x @ r"
proof -
  have "ReadVarBytes m b = Inr (x, r) \<longleftrightarrow> (\<exists>v. (length x = unat v \<and> unat v \<le> m) \<and> b = WriteVarInt v @ x @ r)"
    by (simp add: ReadVarBytes_def go_simps read_iffs not_less) blast
  then show ?thesis
    by (auto simp: word_of_length_iff [OF assms] WriteVarBytes_def)
qed

lemma ReadVarString_iff [read_iffs]:
  "ReadVarString b = Inr (x, r) \<longleftrightarrow> length x \<le> MaxMessagePayload \<and> b = WriteVarString x @ r"
  using ReadVarBytes_iff [of MaxMessagePayload b x r]
  by (simp add: ReadVarBytes_def ReadVarString_def WriteVarBytes_def WriteVarString_def go_simps split_def)
    (simp add: MaxMessagePayload_def)

lemma ReadVarBytes_Write [simp, codec_simps]:
  "m < 2 ^ 64 \<Longrightarrow> length x \<le> m \<Longrightarrow> ReadVarBytes m (WriteVarBytes x @ r) = Inr (x, r)"
  "length s \<le> MaxMessagePayload \<Longrightarrow> ReadVarString (WriteVarString s @ r) = Inr (s, r)"
  by (simp_all add: read_iffs)

lemma length_WriteVarBytes [simp, len_simps]:
  "length (WriteVarBytes x) = VarIntSerializeSize (word_of_nat (length x)) + length x"
  "length (WriteVarString x) = VarIntSerializeSize (word_of_nat (length x)) + length x"
  by (simp_all add: WriteVarBytes_def WriteVarString_def)

lemma panic_free_ReadVarBytes [parser_intros]: "panic_free (ReadVarBytes m b)" "panic_free (ReadVarString b)"
  by (auto simp: ReadVarBytes_def ReadVarString_def messageError_def intro!: parser_intros)

interpretation varstring: canonical_codec WriteVarString ReadVarString "\<lambda>x. length x \<le> MaxMessagePayload"
  by unfold_locales (simp_all add: ReadVarString_iff)

section \<open>Elements\<close>

fun elem_ok :: "element \<Rightarrow> bool" where
  "elem_ok (EChecksum e) = (length e = 4)"
| "elem_ok (ECommand e) = (length e = CommandSize)"
| "elem_ok (EIP e) = (length e = 16)"
| "elem_ok (EHash e) = (length e = HashSize)"
| "elem_ok (EUint32Time _) = False"
| "elem_ok (EInt64Time _) = False"
| "elem_ok _ = True"

lemma readElement_writeElement:
  "elem_ok e \<Longrightarrow> writeElement e = Inr w \<Longrightarrow> readElement (elem_type_of e) (w @ r) = Inr (e, r)"
  by (cases e) auto

lemma writeElement_total: "elem_ok e \<Longrightarrow> \<exists>w. writeElement e = Inr w"
  by (cases e) auto

lemma readElements_writeElements:
  "list_all elem_ok es \<Longrightarrow> \<exists>w. writeElements es = Inr w \<and> (\<forall>r. readElements (map elem_type_of es) (w @ r) = Inr (es, r))"
proof (induction es)
  case (Cons e es)
  then obtain w where "writeElement e = Inr w" using writeElement_total [of e] by auto
  with Cons show ?case by (auto simp: readElement_writeElement)
qed simp

lemma panic_free_readElement [parser_intros]: "panic_free (readElement t b)"
  by (cases t) (auto intro!: parser_intros)

lemma panic_free_readElements [parser_intros]: "panic_free (readElements ts b)"
  by (induction ts arbitrary: b) (auto intro!: parser_intros)

end
