(* ===== verification/Btc_Tx.thy ===== *)
theory Btc_Tx
  imports Btc_Codec
begin

text \<open>
  \<open>bitcoin/wire/msgtx.go\<close>: transactions, their legacy and segregated witness encodings, sizes and
  hashes. \<open>None\<close> is a nil witness. The pool of script buffers is memory reuse only, but the final
  step of the decoder, which copies all scripts into one buffer and replaces each script by its slice of
  that buffer, is modelled as it is written: views (start and end) into a buffer that is still being
  filled, read when it is complete.
\<close>

section \<open>Data\<close>

datatype MessageEncoding = BaseEncoding | WitnessEncoding

record OutPoint =
  op_Hash :: bytes
  op_Index :: "32 word"

record TxIn =
  ti_PreviousOutPoint :: OutPoint
  ti_SignatureScript :: bytes
  ti_Witness :: "bytes list option"
  ti_Sequence :: "32 word"

record TxOut =
  to_Value :: "64 word"
  to_PkScript :: bytes

record MsgTx =
  tx_Version :: "32 word"
  tx_TxIn :: "TxIn list"
  tx_TxOut :: "TxOut list"
  tx_LockTime :: "32 word"

abbreviation wit :: "TxIn \<Rightarrow> bytes list" where
  "wit ti \<equiv> (case ti_Witness ti of None \<Rightarrow> [] | Some w \<Rightarrow> w)"

definition MaxTxInSequenceNum :: "32 word" where
  "MaxTxInSequenceNum = 0xffffffff"

definition minTxInPayload :: nat where
  "minTxInPayload = 9 + HashSize"

definition maxTxInPerMessage :: nat where
  "maxTxInPerMessage = MaxMessagePayload div minTxInPayload + 1"

definition minTxOutPayload :: nat where
  "minTxOutPayload = 9"

definition maxTxOutPerMessage :: nat where
  "maxTxOutPerMessage = MaxMessagePayload div minTxOutPayload + 1"

definition maxWitnessItemsPerInput :: nat where
  "maxWitnessItemsPerInput = 500000"

definition maxWitnessItemSize :: nat where
  "maxWitnessItemSize = 11000"

definition witessMarkerBytes :: bytes where
  "witessMarkerBytes = [0x00, 0x01]"

section \<open>Constructors\<close>

definition NewOutPoint :: "bytes \<Rightarrow> 32 word \<Rightarrow> OutPoint" where
  "NewOutPoint hash index = \<lparr>op_Hash = hash, op_Index = index\<rparr>"

definition NewTxIn :: "OutPoint \<Rightarrow> bytes \<Rightarrow> bytes list option \<Rightarrow> TxIn" where
  "NewTxIn prevOut signatureScript witness =
     \<lparr>ti_PreviousOutPoint = prevOut, ti_SignatureScript = signatureScript, ti_Witness = witness,
      ti_Sequence = MaxTxInSequenceNum\<rparr>"

definition NewTxOut :: "64 word \<Rightarrow> bytes \<Rightarrow> TxOut" where
  "NewTxOut v pkScript = \<lparr>to_Value = v, to_PkScript = pkScript\<rparr>"

definition NewMsgTx :: "32 word \<Rightarrow> MsgTx" where
  "NewMsgTx version = \<lparr>tx_Version = version, tx_TxIn = [], tx_TxOut = [], tx_LockTime = 0\<rparr>"

definition AddTxIn :: "MsgTx \<Rightarrow> TxIn \<Rightarrow> MsgTx" where
  "AddTxIn msg ti = msg\<lparr>tx_TxIn := tx_TxIn msg @ [ti]\<rparr>"

definition AddTxOut :: "MsgTx \<Rightarrow> TxOut \<Rightarrow> MsgTx" where
  "AddTxOut msg to = msg\<lparr>tx_TxOut := tx_TxOut msg @ [to]\<rparr>"

section \<open>Sizes\<close>

definition TxIn_SerializeSize :: "TxIn \<Rightarrow> nat" where
  "TxIn_SerializeSize t =
     40 + VarIntSerializeSize (word_of_nat (length (ti_SignatureScript t))) + length (ti_SignatureScript t)"

definition TxWitness_SerializeSize :: "bytes list \<Rightarrow> nat" where
  "TxWitness_SerializeSize t =
     fold (\<lambda>witItem n. n + VarIntSerializeSize (word_of_nat (length witItem)) + length witItem) t
       (VarIntSerializeSize (word_of_nat (length t)))"

definition TxOut_SerializeSize :: "TxOut \<Rightarrow> nat" where
  "TxOut_SerializeSize t =
     8 + VarIntSerializeSize (word_of_nat (length (to_PkScript t))) + length (to_PkScript t)"

definition baseSize :: "MsgTx \<Rightarrow> nat" where
  "baseSize msg =
     fold (\<lambda>txOut n. n + TxOut_SerializeSize txOut) (tx_TxOut msg)
       (fold (\<lambda>txIn n. n + TxIn_SerializeSize txIn) (tx_TxIn msg)
         (8 + VarIntSerializeSize (word_of_nat (length (tx_TxIn msg)))
            + VarIntSerializeSize (word_of_nat (length (tx_TxOut msg)))))"

fun has_witness :: "TxIn list \<Rightarrow> bool" where
  "has_witness [] = False"
| "has_witness (txIn # ins) = (if length (wit txIn) \<noteq> 0 then True else has_witness ins)"

definition HasWitness :: "MsgTx \<Rightarrow> bool" where
  "HasWitness msg = has_witness (tx_TxIn msg)"

definition MsgTx_SerializeSize :: "MsgTx \<Rightarrow> nat" where
  "MsgTx_SerializeSize msg =
     (let n = baseSize msg
      in if HasWitness msg
         then fold (\<lambda>txin n. n + TxWitness_SerializeSize (wit txin)) (tx_TxIn msg) (n + 2)
         else n)"

definition SerializeSizeStripped :: "MsgTx \<Rightarrow> nat" where
  "SerializeSizeStripped msg = baseSize msg"

section \<open>Encoding\<close>

definition writeOutPoint :: "OutPoint \<Rightarrow> bytes" where
  "writeOutPoint op = op_Hash op @ PutUint32 LittleEndian (op_Index op)"

definition writeTxIn :: "TxIn \<Rightarrow> bytes" where
  "writeTxIn ti =
     writeOutPoint (ti_PreviousOutPoint ti) @ WriteVarBytes (ti_SignatureScript ti)
       @ PutUint32 LittleEndian (ti_Sequence ti)"

definition WriteTxOut :: "TxOut \<Rightarrow> bytes" where
  "WriteTxOut to = PutUint64 LittleEndian (to_Value to) @ WriteVarBytes (to_PkScript to)"

definition writeTxWitness :: "bytes list \<Rightarrow> bytes" where
  "writeTxWitness w = WriteVarInt (word_of_nat (length w)) @ concat (map WriteVarBytes w)"

definition tx_BtcEncode :: "MessageEncoding \<Rightarrow> MsgTx \<Rightarrow> bytes" where
  "tx_BtcEncode enc msg =
     (let doWitness = (enc = WitnessEncoding \<and> HasWitness msg)
      in PutUint32 LittleEndian (tx_Version msg)
         @ (if doWitness then witessMarkerBytes else [])
         @ WriteVarInt (word_of_nat (length (tx_TxIn msg)))
         @ concat (map writeTxIn (tx_TxIn msg))
         @ WriteVarInt (word_of_nat (length (tx_TxOut msg)))
         @ concat (map WriteTxOut (tx_TxOut msg))
         @ (if doWitness then concat (map (\<lambda>ti. writeTxWitness (wit ti)) (tx_TxIn msg)) else [])
         @ PutUint32 LittleEndian (tx_LockTime msg))"

definition tx_Serialize :: "MsgTx \<Rightarrow> bytes" where
  "tx_Serialize msg = tx_BtcEncode WitnessEncoding msg"

definition SerializeNoWitness :: "MsgTx \<Rightarrow> bytes" where
  "SerializeNoWitness msg = tx_BtcEncode BaseEncoding msg"

definition TxHash :: "MsgTx \<Rightarrow> bytes" where
  "TxHash msg = DoubleHashH (SerializeNoWitness msg)"

definition WitnessHash :: "MsgTx \<Rightarrow> bytes" where
  "WitnessHash msg = (if HasWitness msg then DoubleHashH (tx_Serialize msg) else TxHash msg)"

section \<open>Copying\<close>

definition copy_script :: "bytes \<Rightarrow> bytes" where
  "copy_script old = (if length old > 0 then copy_bytes (zeros (length old)) old else [])"

text \<open>The error of \<open>SetBytes\<close> is dropped: the hash then keeps its zero value.\<close>

definition copy_txin :: "TxIn \<Rightarrow> TxIn" where
  "copy_txin old =
     \<lparr>ti_PreviousOutPoint =
        \<lparr>op_Hash = (case SetBytes (zeros HashSize) (op_Hash (ti_PreviousOutPoint old)) of
                     Inr h \<Rightarrow> h | Inl _ \<Rightarrow> zeros HashSize),
         op_Index = op_Index (ti_PreviousOutPoint old)\<rparr>,
      ti_SignatureScript = copy_script (ti_SignatureScript old),
      ti_Witness = (if length (wit old) \<noteq> 0
                    then Some (map (\<lambda>oldItem. copy_bytes (zeros (length oldItem)) oldItem) (wit old)) else None),
      ti_Sequence = ti_Sequence old\<rparr>"

definition copy_txout :: "TxOut \<Rightarrow> TxOut" where
  "copy_txout old = \<lparr>to_Value = to_Value old, to_PkScript = copy_script (to_PkScript old)\<rparr>"

definition tx_Copy :: "MsgTx \<Rightarrow> MsgTx" where
  "tx_Copy msg =
     \<lparr>tx_Version = tx_Version msg, tx_TxIn = map copy_txin (tx_TxIn msg),
      tx_TxOut = map copy_txout (tx_TxOut msg), tx_LockTime = tx_LockTime msg\<rparr>"

section \<open>Decoding\<close>

definition readOutPoint :: "bytes \<Rightarrow> (OutPoint \<times> bytes) go" where
  "readOutPoint r =
     bind_go (readFull HashSize r) (\<lambda>(h, r).
     bind_go (Uint32 LittleEndian r) (\<lambda>(i, r). Inr (\<lparr>op_Hash = h, op_Index = i\<rparr>, r)))"

definition readScript :: "nat \<Rightarrow> bytes \<Rightarrow> (bytes \<times> bytes) go" where
  "readScript maxAllowed r =
     bind_go (ReadVarInt r) (\<lambda>(count, r).
       if unat count > maxAllowed
       then Inl (messageError ''readScript'' ''larger than the max allowed size'')
       else readFull (unat count) r)"

definition readTxIn :: "bytes \<Rightarrow> (TxIn \<times> bytes) go" where
  "readTxIn r =
     bind_go (readOutPoint r) (\<lambda>(op, r).
     bind_go (readScript MaxMessagePayload r) (\<lambda>(script, r).
     bind_go (readElement TUint32 r) (\<lambda>(e, r).
       case e of
         EUint32 s \<Rightarrow> Inr (\<lparr>ti_PreviousOutPoint = op, ti_SignatureScript = script, ti_Witness = None,
                            ti_Sequence = s\<rparr>, r)
       | _ \<Rightarrow> nil_deref)))"

definition readTxOut :: "bytes \<Rightarrow> (TxOut \<times> bytes) go" where
  "readTxOut r =
     bind_go (readElement TInt64 r) (\<lambda>(e, r).
       case e of
         EInt64 v \<Rightarrow> bind_go (readScript MaxMessagePayload r) (\<lambda>(script, r).
                       Inr (\<lparr>to_Value = v, to_PkScript = script\<rparr>, r))
       | _ \<Rightarrow> nil_deref)"

definition readTxWitness :: "bytes \<Rightarrow> (bytes list \<times> bytes) go" where
  "readTxWitness r =
     bind_go (ReadVarInt r) (\<lambda>(witCount, r).
       if unat witCount > maxWitnessItemsPerInput
       then Inl (messageError ''MsgTx.BtcDecode'' ''too many witness items to fit into max message size'')
       else dec_seq (readScript maxWitnessItemSize) (unat witCount) r)"

fun readWitnesses :: "TxIn list \<Rightarrow> bytes \<Rightarrow> (TxIn list \<times> bytes) go" where
  "readWitnesses [] r = Inr ([], r)"
| "readWitnesses (txin # ins) r =
     bind_go (readTxWitness r) (\<lambda>(w, r).
     bind_go (readWitnesses ins r) (\<lambda>(ins, r). Inr (txin\<lparr>ti_Witness := Some w\<rparr> # ins, r)))"

text \<open>
  The contiguous buffer: \<open>place\<close> is one iteration, which copies a script to the current offset and
  takes the slice up to its end; \<open>view\<close> reads a slice of the buffer.
\<close>

definition place :: "bytes \<Rightarrow> bytes \<times> nat \<Rightarrow> ((nat \<times> nat) \<times> (bytes \<times> nat)) go" where
  "place script st =
     (let scripts = fst st; offset = snd st; end = offset + length script
      in if offset > length scripts \<or> end > length scripts then Inl (GoPanic ''slice bounds out of range'')
         else Inr ((offset, end), (take offset scripts @ copy_bytes (drop offset scripts) script, end)))"

fun place_all :: "bytes list \<Rightarrow> bytes \<times> nat \<Rightarrow> ((nat \<times> nat) list \<times> (bytes \<times> nat)) go" where
  "place_all [] st = Inr ([], st)"
| "place_all (s # ss) st =
     bind_go (place s st) (\<lambda>(v, st). bind_go (place_all ss st) (\<lambda>(vs, st). Inr (v # vs, st)))"

fun place_txins :: "TxIn list \<Rightarrow> bytes \<times> nat \<Rightarrow> ((nat \<times> nat) list list \<times> (bytes \<times> nat)) go" where
  "place_txins [] st = Inr ([], st)"
| "place_txins (ti # tis) st =
     bind_go (place_all (ti_SignatureScript ti # wit ti) st) (\<lambda>(v, st).
     bind_go (place_txins tis st) (\<lambda>(vs, st). Inr (v # vs, st)))"

definition view :: "bytes \<Rightarrow> nat \<times> nat \<Rightarrow> bytes" where
  "view scripts v = drop (fst v) (take (snd v) scripts)"

definition view_txin :: "bytes \<Rightarrow> (nat \<times> nat) list \<Rightarrow> TxIn \<Rightarrow> TxIn" where
  "view_txin scripts vs ti =
     ti\<lparr>ti_SignatureScript := view scripts (hd vs),
        ti_Witness := map_option (\<lambda>_. map (view scripts) (tl vs)) (ti_Witness ti)\<rparr>"

definition view_txout :: "bytes \<Rightarrow> nat \<times> nat \<Rightarrow> TxOut \<Rightarrow> TxOut" where
  "view_txout scripts v to = to\<lparr>to_PkScript := view scripts v\<rparr>"

definition totalScriptSize :: "TxIn list \<Rightarrow> TxOut list \<Rightarrow> nat" where
  "totalScriptSize ins outs =
     sum_list (map (\<lambda>ti. length (ti_SignatureScript ti) + sum_list (map length (wit ti))) ins)
       + sum_list (map (\<lambda>to. length (to_PkScript to)) outs)"

definition contiguous :: "TxIn list \<Rightarrow> TxOut list \<Rightarrow> (TxIn list \<times> TxOut list) go" where
  "contiguous ins outs =
     bind_go (place_txins ins (zeros (totalScriptSize ins outs), 0)) (\<lambda>(ivs, st).
     bind_go (place_all (map to_PkScript outs) st) (\<lambda>(ovs, st).
       Inr (map2 (view_txin (fst st)) ivs ins, map2 (view_txout (fst st)) ovs outs)))"

definition tx_BtcDecode :: "MessageEncoding \<Rightarrow> bytes \<Rightarrow> (MsgTx \<times> bytes) go" where
  "tx_BtcDecode enc r =
     bind_go (Uint32 LittleEndian r) (\<lambda>(version, r).
     bind_go (ReadVarInt r) (\<lambda>(count, r).
     bind_go
       (if count = 0 \<and> enc = WitnessEncoding then
          bind_go (readFull 1 r) (\<lambda>(flag, r).
            if flag ! 0 \<noteq> 0x01 then Inl (messageError ''MsgTx.BtcDecode'' ''witness tx but flag byte is not 1'')
            else bind_go (ReadVarInt r) (\<lambda>(count, r). Inr ((count, flag ! 0), r)))
        else Inr ((count, 0), r))
       (\<lambda>((count, flag), r).
     if unat count > maxTxInPerMessage
     then Inl (messageError ''MsgTx.BtcDecode'' ''too many input transactions to fit into max message size'')
     else bind_go (dec_seq readTxIn (unat count) r) (\<lambda>(ins, r).
     bind_go (ReadVarInt r) (\<lambda>(count, r).
     if unat count > maxTxOutPerMessage
     then Inl (messageError ''MsgTx.BtcDecode'' ''too many output transactions to fit into max message size'')
     else bind_go (dec_seq readTxOut (unat count) r) (\<lambda>(outs, r).
     bind_go (if flag \<noteq> 0 \<and> enc = WitnessEncoding then readWitnesses ins r else Inr (ins, r)) (\<lambda>(ins, r).
     bind_go (Uint32 LittleEndian r) (\<lambda>(lockTime, r).
     bind_go (contiguous ins outs) (\<lambda>(ins, outs).
       Inr (\<lparr>tx_Version = version, tx_TxIn = ins, tx_TxOut = outs, tx_LockTime = lockTime\<rparr>, r))))))))))"

definition tx_Deserialize :: "bytes \<Rightarrow> (MsgTx \<times> bytes) go" where
  "tx_Deserialize r = tx_BtcDecode WitnessEncoding r"

definition DeserializeNoWitness :: "bytes \<Rightarrow> (MsgTx \<times> bytes) go" where
  "DeserializeNoWitness r = tx_BtcDecode BaseEncoding r"

section \<open>Script locations\<close>

fun script_locs :: "nat \<Rightarrow> TxOut list \<Rightarrow> nat list" where
  "script_locs n [] = []"
| "script_locs n (txOut # outs) =
     (let n = n + 8 + VarIntSerializeSize (word_of_nat (length (to_PkScript txOut)))
      in n # script_locs (n + length (to_PkScript txOut)) outs)"

definition PkScriptLocs :: "MsgTx \<Rightarrow> nat list" where
  "PkScriptLocs msg =
     (if length (tx_TxOut msg) = 0 then []
      else let n = 4 + VarIntSerializeSize (word_of_nat (length (tx_TxIn msg)))
                     + VarIntSerializeSize (word_of_nat (length (tx_TxOut msg)));
               n = (if length (tx_TxIn msg) > 0 \<and> ti_Witness (tx_TxIn msg ! 0) \<noteq> None then n + 2 else n);
               n = fold (\<lambda>txIn n. n + TxIn_SerializeSize txIn) (tx_TxIn msg) n
           in script_locs n (tx_TxOut msg))"

section \<open>Parts of a transaction\<close>

definition outpoint_ok :: "OutPoint \<Rightarrow> bool" where
  "outpoint_ok op \<longleftrightarrow> length (op_Hash op) = 32"

definition txin_ok :: "TxIn \<Rightarrow> bool" where
  "txin_ok ti \<longleftrightarrow> outpoint_ok (ti_PreviousOutPoint ti) \<and> length (ti_SignatureScript ti) \<le> MaxMessagePayload"

definition txout_ok :: "TxOut \<Rightarrow> bool" where
  "txout_ok to \<longleftrightarrow> length (to_PkScript to) \<le> MaxMessagePayload"

definition witness_ok :: "bytes list \<Rightarrow> bool" where
  "witness_ok w \<longleftrightarrow> length w \<le> maxWitnessItemsPerInput \<and> list_all (\<lambda>x. length x \<le> maxWitnessItemSize) w"

lemmas tx_limits = MaxMessagePayload_def minTxInPayload_def maxTxInPerMessage_def minTxOutPayload_def
  maxTxOutPerMessage_def maxWitnessItemsPerInput_def maxWitnessItemSize_def HashSize_def

lemma readOutPoint_iff [read_iffs]: "readOutPoint b = Inr (op, r) \<longleftrightarrow> outpoint_ok op \<and> b = writeOutPoint op @ r"
  by (cases op) (auto simp: readOutPoint_def writeOutPoint_def outpoint_ok_def go_simps read_iffs HashSize_def)

lemma readScript_iff [read_iffs]:
  assumes "m < 2 ^ 64"
  shows "readScript m b = Inr (x, r) \<longleftrightarrow> length x \<le> m \<and> b = WriteVarBytes x @ r"
  unfolding ReadVarBytes_iff [OF assms, symmetric]
  by (simp add: ReadVarBytes_def readScript_def go_simps split_def)

lemma read_write_parts [simp, codec_simps]:
  "outpoint_ok op \<Longrightarrow> readOutPoint (writeOutPoint op @ r) = Inr (op, r)"
  "m < 2 ^ 64 \<Longrightarrow> length x \<le> m \<Longrightarrow> readScript m (WriteVarBytes x @ r) = Inr (x, r)"
  by (simp_all add: read_iffs)

lemma readTxIn_iff:
  "readTxIn b = Inr (ti, r) \<longleftrightarrow> (txin_ok ti \<and> ti_Witness ti = None) \<and> b = writeTxIn ti @ r"
proof
  assume "readTxIn b = Inr (ti, r)"
  then show "(txin_ok ti \<and> ti_Witness ti = None) \<and> b = writeTxIn ti @ r"
    by (auto simp: readTxIn_def writeTxIn_def txin_ok_def go_simps read_iffs tx_limits)
next
  assume "(txin_ok ti \<and> ti_Witness ti = None) \<and> b = writeTxIn ti @ r"
  then show "readTxIn b = Inr (ti, r)"
    by (cases ti) (simp add: readTxIn_def writeTxIn_def txin_ok_def tx_limits)
qed

lemma readTxOut_iff: "readTxOut b = Inr (to, r) \<longleftrightarrow> txout_ok to \<and> b = WriteTxOut to @ r"
proof
  assume "readTxOut b = Inr (to, r)"
  then show "txout_ok to \<and> b = WriteTxOut to @ r"
    by (auto simp: readTxOut_def WriteTxOut_def txout_ok_def go_simps read_iffs tx_limits)
next
  assume "txout_ok to \<and> b = WriteTxOut to @ r"
  then show "readTxOut b = Inr (to, r)"
    by (cases to) (simp add: readTxOut_def WriteTxOut_def txout_ok_def tx_limits)
qed

interpretation outpoint: canonical_codec writeOutPoint readOutPoint outpoint_ok
  by unfold_locales (simp_all add: readOutPoint_iff)

interpretation txin: canonical_codec writeTxIn readTxIn "\<lambda>ti. txin_ok ti \<and> ti_Witness ti = None"
  by unfold_locales (simp_all add: readTxIn_iff)

interpretation txout: canonical_codec WriteTxOut readTxOut txout_ok
  by unfold_locales (simp_all add: readTxOut_iff)

interpretation witness_item: canonical_codec WriteVarBytes "readScript maxWitnessItemSize" "\<lambda>x. length x \<le> maxWitnessItemSize"
  by unfold_locales (simp_all add: readScript_iff tx_limits)

lemma readTxWitness_iff: "readTxWitness b = Inr (w, r) \<longleftrightarrow> witness_ok w \<and> b = writeTxWitness w @ r"
proof -
  have "readTxWitness b = Inr (w, r) \<longleftrightarrow>
    (\<exists>c. (length w = unat c \<and> unat c \<le> maxWitnessItemsPerInput) \<and> list_all (\<lambda>x. length x \<le> maxWitnessItemSize) w
      \<and> b = WriteVarInt c @ concat (map WriteVarBytes w) @ r)"
    by (simp add: readTxWitness_def go_simps read_iffs not_less witness_item.dec_seq_iff) blast
  also have "\<dots> \<longleftrightarrow> witness_ok w \<and> b = writeTxWitness w @ r"
    by (subst word_of_length_iff) (auto simp: witness_ok_def writeTxWitness_def maxWitnessItemsPerInput_def)
  finally show ?thesis .
qed

interpretation witness: canonical_codec writeTxWitness readTxWitness witness_ok
  by unfold_locales (simp_all add: readTxWitness_iff)

lemma readWitnesses_encode:
  "length ws = length ins \<Longrightarrow> list_all witness_ok ws \<Longrightarrow>
    readWitnesses ins (concat (map writeTxWitness ws) @ r) = Inr (map2 (\<lambda>w ti. ti\<lparr>ti_Witness := Some w\<rparr>) ws ins, r)"
  by (induction ws ins rule: list_induct2) (simp_all add: witness.dec_enc)

section \<open>The contiguous buffer\<close>

fun views_at :: "nat \<Rightarrow> bytes list \<Rightarrow> (nat \<times> nat) list" where
  "views_at offset [] = []"
| "views_at offset (s # ss) = (offset, offset + length s) # views_at (offset + length s) ss"

lemma place_prefix:
  "length s \<le> length rest \<Longrightarrow>
    place s (pre @ rest, length pre) = Inr ((length pre, length pre + length s), (pre @ s @ drop (length s) rest, length (pre @ s)))"
  by (simp add: place_def copy_bytes_def Let_def)

lemma place_all_prefix:
  "length (concat ss) \<le> length rest \<Longrightarrow>
    place_all ss (pre @ rest, length pre)
      = Inr (views_at (length pre) ss, (pre @ concat ss @ drop (length (concat ss)) rest, length (pre @ concat ss)))"
proof (induction ss arbitrary: pre rest)
  case (Cons s ss)
  then show ?case
    using Cons.IH [of "drop (length s) rest" "pre @ s"] by (simp add: place_prefix add.commute)
qed simp

abbreviation in_scripts :: "TxIn \<Rightarrow> bytes list" where
  "in_scripts ti \<equiv> ti_SignatureScript ti # wit ti"

fun txin_views_at :: "nat \<Rightarrow> TxIn list \<Rightarrow> (nat \<times> nat) list list" where
  "txin_views_at offset [] = []"
| "txin_views_at offset (ti # tis) =
     views_at offset (in_scripts ti) # txin_views_at (offset + length (concat (in_scripts ti))) tis"

lemma place_txins_prefix:
  "length (concat (concat (map in_scripts tis))) \<le> length rest \<Longrightarrow>
    place_txins tis (pre @ rest, length pre)
      = Inr (txin_views_at (length pre) tis,
          (pre @ concat (concat (map in_scripts tis)) @ drop (length (concat (concat (map in_scripts tis)))) rest,
           length (pre @ concat (concat (map in_scripts tis)))))"
proof (induction tis arbitrary: pre rest)
  case (Cons ti tis)
  then show ?case
    using Cons.IH [of "drop (length (concat (in_scripts ti))) rest" "pre @ concat (in_scripts ti)"]
      place_all_prefix [of "in_scripts ti" rest pre]
    by (simp add: ac_simps del: place_all.simps views_at.simps)
qed simp

lemma view_views_at: "map (view (pre @ concat ss @ post)) (views_at (length pre) ss) = ss"
proof (induction ss arbitrary: pre)
  case (Cons s ss)
  then show ?case
    using Cons.IH [of "pre @ s"] by (simp add: view_def)
qed simp

lemma view_txin_views:
  "map2 (view_txin (pre @ concat (concat (map in_scripts tis)) @ post)) (txin_views_at (length pre) tis) tis = tis"
proof (induction tis arbitrary: pre)
  case (Cons ti tis)
  let ?post = "concat (concat (map in_scripts tis)) @ post"
  have "map (view (pre @ concat (in_scripts ti) @ ?post)) (views_at (length pre) (in_scripts ti)) = in_scripts ti"
    by (rule view_views_at)
  then have "view_txin (pre @ concat (in_scripts ti) @ ?post) (views_at (length pre) (in_scripts ti)) ti = ti"
    by (cases "ti_Witness ti") (auto simp: view_txin_def)
  then show ?case
    using Cons.IH [of "pre @ concat (in_scripts ti)"] by (simp del: views_at.simps)
qed simp

lemma view_txout_views:
  "map2 (view_txout (pre @ concat (map to_PkScript outs) @ post)) (views_at (length pre) (map to_PkScript outs)) outs = outs"
proof (induction outs arbitrary: pre)
  case (Cons to outs)
  then show ?case
    using Cons.IH [of "pre @ to_PkScript to"] by (simp add: view_txout_def view_def)
qed simp

lemma totalScriptSize_length:
  "totalScriptSize ins outs = length (concat (concat (map in_scripts ins))) + length (concat (map to_PkScript outs))"
  by (induction ins) (simp_all add: totalScriptSize_def length_concat o_def)

lemma contiguous_id: "contiguous ins outs = Inr (ins, outs)"
proof -
  let ?i = "concat (concat (map in_scripts ins))" and ?o = "concat (map to_PkScript outs)"
  have t: "totalScriptSize ins outs = length ?i + length ?o" by (rule totalScriptSize_length)
  have "place_txins ins (zeros (totalScriptSize ins outs), 0)
      = Inr (txin_views_at 0 ins, (?i @ zeros (length ?o), length ?i))"
    using place_txins_prefix [of ins "zeros (totalScriptSize ins outs)" "[]"] by (simp add: t)
  moreover have "place_all (map to_PkScript outs) (?i @ zeros (length ?o), length ?i)
      = Inr (views_at (length ?i) (map to_PkScript outs), (?i @ ?o, length ?i + length ?o))"
    using place_all_prefix [of "map to_PkScript outs" "zeros (length ?o)" ?i] by simp
  moreover have "map2 (view_txin (?i @ ?o)) (txin_views_at 0 ins) ins = ins"
    using view_txin_views [of "[]" ins ?o] by simp
  moreover have "map2 (view_txout (?i @ ?o)) (views_at (length ?i) (map to_PkScript outs)) outs = outs"
    using view_txout_views [of ?i outs "[]"] by simp
  ultimately show ?thesis
    by (simp add: contiguous_def)
qed

section \<open>Whole transactions\<close>

definition tx_ok :: "MsgTx \<Rightarrow> bool" where
  "tx_ok tx \<longleftrightarrow> list_all txin_ok (tx_TxIn tx) \<and> list_all txout_ok (tx_TxOut tx)
     \<and> list_all (\<lambda>ti. witness_ok (wit ti)) (tx_TxIn tx)
     \<and> length (tx_TxIn tx) \<le> maxTxInPerMessage \<and> length (tx_TxOut tx) \<le> maxTxOutPerMessage"

definition set_witness :: "bool \<Rightarrow> TxIn \<Rightarrow> TxIn" where
  "set_witness b ti = ti\<lparr>ti_Witness := (if b then Some (wit ti) else None)\<rparr>"

text \<open>What a decoder returns for an encoded transaction: nil witnesses unless some input has one.\<close>

definition settle :: "MessageEncoding \<Rightarrow> MsgTx \<Rightarrow> MsgTx" where
  "settle enc tx = tx\<lparr>tx_TxIn := map (set_witness (enc = WitnessEncoding \<and> HasWitness tx)) (tx_TxIn tx)\<rparr>"

lemma has_witness_iff: "has_witness ins \<longleftrightarrow> (\<exists>ti \<in> set ins. wit ti \<noteq> [])"
  by (induction ins) auto

lemma writeTxIn_set_witness [simp]: "writeTxIn (ti\<lparr>ti_Witness := w\<rparr>) = writeTxIn ti"
  by (simp add: writeTxIn_def)

lemma txin_ok_set_witness [simp]: "txin_ok (ti\<lparr>ti_Witness := w\<rparr>) = txin_ok ti"
  by (simp add: txin_ok_def)

lemma read_txins:
  assumes "list_all txin_ok ins"
  shows "dec_seq readTxIn (length ins) (concat (map writeTxIn ins) @ r) = Inr (map (ti_Witness_update (\<lambda>_. None)) ins, r)"
proof -
  let ?ins = "map (ti_Witness_update (\<lambda>_. None)) ins"
  have "list_all (\<lambda>ti. txin_ok ti \<and> ti_Witness ti = None) ?ins"
    using assms by (simp add: list_all_iff)
  then have "dec_seq readTxIn (length ?ins) (concat (map writeTxIn ?ins) @ r) = Inr (?ins, r)"
    by (rule txin.dec_seq_enc)
  then show ?thesis by (simp add: o_def)
qed

lemma read_witnesses:
  "list_all (\<lambda>ti. witness_ok (wit ti)) ins \<Longrightarrow>
    readWitnesses (map (ti_Witness_update (\<lambda>_. None)) ins) (concat (map (\<lambda>ti. writeTxWitness (wit ti)) ins) @ r)
      = Inr (map (set_witness True) ins, r)"
  by (induction ins) (simp_all add: witness.dec_enc set_witness_def)

lemma unat_count: "n \<le> maxTxInPerMessage \<or> n \<le> maxTxOutPerMessage \<Longrightarrow> unat (word_of_nat n :: 64 word) = n"
  by (auto simp: unat_of_nat tx_limits)

lemma tx_decode_encode:
  assumes "tx_ok tx" and "enc = WitnessEncoding \<Longrightarrow> tx_TxIn tx \<noteq> []"
  shows "tx_BtcDecode enc (tx_BtcEncode enc tx @ r) = Inr (settle enc tx, r)"
proof -
  let ?n = "word_of_nat (length (tx_TxIn tx)) :: 64 word" and ?m = "word_of_nat (length (tx_TxOut tx)) :: 64 word"
  have n: "unat ?n = length (tx_TxIn tx)" "unat ?m = length (tx_TxOut tx)"
    using assms(1) by (simp_all add: tx_ok_def unat_count)
  have outs: "dec_seq readTxOut (length (tx_TxOut tx)) (concat (map WriteTxOut (tx_TxOut tx)) @ s) = Inr (tx_TxOut tx, s)" for s
    using assms(1) by (simp add: tx_ok_def txout.dec_seq_enc)
  have ok: "list_all txin_ok (tx_TxIn tx)" "list_all (\<lambda>ti. witness_ok (wit ti)) (tx_TxIn tx)"
      "\<not> maxTxInPerMessage < length (tx_TxIn tx)" "\<not> maxTxOutPerMessage < length (tx_TxOut tx)"
    using assms(1) by (simp_all add: tx_ok_def)
  note decode = tx_BtcDecode_def tx_BtcEncode_def n outs ok read_txins contiguous_id settle_def
  show ?thesis
  proof (cases "enc = WitnessEncoding \<and> HasWitness tx")
    case True
    have "ReadVarInt (witessMarkerBytes @ s) = Inr (0, 1 # s)" for s
      using ReadVarInt_WriteVarInt [of 0 "1 # s"] by (simp add: witessMarkerBytes_def)
    moreover have "readFull 1 (1 # s) = Inr ([1], s)" for s
      using readFull_append [of "[1]" 1 s] by simp
    ultimately show ?thesis
      using True by (simp add: decode read_witnesses)
  next
    case False
    have "?n \<noteq> 0" if "enc = WitnessEncoding"
      using assms(2) [OF that] n(1) by (auto simp: word_unat_eq_iff)
    then show ?thesis
      using False by (cases enc) (simp_all add: decode Let_def set_witness_def [abs_def])
  qed
qed

lemma fold_add: "fold (\<lambda>x n. n + f x) xs (a :: nat) = a + sum_list (map f xs)"
  by (induction xs arbitrary: a) simp_all

lemma length_writeTxIn: "txin_ok ti \<Longrightarrow> length (writeTxIn ti) = TxIn_SerializeSize ti"
  by (simp add: writeTxIn_def writeOutPoint_def TxIn_SerializeSize_def txin_ok_def outpoint_ok_def)

lemma length_WriteTxOut: "length (WriteTxOut to) = TxOut_SerializeSize to"
  by (simp add: WriteTxOut_def TxOut_SerializeSize_def)

lemma length_writeTxWitness: "length (writeTxWitness w) = TxWitness_SerializeSize w"
proof -
  have "fold (\<lambda>x n. n + VarIntSerializeSize (word_of_nat (length x)) + length x) w (a :: nat)
      = a + sum_list (map (\<lambda>x. VarIntSerializeSize (word_of_nat (length x)) + length x) w)" for a
    using fold_add [of "\<lambda>x. VarIntSerializeSize (word_of_nat (length x)) + length x" w a] by (simp add: add.assoc)
  then show ?thesis
    by (simp add: writeTxWitness_def TxWitness_SerializeSize_def length_concat o_def)
qed

lemma length_tx_BtcEncode:
  assumes "tx_ok tx"
  shows "length (tx_BtcEncode BaseEncoding tx) = SerializeSizeStripped tx"
    and "length (tx_BtcEncode WitnessEncoding tx) = MsgTx_SerializeSize tx"
proof -
  have "sum_list (map (length \<circ> writeTxIn) (tx_TxIn tx)) = sum_list (map TxIn_SerializeSize (tx_TxIn tx))"
    using assms by (intro arg_cong [where f = sum_list] map_cong) (auto simp: tx_ok_def list_all_iff length_writeTxIn)
  then show "length (tx_BtcEncode BaseEncoding tx) = SerializeSizeStripped tx"
    and "length (tx_BtcEncode WitnessEncoding tx) = MsgTx_SerializeSize tx"
    by (simp_all add: tx_BtcEncode_def SerializeSizeStripped_def MsgTx_SerializeSize_def baseSize_def length_concat fold_add
        length_WriteTxOut length_writeTxWitness witessMarkerBytes_def o_def Let_def)
qed

text \<open>The legacy decoder accepts nothing but encodings of what it returns.\<close>

lemma legacy_decode_iff:
  "DeserializeNoWitness b = Inr (tx, r)
    \<longleftrightarrow> (tx_ok tx \<and> list_all (\<lambda>ti. ti_Witness ti = None) (tx_TxIn tx)) \<and> b = SerializeNoWitness tx @ r"
proof
  assume "DeserializeNoWitness b = Inr (tx, r)"
  then obtain v n m ins outs lt where b: "b = PutUint32 LittleEndian v @ WriteVarInt n @ concat (map writeTxIn ins)
        @ WriteVarInt m @ concat (map WriteTxOut outs) @ PutUint32 LittleEndian lt @ r"
      and n: "unat n \<le> maxTxInPerMessage" "length ins = unat n" and m: "unat m \<le> maxTxOutPerMessage" "length outs = unat m"
      and ins: "list_all (\<lambda>ti. txin_ok ti \<and> ti_Witness ti = None) ins" and outs: "list_all txout_ok outs"
      and tx: "tx = \<lparr>tx_Version = v, tx_TxIn = ins, tx_TxOut = outs, tx_LockTime = lt\<rparr>"
    by (auto simp: DeserializeNoWitness_def tx_BtcDecode_def go_simps read_iffs txin.dec_seq_iff txout.dec_seq_iff
        contiguous_id not_less)
  have "n = word_of_nat (length ins)" "m = word_of_nat (length outs)"
    using n m by simp_all
  moreover have "witness_ok []" by (simp add: witness_ok_def)
  ultimately show "(tx_ok tx \<and> list_all (\<lambda>ti. ti_Witness ti = None) (tx_TxIn tx)) \<and> b = SerializeNoWitness tx @ r"
    using b n m ins outs by (auto simp: tx tx_ok_def SerializeNoWitness_def tx_BtcEncode_def list_all_iff)
next
  assume a: "(tx_ok tx \<and> list_all (\<lambda>ti. ti_Witness ti = None) (tx_TxIn tx)) \<and> b = SerializeNoWitness tx @ r"
  then have "map (set_witness False) (tx_TxIn tx) = tx_TxIn tx"
    by (intro map_idI) (auto simp: set_witness_def list_all_iff)
  then have "settle BaseEncoding tx = tx" by (simp add: settle_def)
  then show "DeserializeNoWitness b = Inr (tx, r)"
    using a tx_decode_encode [of tx BaseEncoding r] by (simp add: DeserializeNoWitness_def SerializeNoWitness_def)
qed

interpretation legacy_tx: canonical_codec SerializeNoWitness DeserializeNoWitness
  "\<lambda>tx. tx_ok tx \<and> list_all (\<lambda>ti. ti_Witness ti = None) (tx_TxIn tx)"
  by unfold_locales (simp_all add: legacy_decode_iff)

section \<open>No input makes the decoder panic\<close>

lemma panic_free_parts [parser_intros]:
  "panic_free (readOutPoint b)" "panic_free (readScript m b)" "panic_free (readTxIn b)" "panic_free (readTxOut b)"
  "panic_free (readTxWitness b)"
  by (auto simp: readOutPoint_def readScript_def readTxIn_def readTxOut_def readTxWitness_def messageError_def go_simps
      intro!: parser_intros)

lemma panic_free_readWitnesses [parser_intros]: "panic_free (readWitnesses ins b)"
  by (induction ins arbitrary: b) (auto intro!: parser_intros)

lemma panic_free_tx_BtcDecode [parser_intros]: "panic_free (tx_BtcDecode enc b)"
  by (auto simp: tx_BtcDecode_def contiguous_id messageError_def intro!: parser_intros split: prod.splits)

section \<open>Hashes, copies and script locations\<close>

lemma TxHash_settle: "TxHash (settle enc tx) = TxHash tx"
  by (simp add: TxHash_def SerializeNoWitness_def settle_def tx_BtcEncode_def set_witness_def o_def)

lemma SetBytes_hash: "length h = 32 \<Longrightarrow> SetBytes (zeros HashSize) h = Inr h"
  by (simp add: SetBytes_def HashSize_def)

lemma copy_script_id [simp]: "copy_script s = s"
  by (simp add: copy_script_def)

lemma copy_txin_eq: "txin_ok ti \<Longrightarrow> copy_txin ti = ti\<lparr>ti_Witness := (if wit ti = [] then None else Some (wit ti))\<rparr>"
  by (simp add: copy_txin_def txin_ok_def outpoint_ok_def SetBytes_hash map_idI)

lemma copy_txout_id [simp]: "copy_txout to = to"
  by (simp add: copy_txout_def)

lemma tx_BtcEncode_Copy:
  assumes "tx_ok tx"
  shows "tx_BtcEncode enc (tx_Copy tx) = tx_BtcEncode enc tx"
proof -
  have ins: "map copy_txin (tx_TxIn tx) = map (\<lambda>ti. ti\<lparr>ti_Witness := (if wit ti = [] then None else Some (wit ti))\<rparr>) (tx_TxIn tx)"
    using assms by (auto simp: tx_ok_def list_all_iff copy_txin_eq)
  have w: "wit (ti\<lparr>ti_Witness := (if wit ti = [] then None else Some (wit ti))\<rparr>) = wit ti" for ti
    by simp
  have "HasWitness (tx_Copy tx) = HasWitness tx"
    unfolding HasWitness_def has_witness_iff by (simp add: tx_Copy_def ins w)
  moreover have "map writeTxIn (tx_TxIn (tx_Copy tx)) = map writeTxIn (tx_TxIn tx)"
    by (simp add: tx_Copy_def ins o_def)
  moreover have "map (\<lambda>ti. writeTxWitness (wit ti)) (tx_TxIn (tx_Copy tx)) = map (\<lambda>ti. writeTxWitness (wit ti)) (tx_TxIn tx)"
    unfolding tx_Copy_def by (simp only: MsgTx.simps ins map_map o_def w)
  moreover have "length (tx_TxIn (tx_Copy tx)) = length (tx_TxIn tx)" "tx_TxOut (tx_Copy tx) = tx_TxOut tx"
      "tx_Version (tx_Copy tx) = tx_Version tx" "tx_LockTime (tx_Copy tx) = tx_LockTime tx"
    by (simp_all add: tx_Copy_def map_idI)
  ultimately show ?thesis
    by (simp only: tx_BtcEncode_def)
qed

lemma script_locs_at:
  "i < length outs \<Longrightarrow>
    take (length (to_PkScript (outs ! i))) (drop (script_locs (length pre) outs ! i) (pre @ concat (map WriteTxOut outs) @ post))
      = to_PkScript (outs ! i)"
proof (induction outs arbitrary: i pre)
  case (Cons to outs)
  let ?h = "PutUint64 LittleEndian (to_Value to) @ WriteVarInt (word_of_nat (length (to_PkScript to)))"
  have split: "WriteTxOut to = ?h @ to_PkScript to"
    by (simp add: WriteTxOut_def WriteVarBytes_def)
  show ?case
  proof (cases i)
    case 0
    have "drop (length (pre @ ?h)) ((pre @ ?h) @ to_PkScript to @ concat (map WriteTxOut outs) @ post)
        = to_PkScript to @ concat (map WriteTxOut outs) @ post"
      by (rule append_eq_conv_conj [THEN iffD1, THEN conjunct2, symmetric]) (rule refl)
    then show ?thesis
      by (simp add: 0 split Let_def add.assoc)
  next
    case (Suc j)
    have "script_locs (length pre) (to # outs) ! i = script_locs (length (pre @ WriteTxOut to)) outs ! j"
      by (simp add: Suc split Let_def add.assoc)
    then show ?thesis
      using Cons.IH [of j "pre @ WriteTxOut to"] Cons.prems Suc by simp
  qed
qed simp

lemma PkScriptLocs_offset:
  assumes "tx_ok tx" and "settle WitnessEncoding tx = tx" and "tx_TxOut tx \<noteq> []"
  shows "\<exists>pre post. tx_Serialize tx = pre @ concat (map WriteTxOut (tx_TxOut tx)) @ post
    \<and> PkScriptLocs tx = script_locs (length pre) (tx_TxOut tx)"
proof -
  let ?pre = "PutUint32 LittleEndian (tx_Version tx) @ (if HasWitness tx then witessMarkerBytes else [])
    @ WriteVarInt (word_of_nat (length (tx_TxIn tx))) @ concat (map writeTxIn (tx_TxIn tx))
    @ WriteVarInt (word_of_nat (length (tx_TxOut tx)))"
  have ser: "tx_Serialize tx = ?pre @ concat (map WriteTxOut (tx_TxOut tx))
      @ (if HasWitness tx then concat (map (\<lambda>ti. writeTxWitness (wit ti)) (tx_TxIn tx)) else []) @ PutUint32 LittleEndian (tx_LockTime tx)"
    by (simp add: tx_Serialize_def tx_BtcEncode_def)
  have ins: "map (set_witness (HasWitness tx)) (tx_TxIn tx) = tx_TxIn tx"
    using arg_cong [OF assms(2), where f = tx_TxIn] by (simp add: settle_def)
  have first: "(0 < length (tx_TxIn tx) \<and> ti_Witness (tx_TxIn tx ! 0) \<noteq> None) = HasWitness tx"
  proof (cases "tx_TxIn tx")
    case Nil
    then show ?thesis by (simp add: HasWitness_def)
  next
    case (Cons ti tis)
    have "ti_Witness (set_witness (HasWitness tx) ti) = ti_Witness ti"
      using ins [unfolded Cons] by (simp only: list.map list.inject)
    then show ?thesis using Cons by (cases "HasWitness tx") (auto simp: set_witness_def dest: sym)
  qed
  have "sum_list (map (length \<circ> writeTxIn) (tx_TxIn tx)) = sum_list (map TxIn_SerializeSize (tx_TxIn tx))"
    using assms(1) by (intro arg_cong [where f = sum_list] map_cong) (auto simp: tx_ok_def list_all_iff length_writeTxIn)
  then have "PkScriptLocs tx = script_locs (length ?pre) (tx_TxOut tx)"
    using assms(3) unfolding PkScriptLocs_def first Let_def fold_add
    by (simp add: length_concat o_def witessMarkerBytes_def ac_simps)
  then show ?thesis using ser by blast
qed

section \<open>Properties\<close>

definition example_tx :: MsgTx where
  "example_tx =
     \<lparr>tx_Version = 2,
      tx_TxIn =
        [\<lparr>ti_PreviousOutPoint = \<lparr>op_Hash = replicate 32 7, op_Index = 1\<rparr>, ti_SignatureScript = [],
          ti_Witness = Some [[1, 2, 3], [4]], ti_Sequence = 0xffffffff\<rparr>],
      tx_TxOut = [\<lparr>to_Value = 5000, to_PkScript = [0x00, 0x14, 9, 9]\<rparr>],
      tx_LockTime = 0\<rparr>"

lemma example_tx_ok: "tx_ok example_tx" "tx_TxIn example_tx \<noteq> []" "settle WitnessEncoding example_tx = example_tx"
  by (simp_all add: example_tx_def tx_ok_def txin_ok_def outpoint_ok_def txout_ok_def witness_ok_def tx_limits
      settle_def set_witness_def HasWitness_def)

text \<open>
  C22. Decoding an encoded transaction that is followed by anything returns the transaction and leaves
  what follows, in the legacy and in the witness encoding; inputs get nil witnesses unless the witness
  encoding is used and some input has a witness. The encoding has the announced size. The witness
  encoding needs at least one input, because a zero input count is its marker.
\<close>

theorem tx_roundtrip:
  assumes "tx_ok tx" and "tx_TxIn tx \<noteq> [] \<or> enc = BaseEncoding"
  shows "tx_BtcDecode enc (tx_BtcEncode enc tx @ r) = Inr (settle enc tx, r)
    \<and> length (tx_Serialize tx) = MsgTx_SerializeSize tx \<and> length (SerializeNoWitness tx) = SerializeSizeStripped tx"
  using assms tx_decode_encode [of tx enc r] by (cases enc) (auto simp: length_tx_BtcEncode tx_Serialize_def SerializeNoWitness_def)

theorem tx_roundtrip_witness:
  "tx_BtcDecode WitnessEncoding (tx_BtcEncode WitnessEncoding example_tx @ [1, 2]) = Inr (settle WitnessEncoding example_tx, [1, 2])
    \<and> length (tx_Serialize example_tx) = MsgTx_SerializeSize example_tx
    \<and> length (SerializeNoWitness example_tx) = SerializeSizeStripped example_tx"
  using tx_roundtrip [of example_tx WitnessEncoding "[1, 2]"] example_tx_ok by simp

text \<open>
  The legacy decoder is canonical: the bytes it consumes are the legacy encoding of the transaction
  it returns, so the transaction hash is the double hash of these bytes. Decoding with witnesses or
  copying a transaction does not change its hash.
\<close>

lemma txid_canonical:
  assumes "DeserializeNoWitness b = Inr (tx, r)"
  shows "(\<exists>c. b = c @ r \<and> TxHash tx = DoubleHashH c \<and> SerializeNoWitness tx = c)
    \<and> TxHash (tx_Copy tx) = TxHash tx \<and> TxHash (settle enc tx) = TxHash tx"
  using assms
  by (auto simp: legacy_decode_iff TxHash_settle) (auto simp: TxHash_def SerializeNoWitness_def tx_BtcEncode_Copy)

text \<open>
  In a transaction as the decoder returns it, every public key script stands in the serialized
  transaction at the offset \<open>PkScriptLocs\<close> reports for it.
\<close>

lemma PkScriptLocs_correct:
  assumes "tx_ok tx" and "settle WitnessEncoding tx = tx" and "i < length (tx_TxOut tx)"
  shows "take (length (to_PkScript (tx_TxOut tx ! i))) (drop (PkScriptLocs tx ! i) (tx_Serialize tx)) = to_PkScript (tx_TxOut tx ! i)"
proof -
  have "tx_TxOut tx \<noteq> []" using assms(3) by auto
  then obtain pre post where "tx_Serialize tx = pre @ concat (map WriteTxOut (tx_TxOut tx)) @ post"
      "PkScriptLocs tx = script_locs (length pre) (tx_TxOut tx)"
    using PkScriptLocs_offset [OF assms(1,2)] by blast
  then show ?thesis using script_locs_at [OF assms(3)] by simp
qed

end
