(* ===== verification/Btc_Block.thy ===== *)
theory Btc_Block
  imports Btc_Tx
begin

text \<open>
  Blocks and the messages made of counted lists: \<open>blockheader.go\<close>, \<open>msgblock.go\<close>,
  \<open>msgheaders.go\<close>, \<open>msgmerkleblock.go\<close>, \<open>invvect.go\<close> with the three inventory messages,
  and the two locator messages of \<open>bitcoin/wire\<close>. The time of a header is its Unix time. The locale
  \<open>capped_list\<close> states what the \<open>Add...\<close> methods of these messages share; the decoders, which
  call them and drop their error, rely on it.
\<close>

section \<open>Counted lists\<close>

text \<open>The decoding loop: a count, its upper bound, and that many elements.\<close>

definition read_counted :: "string \<Rightarrow> string \<Rightarrow> nat \<Rightarrow> (bytes \<Rightarrow> ('a \<times> bytes) go) \<Rightarrow> bytes \<Rightarrow> ('a list \<times> bytes) go" where
  "read_counted f desc limit dec r =
     bind_go (ReadVarInt r) (\<lambda>(count, r).
       if unat count > limit then Inl (messageError f desc) else dec_seq dec (unat count) r)"

text \<open>Calls of an \<open>Add...\<close> method whose error is dropped.\<close>

definition add_all :: "('m \<Rightarrow> 'a \<Rightarrow> 'm go) \<Rightarrow> 'a list \<Rightarrow> 'm \<Rightarrow> 'm" where
  "add_all add xs m = fold (\<lambda>x m. case add m x of Inr m' \<Rightarrow> m' | Inl _ \<Rightarrow> m) xs m"

section \<open>Block headers\<close>

record BlockHeader =
  bh_Version :: "32 word"
  bh_PrevBlock :: bytes
  bh_MerkleRoot :: bytes
  bh_Timestamp :: int
  bh_Bits :: "32 word"
  bh_Nonce :: "32 word"

definition MaxBlockHeaderPayload :: nat where
  "MaxBlockHeaderPayload = 16 + HashSize * 2"

definition blockHeaderLen :: nat where
  "blockHeaderLen = 80"

definition readBlockHeader :: "bytes \<Rightarrow> (BlockHeader \<times> bytes) go" where
  "readBlockHeader r =
     bind_go (readElements [TInt32, THash, THash, TUint32Time, TUint32, TUint32] r) (\<lambda>(es, r).
       case es of
         [EInt32 version, EHash prevBlock, EHash merkleRoot, EUint32Time timestamp, EUint32 bits, EUint32 nonce] \<Rightarrow>
           Inr (\<lparr>bh_Version = version, bh_PrevBlock = prevBlock, bh_MerkleRoot = merkleRoot,
                 bh_Timestamp = timestamp, bh_Bits = bits, bh_Nonce = nonce\<rparr>, r)
       | _ \<Rightarrow> nil_deref)"

definition writeBlockHeader :: "BlockHeader \<Rightarrow> bytes go" where
  "writeBlockHeader bh =
     (let sec = word_of_int (bh_Timestamp bh)
      in writeElements [EInt32 (bh_Version bh), EHash (bh_PrevBlock bh), EHash (bh_MerkleRoot bh),
           EUint32 sec, EUint32 (bh_Bits bh), EUint32 (bh_Nonce bh)])"

definition BlockHash :: "BlockHeader \<Rightarrow> bytes" where
  "BlockHash h = (case writeBlockHeader h of Inr buf \<Rightarrow> DoubleHashH buf | Inl _ \<Rightarrow> DoubleHashH [])"

definition NewBlockHeader :: "int \<Rightarrow> 32 word \<Rightarrow> bytes \<Rightarrow> bytes \<Rightarrow> 32 word \<Rightarrow> 32 word \<Rightarrow> BlockHeader" where
  "NewBlockHeader now version prevHash merkleRootHash bits nonce =
     \<lparr>bh_Version = version, bh_PrevBlock = prevHash, bh_MerkleRoot = merkleRootHash, bh_Timestamp = now,
      bh_Bits = bits, bh_Nonce = nonce\<rparr>"

section \<open>Blocks\<close>

record MsgBlock =
  mb_Header :: BlockHeader
  mb_Transactions :: "MsgTx list"

record TxLoc =
  TxStart :: nat
  TxLen :: nat

definition MaxBlockPayload :: nat where
  "MaxBlockPayload = 4000000"

definition minTxPayload :: nat where
  "minTxPayload = 10"

definition maxTxPerBlock :: nat where
  "maxTxPerBlock = MaxBlockPayload div minTxPayload + 1"

definition NewMsgBlock :: "BlockHeader \<Rightarrow> MsgBlock" where
  "NewMsgBlock blockHeader = \<lparr>mb_Header = blockHeader, mb_Transactions = []\<rparr>"

definition AddTransaction :: "MsgBlock \<Rightarrow> MsgTx \<Rightarrow> MsgBlock" where
  "AddTransaction msg tx = msg\<lparr>mb_Transactions := mb_Transactions msg @ [tx]\<rparr>"

definition ClearTransactions :: "MsgBlock \<Rightarrow> MsgBlock" where
  "ClearTransactions msg = msg\<lparr>mb_Transactions := []\<rparr>"

definition block_BtcDecode :: "MessageEncoding \<Rightarrow> bytes \<Rightarrow> (MsgBlock \<times> bytes) go" where
  "block_BtcDecode enc r =
     bind_go (readBlockHeader r) (\<lambda>(header, r).
     bind_go (read_counted ''MsgBlock.BtcDecode'' ''too many transactions to fit into a block'' maxTxPerBlock
               (tx_BtcDecode enc) r) (\<lambda>(txs, r).
       Inr (\<lparr>mb_Header = header, mb_Transactions = txs\<rparr>, r)))"

definition block_Deserialize :: "bytes \<Rightarrow> (MsgBlock \<times> bytes) go" where
  "block_Deserialize r = block_BtcDecode WitnessEncoding r"

definition block_DeserializeNoWitness :: "bytes \<Rightarrow> (MsgBlock \<times> bytes) go" where
  "block_DeserializeNoWitness r = block_BtcDecode BaseEncoding r"

fun read_tx_locs :: "nat \<Rightarrow> nat \<Rightarrow> bytes \<Rightarrow> ((MsgTx \<times> TxLoc) list \<times> bytes) go" where
  "read_tx_locs fullLen 0 r = Inr ([], r)"
| "read_tx_locs fullLen (Suc n) r =
     (let start = fullLen - length r
      in bind_go (tx_Deserialize r) (\<lambda>(tx, r).
         bind_go (read_tx_locs fullLen n r) (\<lambda>(locs, r').
           Inr ((tx, \<lparr>TxStart = start, TxLen = (fullLen - length r) - start\<rparr>) # locs, r'))))"

definition DeserializeTxLoc :: "bytes \<Rightarrow> ((MsgBlock \<times> TxLoc list) \<times> bytes) go" where
  "DeserializeTxLoc r =
     (let fullLen = length r
      in bind_go (readBlockHeader r) (\<lambda>(header, r).
         bind_go (ReadVarInt r) (\<lambda>(txCount, r).
           if unat txCount > maxTxPerBlock
           then Inl (messageError ''MsgBlock.DeserializeTxLoc'' ''too many transactions to fit into a block'')
           else bind_go (read_tx_locs fullLen (unat txCount) r) (\<lambda>(locs, r).
             Inr ((\<lparr>mb_Header = header, mb_Transactions = map fst locs\<rparr>, map snd locs), r)))))"

definition block_BtcEncode :: "MessageEncoding \<Rightarrow> MsgBlock \<Rightarrow> bytes go" where
  "block_BtcEncode enc msg =
     bind_go (writeBlockHeader (mb_Header msg)) (\<lambda>w.
       Inr (w @ WriteVarInt (word_of_nat (length (mb_Transactions msg)))
              @ concat (map (tx_BtcEncode enc) (mb_Transactions msg))))"

definition block_Serialize :: "MsgBlock \<Rightarrow> bytes go" where
  "block_Serialize msg = block_BtcEncode WitnessEncoding msg"

definition block_SerializeNoWitness :: "MsgBlock \<Rightarrow> bytes go" where
  "block_SerializeNoWitness msg = block_BtcEncode BaseEncoding msg"

definition block_SerializeSize :: "MsgBlock \<Rightarrow> nat" where
  "block_SerializeSize msg =
     fold (\<lambda>tx n. n + MsgTx_SerializeSize tx) (mb_Transactions msg)
       (blockHeaderLen + VarIntSerializeSize (word_of_nat (length (mb_Transactions msg))))"

definition block_SerializeSizeStripped :: "MsgBlock \<Rightarrow> nat" where
  "block_SerializeSizeStripped msg =
     fold (\<lambda>tx n. n + SerializeSizeStripped tx) (mb_Transactions msg)
       (blockHeaderLen + VarIntSerializeSize (word_of_nat (length (mb_Transactions msg))))"

definition block_BlockHash :: "MsgBlock \<Rightarrow> bytes" where
  "block_BlockHash msg = BlockHash (mb_Header msg)"

definition TxHashes :: "MsgBlock \<Rightarrow> bytes list" where
  "TxHashes msg = map TxHash (mb_Transactions msg)"

section \<open>Headers messages\<close>

record MsgHeaders =
  mh_Headers :: "BlockHeader list"

definition MaxBlockHeadersPerMsg :: nat where
  "MaxBlockHeadersPerMsg = 2000"

definition NewMsgHeaders :: MsgHeaders where
  "NewMsgHeaders = \<lparr>mh_Headers = []\<rparr>"

definition AddBlockHeader :: "MsgHeaders \<Rightarrow> BlockHeader \<Rightarrow> MsgHeaders go" where
  "AddBlockHeader msg bh =
     (if length (mh_Headers msg) + 1 > MaxBlockHeadersPerMsg
      then Inl (messageError ''MsgHeaders.AddBlockHeader'' ''too many block headers in message'')
      else Inr (msg\<lparr>mh_Headers := mh_Headers msg @ [bh]\<rparr>))"

definition readEmptyBlock :: "bytes \<Rightarrow> (BlockHeader \<times> bytes) go" where
  "readEmptyBlock r =
     bind_go (readBlockHeader r) (\<lambda>(bh, r).
     bind_go (ReadVarInt r) (\<lambda>(txCount, r).
       if txCount > 0
       then Inl (messageError ''MsgHeaders.BtcDecode'' ''block headers may not contain transactions'')
       else Inr (bh, r)))"

definition headers_BtcDecode :: "bytes \<Rightarrow> (MsgHeaders \<times> bytes) go" where
  "headers_BtcDecode r =
     bind_go (read_counted ''MsgHeaders.BtcDecode'' ''too many block headers for message'' MaxBlockHeadersPerMsg
               readEmptyBlock r) (\<lambda>(bhs, r).
       Inr (add_all AddBlockHeader bhs \<lparr>mh_Headers = []\<rparr>, r))"

definition writeEmptyBlock :: "BlockHeader \<Rightarrow> bytes go" where
  "writeEmptyBlock bh = bind_go (writeBlockHeader bh) (\<lambda>w. Inr (w @ WriteVarInt 0))"

definition headers_BtcEncode :: "MsgHeaders \<Rightarrow> bytes go" where
  "headers_BtcEncode msg =
     (let count = length (mh_Headers msg)
      in if count > MaxBlockHeadersPerMsg
         then Inl (messageError ''MsgHeaders.BtcEncode'' ''too many block headers for message'')
         else bind_go (write_all writeEmptyBlock (mh_Headers msg)) (\<lambda>w. Inr (WriteVarInt (word_of_nat count) @ w)))"

section \<open>Merkle blocks\<close>

record MsgMerkleBlock =
  mk_Header :: BlockHeader
  mk_Transactions :: "32 word"
  mk_Hashes :: "bytes list"
  mk_Flags :: bytes

definition BIP0037Version :: "32 word" where
  "BIP0037Version = 70001"

definition maxFlagsPerMerkleBlock :: nat where
  "maxFlagsPerMerkleBlock = maxTxPerBlock div 8"

definition NewMsgMerkleBlock :: "BlockHeader \<Rightarrow> MsgMerkleBlock" where
  "NewMsgMerkleBlock bh = \<lparr>mk_Header = bh, mk_Transactions = 0, mk_Hashes = [], mk_Flags = []\<rparr>"

definition AddTxHash :: "MsgMerkleBlock \<Rightarrow> bytes \<Rightarrow> MsgMerkleBlock go" where
  "AddTxHash msg hash =
     (if length (mk_Hashes msg) + 1 > maxTxPerBlock
      then Inl (messageError ''MsgMerkleBlock.AddTxHash'' ''too many tx hashes for message'')
      else Inr (msg\<lparr>mk_Hashes := mk_Hashes msg @ [hash]\<rparr>))"

definition readHash :: "bytes \<Rightarrow> (bytes \<times> bytes) go" where
  "readHash r =
     bind_go (readElement THash r) (\<lambda>(e, r). case e of EHash h \<Rightarrow> Inr (h, r) | _ \<Rightarrow> nil_deref)"

definition readUint32 :: "bytes \<Rightarrow> (32 word \<times> bytes) go" where
  "readUint32 r =
     bind_go (readElement TUint32 r) (\<lambda>(e, r). case e of EUint32 v \<Rightarrow> Inr (v, r) | _ \<Rightarrow> nil_deref)"

definition merkleblock_BtcDecode :: "32 word \<Rightarrow> bytes \<Rightarrow> (MsgMerkleBlock \<times> bytes) go" where
  "merkleblock_BtcDecode pver r =
     (if pver < BIP0037Version
      then Inl (messageError ''MsgMerkleBlock.BtcDecode'' ''merkleblock message invalid for protocol version'')
      else bind_go (readBlockHeader r) (\<lambda>(header, r).
           bind_go (readUint32 r) (\<lambda>(transactions, r).
           bind_go (read_counted ''MsgMerkleBlock.BtcDecode'' ''too many transaction hashes for message'' maxTxPerBlock
                     readHash r) (\<lambda>(hashes, r).
           let msg = add_all AddTxHash hashes
                       \<lparr>mk_Header = header, mk_Transactions = transactions, mk_Hashes = [], mk_Flags = []\<rparr>
           in bind_go (ReadVarBytes maxFlagsPerMerkleBlock r) (\<lambda>(flags, r).
                Inr (msg\<lparr>mk_Flags := flags\<rparr>, r))))))"

definition merkleblock_BtcEncode :: "32 word \<Rightarrow> MsgMerkleBlock \<Rightarrow> bytes go" where
  "merkleblock_BtcEncode pver msg =
     (if pver < BIP0037Version
      then Inl (messageError ''MsgMerkleBlock.BtcEncode'' ''merkleblock message invalid for protocol version'')
      else if length (mk_Hashes msg) > maxTxPerBlock
      then Inl (messageError ''MsgMerkleBlock.BtcDecode'' ''too many transaction hashes for message'')
      else if length (mk_Flags msg) > maxFlagsPerMerkleBlock
      then Inl (messageError ''MsgMerkleBlock.BtcDecode'' ''too many flag bytes for message'')
      else bind_go (writeBlockHeader (mk_Header msg)) (\<lambda>h.
           bind_go (writeElement (EUint32 (mk_Transactions msg))) (\<lambda>t.
           bind_go (write_all (\<lambda>hash. writeElement (EHash hash)) (mk_Hashes msg)) (\<lambda>hs.
             Inr (h @ t @ WriteVarInt (word_of_nat (length (mk_Hashes msg))) @ hs @ WriteVarBytes (mk_Flags msg))))))"

section \<open>Inventory messages\<close>

record InvVect =
  iv_Type :: "32 word"
  iv_Hash :: bytes

definition MaxInvPerMsg :: nat where
  "MaxInvPerMsg = 50000"

definition maxInvVectPayload :: nat where
  "maxInvVectPayload = 4 + HashSize"

definition NewInvVect :: "32 word \<Rightarrow> bytes \<Rightarrow> InvVect" where
  "NewInvVect typ hash = \<lparr>iv_Type = typ, iv_Hash = hash\<rparr>"

definition readInvVect :: "bytes \<Rightarrow> (InvVect \<times> bytes) go" where
  "readInvVect r =
     bind_go (readElements [TInvType, THash] r) (\<lambda>(es, r).
       case es of [EInvType t, EHash h] \<Rightarrow> Inr (\<lparr>iv_Type = t, iv_Hash = h\<rparr>, r) | _ \<Rightarrow> nil_deref)"

definition writeInvVect :: "InvVect \<Rightarrow> bytes go" where
  "writeInvVect iv = writeElements [EInvType (iv_Type iv), EHash (iv_Hash iv)]"

record MsgInv =
  inv_InvList :: "InvVect list"

record MsgGetData =
  gd_InvList :: "InvVect list"

record MsgNotFound =
  nf_InvList :: "InvVect list"

definition inv_AddInvVect :: "MsgInv \<Rightarrow> InvVect \<Rightarrow> MsgInv go" where
  "inv_AddInvVect msg iv =
     (if length (inv_InvList msg) + 1 > MaxInvPerMsg
      then Inl (messageError ''MsgInv.AddInvVect'' ''too many invvect in message'')
      else Inr (msg\<lparr>inv_InvList := inv_InvList msg @ [iv]\<rparr>))"

definition inv_BtcDecode :: "bytes \<Rightarrow> (MsgInv \<times> bytes) go" where
  "inv_BtcDecode r =
     bind_go (read_counted ''MsgInv.BtcDecode'' ''too many invvect in message'' MaxInvPerMsg readInvVect r) (\<lambda>(ivs, r).
       Inr (add_all inv_AddInvVect ivs \<lparr>inv_InvList = []\<rparr>, r))"

definition inv_BtcEncode :: "MsgInv \<Rightarrow> bytes go" where
  "inv_BtcEncode msg =
     (let count = length (inv_InvList msg)
      in if count > MaxInvPerMsg then Inl (messageError ''MsgInv.BtcEncode'' ''too many invvect in message'')
         else bind_go (write_all writeInvVect (inv_InvList msg)) (\<lambda>w. Inr (WriteVarInt (word_of_nat count) @ w)))"

definition NewMsgInv :: MsgInv where
  "NewMsgInv = \<lparr>inv_InvList = []\<rparr>"

definition getdata_AddInvVect :: "MsgGetData \<Rightarrow> InvVect \<Rightarrow> MsgGetData go" where
  "getdata_AddInvVect msg iv =
     (if length (gd_InvList msg) + 1 > MaxInvPerMsg
      then Inl (messageError ''MsgGetData.AddInvVect'' ''too many invvect in message'')
      else Inr (msg\<lparr>gd_InvList := gd_InvList msg @ [iv]\<rparr>))"

definition getdata_BtcDecode :: "bytes \<Rightarrow> (MsgGetData \<times> bytes) go" where
  "getdata_BtcDecode r =
     bind_go (read_counted ''MsgGetData.BtcDecode'' ''too many invvect in message'' MaxInvPerMsg readInvVect r) (\<lambda>(ivs, r).
       Inr (add_all getdata_AddInvVect ivs \<lparr>gd_InvList = []\<rparr>, r))"

definition getdata_BtcEncode :: "MsgGetData \<Rightarrow> bytes go" where
  "getdata_BtcEncode msg =
     (let count = length (gd_InvList msg)
      in if count > MaxInvPerMsg then Inl (messageError ''MsgGetData.BtcEncode'' ''too many invvect in message'')
         else bind_go (write_all writeInvVect (gd_InvList msg)) (\<lambda>w. Inr (WriteVarInt (word_of_nat count) @ w)))"

definition NewMsgGetData :: MsgGetData where
  "NewMsgGetData = \<lparr>gd_InvList = []\<rparr>"

definition notfound_AddInvVect :: "MsgNotFound \<Rightarrow> InvVect \<Rightarrow> MsgNotFound go" where
  "notfound_AddInvVect msg iv =
     (if length (nf_InvList msg) + 1 > MaxInvPerMsg
      then Inl (messageError ''MsgNotFound.AddInvVect'' ''too many invvect in message'')
      else Inr (msg\<lparr>nf_InvList := nf_InvList msg @ [iv]\<rparr>))"

definition notfound_BtcDecode :: "bytes \<Rightarrow> (MsgNotFound \<times> bytes) go" where
  "notfound_BtcDecode r =
     bind_go (read_counted ''MsgNotFound.BtcDecode'' ''too many invvect in message'' MaxInvPerMsg readInvVect r) (\<lambda>(ivs, r).
       Inr (add_all notfound_AddInvVect ivs \<lparr>nf_InvList = []\<rparr>, r))"

definition notfound_BtcEncode :: "MsgNotFound \<Rightarrow> bytes go" where
  "notfound_BtcEncode msg =
     (let count = length (nf_InvList msg)
      in if count > MaxInvPerMsg then Inl (messageError ''MsgNotFound.BtcEncode'' ''too many invvect in message'')
         else bind_go (write_all writeInvVect (nf_InvList msg)) (\<lambda>w. Inr (WriteVarInt (word_of_nat count) @ w)))"

definition NewMsgNotFound :: MsgNotFound where
  "NewMsgNotFound = \<lparr>nf_InvList = []\<rparr>"

section \<open>Locator messages\<close>

record MsgGetHeaders =
  gh_ProtocolVersion :: "32 word"
  gh_BlockLocatorHashes :: "bytes list"
  gh_HashStop :: bytes

record MsgGetBlocks =
  gb_ProtocolVersion :: "32 word"
  gb_BlockLocatorHashes :: "bytes list"
  gb_HashStop :: bytes

definition ProtocolVersion :: "32 word" where
  "ProtocolVersion = 70013"

definition MaxBlockLocatorsPerMsg :: nat where
  "MaxBlockLocatorsPerMsg = 500"

definition getheaders_AddBlockLocatorHash :: "MsgGetHeaders \<Rightarrow> bytes \<Rightarrow> MsgGetHeaders go" where
  "getheaders_AddBlockLocatorHash msg hash =
     (if length (gh_BlockLocatorHashes msg) + 1 > MaxBlockLocatorsPerMsg
      then Inl (messageError ''MsgGetHeaders.AddBlockLocatorHash'' ''too many block locator hashes for message'')
      else Inr (msg\<lparr>gh_BlockLocatorHashes := gh_BlockLocatorHashes msg @ [hash]\<rparr>))"

definition getheaders_BtcDecode :: "bytes \<Rightarrow> (MsgGetHeaders \<times> bytes) go" where
  "getheaders_BtcDecode r =
     bind_go (readUint32 r) (\<lambda>(version, r).
     bind_go (read_counted ''MsgGetHeaders.BtcDecode'' ''too many block locator hashes for message''
               MaxBlockLocatorsPerMsg readHash r) (\<lambda>(hashes, r).
     let msg = add_all getheaders_AddBlockLocatorHash hashes
                 \<lparr>gh_ProtocolVersion = version, gh_BlockLocatorHashes = [], gh_HashStop = zeros HashSize\<rparr>
     in bind_go (readHash r) (\<lambda>(stop, r). Inr (msg\<lparr>gh_HashStop := stop\<rparr>, r))))"

definition getheaders_BtcEncode :: "MsgGetHeaders \<Rightarrow> bytes go" where
  "getheaders_BtcEncode msg =
     (let count = length (gh_BlockLocatorHashes msg)
      in if count > MaxBlockLocatorsPerMsg
         then Inl (messageError ''MsgGetHeaders.BtcEncode'' ''too many block locator hashes for message'')
         else bind_go (writeElement (EUint32 (gh_ProtocolVersion msg))) (\<lambda>v.
              bind_go (write_all (\<lambda>hash. writeElement (EHash hash)) (gh_BlockLocatorHashes msg)) (\<lambda>hs.
              bind_go (writeElement (EHash (gh_HashStop msg))) (\<lambda>s.
                Inr (v @ WriteVarInt (word_of_nat count) @ hs @ s)))))"

definition NewMsgGetHeaders :: MsgGetHeaders where
  "NewMsgGetHeaders = \<lparr>gh_ProtocolVersion = 0, gh_BlockLocatorHashes = [], gh_HashStop = zeros HashSize\<rparr>"

definition getblocks_AddBlockLocatorHash :: "MsgGetBlocks \<Rightarrow> bytes \<Rightarrow> MsgGetBlocks go" where
  "getblocks_AddBlockLocatorHash msg hash =
     (if length (gb_BlockLocatorHashes msg) + 1 > MaxBlockLocatorsPerMsg
      then Inl (messageError ''MsgGetBlocks.AddBlockLocatorHash'' ''too many block locator hashes for message'')
      else Inr (msg\<lparr>gb_BlockLocatorHashes := gb_BlockLocatorHashes msg @ [hash]\<rparr>))"

definition getblocks_BtcDecode :: "bytes \<Rightarrow> (MsgGetBlocks \<times> bytes) go" where
  "getblocks_BtcDecode r =
     bind_go (readUint32 r) (\<lambda>(version, r).
     bind_go (read_counted ''MsgGetBlocks.BtcDecode'' ''too many block locator hashes for message''
               MaxBlockLocatorsPerMsg readHash r) (\<lambda>(hashes, r).
     let msg = add_all getblocks_AddBlockLocatorHash hashes
                 \<lparr>gb_ProtocolVersion = version, gb_BlockLocatorHashes = [], gb_HashStop = zeros HashSize\<rparr>
     in bind_go (readHash r) (\<lambda>(stop, r). Inr (msg\<lparr>gb_HashStop := stop\<rparr>, r))))"

definition getblocks_BtcEncode :: "MsgGetBlocks \<Rightarrow> bytes go" where
  "getblocks_BtcEncode msg =
     (let count = length (gb_BlockLocatorHashes msg)
      in if count > MaxBlockLocatorsPerMsg
         then Inl (messageError ''MsgGetBlocks.BtcEncode'' ''too many block locator hashes for message'')
         else bind_go (writeElement (EUint32 (gb_ProtocolVersion msg))) (\<lambda>v.
              bind_go (write_all (\<lambda>hash. writeElement (EHash hash)) (gb_BlockLocatorHashes msg)) (\<lambda>hs.
              bind_go (writeElement (EHash (gb_HashStop msg))) (\<lambda>s.
                Inr (v @ WriteVarInt (word_of_nat count) @ hs @ s)))))"

definition NewMsgGetBlocks :: "bytes \<Rightarrow> MsgGetBlocks" where
  "NewMsgGetBlocks hashStop =
     \<lparr>gb_ProtocolVersion = ProtocolVersion, gb_BlockLocatorHashes = [], gb_HashStop = hashStop\<rparr>"

section \<open>Counted lists decode\<close>

lemma read_counted_enc:
  assumes "length xs \<le> limit" and "limit < 2 ^ 64" and "dec_seq dec (length xs) (w @ r) = Inr (xs, r)"
  shows "read_counted f desc limit dec (WriteVarInt (word_of_nat (length xs)) @ w @ r) = Inr (xs, r)"
  using assms by (simp add: read_counted_def unat_of_nat)

lemma panic_free_read_counted [parser_intros]: "(\<And>b. panic_free (dec b)) \<Longrightarrow> panic_free (read_counted f desc limit dec b)"
  by (auto simp: read_counted_def messageError_def intro!: parser_intros)

text \<open>
  What the \<open>Add...\<close> methods share: they append to one list of the message, up to a cap, and refuse
  beyond it.
\<close>

locale capped_list =
  fixes items :: "'m \<Rightarrow> 'a list"
    and upd :: "('a list \<Rightarrow> 'a list) \<Rightarrow> 'm \<Rightarrow> 'm"
    and add :: "'m \<Rightarrow> 'a \<Rightarrow> 'm go"
    and cap :: nat
  assumes items_upd: "items (upd (\<lambda>_. xs) m) = xs"
    and upd_upd: "upd (\<lambda>_. ys) (upd (\<lambda>_. xs) m) = upd (\<lambda>_. ys) m"
    and upd_items: "upd (\<lambda>_. items m) m = m"
    and add_room: "length (items m) < cap \<Longrightarrow> add m x = Inr (upd (\<lambda>_. items m @ [x]) m)"
    and add_full: "cap \<le> length (items m) \<Longrightarrow> \<exists>e. add m x = Inl (GoError e)"
begin

lemma add_all_eq: "length (items m) + length xs \<le> cap \<Longrightarrow> add_all add xs m = upd (\<lambda>_. items m @ xs) m"
proof (induction xs arbitrary: m)
  case Nil
  then show ?case by (simp add: add_all_def upd_items)
next
  case (Cons x xs)
  then show ?case
    using Cons.IH [of "upd (\<lambda>_. items m @ [x]) m"]
    by (simp add: add_all_def add_room items_upd upd_upd)
qed

lemma add_keeps_cap:
  assumes "add m x = Inr m'" and "length (items m) \<le> cap"
  shows "length (items m') \<le> cap"
proof (cases "length (items m) < cap")
  case True
  then have "m' = upd (\<lambda>_. items m @ [x]) m" using assms(1) by (simp add: add_room)
  then show ?thesis using True by (simp add: items_upd)
next
  case False
  then have "\<exists>e. add m x = Inl (GoError e)" by (intro add_full) simp
  then show ?thesis using assms(1) by auto
qed

end

lemma write_all_hashes: "write_all Inr hs = Inr (concat hs)"
  by (induction hs) simp_all

lemma readHash_iff [read_iffs]: "readHash b = Inr (h, r) \<longleftrightarrow> length h = 32 \<and> b = h @ r"
proof
  show "length h = 32 \<and> b = h @ r" if "readHash b = Inr (h, r)"
    using that by (auto simp: readHash_def go_simps read_iffs HashSize_def)
qed (auto simp: readHash_def HashSize_def)

lemma readHash_append [simp, codec_simps]: "length h = 32 \<Longrightarrow> readHash (h @ r) = Inr (h, r)"
  by (simp add: readHash_iff)

lemma readUint32_put [simp, codec_simps]: "readUint32 (PutUint32 LittleEndian v @ r) = Inr (v, r)"
  by (simp add: readUint32_def)

lemma panic_free_readHash [parser_intros]: "panic_free (readHash b)" "panic_free (readUint32 b)"
  by (auto simp: readHash_def readUint32_def go_simps intro!: parser_intros)

interpretation hash_codec: canonical_codec "\<lambda>h. h" readHash "\<lambda>h. length h = 32"
  by unfold_locales (simp_all add: readHash_iff)

lemma read_hashes: "list_all (\<lambda>h. length h = 32) hs \<Longrightarrow> dec_seq readHash (length hs) (concat hs @ r) = Inr (hs, r)"
  using hash_codec.dec_seq_enc [of hs r] by simp

section \<open>Headers\<close>

definition header_ok :: "BlockHeader \<Rightarrow> bool" where
  "header_ok h \<longleftrightarrow> length (bh_PrevBlock h) = 32 \<and> length (bh_MerkleRoot h) = 32
     \<and> 0 \<le> bh_Timestamp h \<and> bh_Timestamp h < 2 ^ 32"

definition header_bytes :: "BlockHeader \<Rightarrow> bytes" where
  "header_bytes h =
     PutUint32 LittleEndian (bh_Version h) @ bh_PrevBlock h @ bh_MerkleRoot h
       @ PutUint32 LittleEndian (word_of_int (bh_Timestamp h))
       @ PutUint32 LittleEndian (bh_Bits h) @ PutUint32 LittleEndian (bh_Nonce h)"

lemma writeBlockHeader_bytes [simp]: "writeBlockHeader h = Inr (header_bytes h)"
  by (simp add: writeBlockHeader_def header_bytes_def)

lemma uint_time: "0 \<le> t \<Longrightarrow> t < 2 ^ 32 \<Longrightarrow> uint (word_of_int t :: 32 word) = t"
  by (simp add: uint_word_of_int_eq take_bit_int_eq_self)

lemma readBlockHeader_iff [read_iffs]: "readBlockHeader b = Inr (h, r) \<longleftrightarrow> header_ok h \<and> b = header_bytes h @ r"
proof
  assume "readBlockHeader b = Inr (h, r)"
  then show "header_ok h \<and> b = header_bytes h @ r"
    using uint_lt2p [where 'a = 32]
    by (auto simp: readBlockHeader_def go_simps read_iffs header_ok_def header_bytes_def HashSize_def)
next
  assume "header_ok h \<and> b = header_bytes h @ r"
  then show "readBlockHeader b = Inr (h, r)"
    by (cases h) (simp add: readBlockHeader_def header_ok_def header_bytes_def HashSize_def uint_time)
qed

lemma readBlockHeader_bytes [simp, codec_simps]: "header_ok h \<Longrightarrow> readBlockHeader (header_bytes h @ r) = Inr (h, r)"
  by (simp add: readBlockHeader_iff)

lemma length_header_bytes: "header_ok h \<Longrightarrow> length (header_bytes h) = blockHeaderLen"
  by (simp add: header_ok_def header_bytes_def blockHeaderLen_def)

lemma panic_free_readBlockHeader [parser_intros]: "panic_free (readBlockHeader b)"
  by (auto simp: readBlockHeader_def go_simps intro!: parser_intros)

interpretation header: canonical_codec header_bytes readBlockHeader header_ok
  by unfold_locales (simp_all add: readBlockHeader_iff)

lemma BlockHash_bytes: "BlockHash h = DoubleHashH (header_bytes h)"
  by (simp add: BlockHash_def)

section \<open>Blocks\<close>

definition block_ok :: "MessageEncoding \<Rightarrow> MsgBlock \<Rightarrow> bool" where
  "block_ok enc msg \<longleftrightarrow> header_ok (mb_Header msg) \<and> length (mb_Transactions msg) \<le> maxTxPerBlock
     \<and> list_all (\<lambda>tx. tx_ok tx \<and> settle enc tx = tx \<and> (tx_TxIn tx \<noteq> [] \<or> enc = BaseEncoding)) (mb_Transactions msg)"

lemmas block_limits = tx_limits MaxBlockPayload_def minTxPayload_def maxTxPerBlock_def MaxBlockHeadersPerMsg_def
  maxFlagsPerMerkleBlock_def MaxInvPerMsg_def MaxBlockLocatorsPerMsg_def

interpretation settled_tx: codec "tx_BtcEncode enc" "tx_BtcDecode enc"
  "\<lambda>tx. tx_ok tx \<and> settle enc tx = tx \<and> (tx_TxIn tx \<noteq> [] \<or> enc = BaseEncoding)" for enc
  by unfold_locales (use tx_decode_encode in fastforce)

lemma block_encode_decode:
  assumes "block_ok enc msg"
  shows "\<exists>w. block_BtcEncode enc msg = Inr w \<and> (\<forall>r. block_BtcDecode enc (w @ r) = Inr (msg, r))"
proof -
  have "read_counted f d maxTxPerBlock (tx_BtcDecode enc)
      (WriteVarInt (word_of_nat (length (mb_Transactions msg))) @ concat (map (tx_BtcEncode enc) (mb_Transactions msg)) @ r)
    = Inr (mb_Transactions msg, r)" for f d r
    using assms by (intro read_counted_enc settled_tx.dec_seq_enc) (simp_all add: block_ok_def block_limits)
  then show ?thesis
    using assms by (simp add: block_BtcEncode_def block_BtcDecode_def block_ok_def)
qed

interpretation block: checked_codec "block_BtcEncode enc" "block_BtcDecode enc" "block_ok enc" for enc
  by unfold_locales (rule block_encode_decode)

lemma panic_free_block [parser_intros]: "panic_free (block_BtcDecode enc b)"
  by (auto simp: block_BtcDecode_def intro!: parser_intros)

lemma length_block_encode:
  assumes "header_ok (mb_Header msg)" and "list_all tx_ok (mb_Transactions msg)"
  shows "length (projr (block_BtcEncode WitnessEncoding msg)) = block_SerializeSize msg"
    and "length (projr (block_BtcEncode BaseEncoding msg)) = block_SerializeSizeStripped msg"
proof -
  have "sum_list (map (length \<circ> tx_BtcEncode WitnessEncoding) (mb_Transactions msg)) = sum_list (map MsgTx_SerializeSize (mb_Transactions msg))"
      "sum_list (map (length \<circ> tx_BtcEncode BaseEncoding) (mb_Transactions msg)) = sum_list (map SerializeSizeStripped (mb_Transactions msg))"
    using assms(2) by (auto simp: list_all_iff length_tx_BtcEncode intro!: arg_cong [where f = sum_list] map_cong)
  then show "length (projr (block_BtcEncode WitnessEncoding msg)) = block_SerializeSize msg"
    and "length (projr (block_BtcEncode BaseEncoding msg)) = block_SerializeSizeStripped msg"
    using assms(1) by (simp_all add: block_BtcEncode_def block_SerializeSize_def block_SerializeSizeStripped_def
        fold_add length_concat length_header_bytes o_def)
qed

text \<open>Every transaction of a block stands at its reported location.\<close>

lemma read_tx_locs_enc:
  assumes "list_all (\<lambda>tx. tx_ok tx \<and> settle WitnessEncoding tx = tx \<and> tx_TxIn tx \<noteq> []) txs"
    and "fullLen = length (pre @ concat (map tx_Serialize txs) @ r)"
  shows "\<exists>locs. read_tx_locs fullLen (length txs) (concat (map tx_Serialize txs) @ r) = Inr (zip txs locs, r) \<and> length locs = length txs
    \<and> (\<forall>i < length txs. take (TxLen (locs ! i)) (drop (TxStart (locs ! i)) (pre @ concat (map tx_Serialize txs) @ r)) = tx_Serialize (txs ! i))"
  using assms
proof (induction txs arbitrary: pre)
  case (Cons tx txs)
  let ?c = "concat (map tx_Serialize txs)"
  have d: "tx_Deserialize (tx_Serialize tx @ ?c @ r) = Inr (tx, ?c @ r)"
    using Cons.prems(1) tx_decode_encode [of tx WitnessEncoding "?c @ r"] by (simp add: tx_Deserialize_def tx_Serialize_def)
  obtain locs where locs: "read_tx_locs fullLen (length txs) (?c @ r) = Inr (zip txs locs, r)" "length locs = length txs"
      "\<forall>i < length txs. take (TxLen (locs ! i)) (drop (TxStart (locs ! i)) ((pre @ tx_Serialize tx) @ ?c @ r)) = tx_Serialize (txs ! i)"
    using Cons.IH [of "pre @ tx_Serialize tx"] Cons.prems by auto
  let ?loc = "\<lparr>TxStart = length pre, TxLen = length (tx_Serialize tx)\<rparr>"
  have "read_tx_locs fullLen (length (tx # txs)) (concat (map tx_Serialize (tx # txs)) @ r) = Inr (zip (tx # txs) (?loc # locs), r)"
    using d locs(1) Cons.prems(2) by simp
  moreover have "take (TxLen ((?loc # locs) ! i)) (drop (TxStart ((?loc # locs) ! i)) (pre @ concat (map tx_Serialize (tx # txs)) @ r))
      = tx_Serialize ((tx # txs) ! i)" if "i < length (tx # txs)" for i
    using that locs(3) by (cases i) auto
  ultimately show ?case using locs(2) by (intro exI [of _ "?loc # locs"]) auto
qed simp

section \<open>Headers messages and merkle blocks\<close>

definition headers_ok :: "MsgHeaders \<Rightarrow> bool" where
  "headers_ok msg \<longleftrightarrow> length (mh_Headers msg) \<le> MaxBlockHeadersPerMsg \<and> list_all header_ok (mh_Headers msg)"

definition merkleblock_ok :: "MsgMerkleBlock \<Rightarrow> bool" where
  "merkleblock_ok msg \<longleftrightarrow> header_ok (mk_Header msg) \<and> length (mk_Hashes msg) \<le> maxTxPerBlock
     \<and> list_all (\<lambda>h. length h = 32) (mk_Hashes msg) \<and> length (mk_Flags msg) \<le> maxFlagsPerMerkleBlock"

interpretation empty_block: checked_codec writeEmptyBlock readEmptyBlock header_ok
proof unfold_locales
  fix h :: BlockHeader
  assume ok: "header_ok h"
  have "ReadVarInt (0 # r) = Inr (0, r)" for r
    using ReadVarInt_WriteVarInt [of 0 r] by simp
  then show "\<exists>w. writeEmptyBlock h = Inr w \<and> (\<forall>r. readEmptyBlock (w @ r) = Inr (h, r))"
    using ok by (simp add: writeEmptyBlock_def readEmptyBlock_def)
qed

interpretation headers_list: capped_list mh_Headers mh_Headers_update AddBlockHeader MaxBlockHeadersPerMsg
  by unfold_locales (auto simp: AddBlockHeader_def messageError_def)

interpretation merkle_list: capped_list mk_Hashes mk_Hashes_update AddTxHash maxTxPerBlock
  by unfold_locales (auto simp: AddTxHash_def messageError_def)

interpretation headers: checked_codec headers_BtcEncode headers_BtcDecode headers_ok
proof unfold_locales
  fix msg :: MsgHeaders
  assume ok: "headers_ok msg"
  then obtain w where w: "write_all writeEmptyBlock (mh_Headers msg) = Inr w"
      "\<forall>r. dec_seq readEmptyBlock (length (mh_Headers msg)) (w @ r) = Inr (mh_Headers msg, r)"
    using empty_block.write_all_dec [of "mh_Headers msg"] by (auto simp: headers_ok_def)
  have "read_counted f d MaxBlockHeadersPerMsg readEmptyBlock (WriteVarInt (word_of_nat (length (mh_Headers msg))) @ w @ r)
      = Inr (mh_Headers msg, r)" for f d r
    using ok w(2) by (intro read_counted_enc) (simp_all add: headers_ok_def block_limits)
  then show "\<exists>w. headers_BtcEncode msg = Inr w \<and> (\<forall>r. headers_BtcDecode (w @ r) = Inr (msg, r))"
    using ok w(1) by (simp add: headers_BtcEncode_def headers_BtcDecode_def headers_ok_def headers_list.add_all_eq Let_def)
qed

interpretation merkleblock: checked_codec "merkleblock_BtcEncode pver" "merkleblock_BtcDecode pver"
  "\<lambda>msg. merkleblock_ok msg \<and> BIP0037Version \<le> pver" for pver
proof unfold_locales
  fix msg :: MsgMerkleBlock
  assume ok: "merkleblock_ok msg \<and> BIP0037Version \<le> pver"
  have "read_counted f d maxTxPerBlock readHash (WriteVarInt (word_of_nat (length (mk_Hashes msg))) @ concat (mk_Hashes msg) @ r)
      = Inr (mk_Hashes msg, r)" for f d r
    using ok by (intro read_counted_enc read_hashes) (simp_all add: merkleblock_ok_def block_limits)
  moreover have "ReadVarBytes maxFlagsPerMerkleBlock (WriteVarBytes (mk_Flags msg) @ r) = Inr (mk_Flags msg, r)" for r
    using ok by (intro ReadVarBytes_Write) (simp_all add: merkleblock_ok_def block_limits)
  ultimately show "\<exists>w. merkleblock_BtcEncode pver msg = Inr w \<and> (\<forall>r. merkleblock_BtcDecode pver (w @ r) = Inr (msg, r))"
    using ok by (simp add: merkleblock_BtcEncode_def merkleblock_BtcDecode_def merkleblock_ok_def merkle_list.add_all_eq
        write_all_hashes not_less)
qed

lemma panic_free_headers [parser_intros]:
  "panic_free (readEmptyBlock b)" "panic_free (headers_BtcDecode b)" "panic_free (merkleblock_BtcDecode pver b)"
proof -
  show e: "panic_free (readEmptyBlock b)" for b
    by (auto simp: readEmptyBlock_def messageError_def intro!: parser_intros)
  show "panic_free (headers_BtcDecode b)"
    by (auto simp: headers_BtcDecode_def intro!: parser_intros e)
  show "panic_free (merkleblock_BtcDecode pver b)"
    by (auto simp: merkleblock_BtcDecode_def messageError_def Let_def intro!: parser_intros)
qed

section \<open>Inventories and locators\<close>

definition invvect_ok :: "InvVect \<Rightarrow> bool" where
  "invvect_ok iv \<longleftrightarrow> length (iv_Hash iv) = 32"

definition invs_ok :: "InvVect list \<Rightarrow> bool" where
  "invs_ok ivs \<longleftrightarrow> length ivs \<le> MaxInvPerMsg \<and> list_all invvect_ok ivs"

definition locators_ok :: "bytes list \<Rightarrow> bool" where
  "locators_ok hs \<longleftrightarrow> length hs \<le> MaxBlockLocatorsPerMsg \<and> list_all (\<lambda>h. length h = 32) hs"

interpretation invvect: checked_codec writeInvVect readInvVect invvect_ok
proof unfold_locales
  fix iv :: InvVect
  assume "invvect_ok iv"
  then show "\<exists>w. writeInvVect iv = Inr w \<and> (\<forall>r. readInvVect (w @ r) = Inr (iv, r))"
    by (simp add: writeInvVect_def readInvVect_def invvect_ok_def HashSize_def)
qed

lemma panic_free_readInvVect [parser_intros]: "panic_free (readInvVect b)"
  by (auto simp: readInvVect_def go_simps intro!: parser_intros)

lemma read_invs:
  assumes "invs_ok ivs"
  shows "\<exists>w. write_all writeInvVect ivs = Inr w
    \<and> (\<forall>f d r. read_counted f d MaxInvPerMsg readInvVect (WriteVarInt (word_of_nat (length ivs)) @ w @ r) = Inr (ivs, r))"
proof -
  from assms obtain w where w: "write_all writeInvVect ivs = Inr w"
      "\<forall>r. dec_seq readInvVect (length ivs) (w @ r) = Inr (ivs, r)"
    using invvect.write_all_dec [of ivs] by (auto simp: invs_ok_def)
  then have "read_counted f d MaxInvPerMsg readInvVect (WriteVarInt (word_of_nat (length ivs)) @ w @ r) = Inr (ivs, r)" for f d r
    using assms by (intro read_counted_enc) (simp_all add: invs_ok_def block_limits)
  with w(1) show ?thesis by blast
qed

lemma read_locators:
  "locators_ok hs \<Longrightarrow>
    read_counted f d MaxBlockLocatorsPerMsg readHash (WriteVarInt (word_of_nat (length hs)) @ concat hs @ r) = Inr (hs, r)"
  by (intro read_counted_enc read_hashes) (simp_all add: locators_ok_def block_limits)

interpretation inv_list: capped_list inv_InvList inv_InvList_update inv_AddInvVect MaxInvPerMsg
  by unfold_locales (auto simp: inv_AddInvVect_def messageError_def)

interpretation getdata_list: capped_list gd_InvList gd_InvList_update getdata_AddInvVect MaxInvPerMsg
  by unfold_locales (auto simp: getdata_AddInvVect_def messageError_def)

interpretation notfound_list: capped_list nf_InvList nf_InvList_update notfound_AddInvVect MaxInvPerMsg
  by unfold_locales (auto simp: notfound_AddInvVect_def messageError_def)

interpretation getheaders_list: capped_list gh_BlockLocatorHashes gh_BlockLocatorHashes_update
  getheaders_AddBlockLocatorHash MaxBlockLocatorsPerMsg
  by unfold_locales (auto simp: getheaders_AddBlockLocatorHash_def messageError_def)

interpretation getblocks_list: capped_list gb_BlockLocatorHashes gb_BlockLocatorHashes_update
  getblocks_AddBlockLocatorHash MaxBlockLocatorsPerMsg
  by unfold_locales (auto simp: getblocks_AddBlockLocatorHash_def messageError_def)

interpretation inv_msg: checked_codec inv_BtcEncode inv_BtcDecode "\<lambda>msg. invs_ok (inv_InvList msg)"
proof unfold_locales
  fix msg :: MsgInv
  assume ok: "invs_ok (inv_InvList msg)"
  then show "\<exists>w. inv_BtcEncode msg = Inr w \<and> (\<forall>r. inv_BtcDecode (w @ r) = Inr (msg, r))"
    using read_invs [OF ok] by (auto simp: inv_BtcEncode_def inv_BtcDecode_def invs_ok_def inv_list.add_all_eq Let_def)
qed

interpretation getdata_msg: checked_codec getdata_BtcEncode getdata_BtcDecode "\<lambda>msg. invs_ok (gd_InvList msg)"
proof unfold_locales
  fix msg :: MsgGetData
  assume ok: "invs_ok (gd_InvList msg)"
  then show "\<exists>w. getdata_BtcEncode msg = Inr w \<and> (\<forall>r. getdata_BtcDecode (w @ r) = Inr (msg, r))"
    using read_invs [OF ok] by (auto simp: getdata_BtcEncode_def getdata_BtcDecode_def invs_ok_def getdata_list.add_all_eq Let_def)
qed

interpretation notfound_msg: checked_codec notfound_BtcEncode notfound_BtcDecode "\<lambda>msg. invs_ok (nf_InvList msg)"
proof unfold_locales
  fix msg :: MsgNotFound
  assume ok: "invs_ok (nf_InvList msg)"
  then show "\<exists>w. notfound_BtcEncode msg = Inr w \<and> (\<forall>r. notfound_BtcDecode (w @ r) = Inr (msg, r))"
    using read_invs [OF ok] by (auto simp: notfound_BtcEncode_def notfound_BtcDecode_def invs_ok_def notfound_list.add_all_eq Let_def)
qed

interpretation getheaders_msg: checked_codec getheaders_BtcEncode getheaders_BtcDecode
  "\<lambda>msg. locators_ok (gh_BlockLocatorHashes msg) \<and> length (gh_HashStop msg) = 32"
proof unfold_locales
  fix msg :: MsgGetHeaders
  assume ok: "locators_ok (gh_BlockLocatorHashes msg) \<and> length (gh_HashStop msg) = 32"
  then have "length (gh_BlockLocatorHashes msg) \<le> MaxBlockLocatorsPerMsg" by (simp add: locators_ok_def)
  with ok show "\<exists>w. getheaders_BtcEncode msg = Inr w \<and> (\<forall>r. getheaders_BtcDecode (w @ r) = Inr (msg, r))"
    by (simp add: getheaders_BtcEncode_def getheaders_BtcDecode_def getheaders_list.add_all_eq write_all_hashes read_locators Let_def)
qed

interpretation getblocks_msg: checked_codec getblocks_BtcEncode getblocks_BtcDecode
  "\<lambda>msg. locators_ok (gb_BlockLocatorHashes msg) \<and> length (gb_HashStop msg) = 32"
proof unfold_locales
  fix msg :: MsgGetBlocks
  assume ok: "locators_ok (gb_BlockLocatorHashes msg) \<and> length (gb_HashStop msg) = 32"
  then have "length (gb_BlockLocatorHashes msg) \<le> MaxBlockLocatorsPerMsg" by (simp add: locators_ok_def)
  with ok show "\<exists>w. getblocks_BtcEncode msg = Inr w \<and> (\<forall>r. getblocks_BtcDecode (w @ r) = Inr (msg, r))"
    by (simp add: getblocks_BtcEncode_def getblocks_BtcDecode_def getblocks_list.add_all_eq write_all_hashes read_locators Let_def)
qed

lemma panic_free_inventories [parser_intros]:
  "panic_free (inv_BtcDecode b)" "panic_free (getdata_BtcDecode b)" "panic_free (notfound_BtcDecode b)"
  "panic_free (getheaders_BtcDecode b)" "panic_free (getblocks_BtcDecode b)"
  by (auto simp: inv_BtcDecode_def getdata_BtcDecode_def notfound_BtcDecode_def getheaders_BtcDecode_def
      getblocks_BtcDecode_def Let_def intro!: parser_intros)

section \<open>Properties\<close>

definition example_header :: BlockHeader where
  "example_header =
     \<lparr>bh_Version = 1, bh_PrevBlock = replicate 32 3, bh_MerkleRoot = replicate 32 4, bh_Timestamp = 1500000000,
      bh_Bits = 0x1d00ffff, bh_Nonce = 42\<rparr>"

definition example_block :: MsgBlock where
  "example_block = \<lparr>mb_Header = example_header, mb_Transactions = [example_tx]\<rparr>"

lemma example_header_ok: "header_ok example_header"
  by (simp add: example_header_def header_ok_def)

text \<open>
  The block header encoding is canonical: the decoder accepts exactly the 80-byte encodings of
  headers with 32-byte hashes and a time that fits 32 bits, and the block hash is the double hash of the
  bytes the header was read from.
\<close>

lemma header_canonical:
  assumes "readBlockHeader b = Inr (h, r)"
  shows "header_ok h \<and> (\<exists>c. b = c @ r \<and> length c = blockHeaderLen \<and> writeBlockHeader h = Inr c \<and> BlockHash h = DoubleHashH c)"
  using assms by (auto simp: readBlockHeader_iff length_header_bytes BlockHash_bytes)

text \<open>
  Reading a serialized block with \<open>DeserializeTxLoc\<close> returns the block, and every reported
  location is the range of bytes of the block that holds the serialized transaction.
\<close>

lemma tx_locations:
  assumes "block_ok WitnessEncoding msg" and "block_Serialize msg = Inr b"
  shows "\<exists>locs. DeserializeTxLoc b = Inr ((msg, locs), []) \<and> length locs = length (mb_Transactions msg)
    \<and> (\<forall>i < length locs. take (TxLen (locs ! i)) (drop (TxStart (locs ! i)) b) = tx_Serialize (mb_Transactions msg ! i))"
proof -
  let ?txs = "mb_Transactions msg"
  let ?pre = "header_bytes (mb_Header msg) @ WriteVarInt (word_of_nat (length ?txs))"
  have b: "b = ?pre @ concat (map tx_Serialize ?txs)"
    using assms(2) by (auto simp: block_Serialize_def block_BtcEncode_def tx_Serialize_def [abs_def])
  have txs: "list_all (\<lambda>tx. tx_ok tx \<and> settle WitnessEncoding tx = tx \<and> tx_TxIn tx \<noteq> []) ?txs"
    using assms(1) by (auto simp: block_ok_def list_all_iff)
  obtain locs where locs: "read_tx_locs (length b) (length ?txs) (concat (map tx_Serialize ?txs)) = Inr (zip ?txs locs, [])"
      "length locs = length ?txs"
      "\<forall>i < length ?txs. take (TxLen (locs ! i)) (drop (TxStart (locs ! i)) b) = tx_Serialize (?txs ! i)"
    using read_tx_locs_enc [OF txs, of "length b" ?pre "[]"] b by auto
  have "unat (word_of_nat (length ?txs) :: 64 word) = length ?txs"
    using assms(1) by (simp add: block_ok_def block_limits unat_of_nat)
  then have "DeserializeTxLoc b = Inr ((msg, locs), [])"
    using assms(1) locs(1,2) unfolding DeserializeTxLoc_def b [symmetric]
    by (subst b) (simp add: block_ok_def Let_def)
  then show ?thesis using locs by auto
qed

end
