(* ===== verification/Btc_Msg.thy ===== *)
theory Btc_Msg
  imports Btc_Block
begin

unbundle bit_operations_syntax

text \<open>
  The remaining messages of \<open>bitcoin/wire\<close> (addresses, ping and pong, filters, rejections, the
  version handshake, alerts, messages without payload) and \<open>message.go\<close>, which frames a message
  with its network, command, length and checksum. The \<open>Message\<close> interface is the datatype
  \<open>message\<close>; its methods dispatch on the constructor. A reader that has failed has consumed what
  it has read, so \<open>ReadMessageWithEncodingN\<close> returns the unread rest on every path. The zero
  \<open>time.Time\<close> is year 1.
\<close>

section \<open>Network addresses\<close>

definition NetAddressTimeVersion :: "32 word" where
  "NetAddressTimeVersion = 31402"

definition MultipleAddressVersion :: "32 word" where
  "MultipleAddressVersion = 209"

definition zero_time :: int where
  "zero_time = -62135596800"

record NetAddress =
  na_Timestamp :: int
  na_Services :: "64 word"
  na_IP :: "bytes option"
  na_Port :: "16 word"

definition zero_NetAddress :: NetAddress where
  "zero_NetAddress = \<lparr>na_Timestamp = zero_time, na_Services = 0, na_IP = None, na_Port = 0\<rparr>"

definition maxNetAddressPayload :: "32 word \<Rightarrow> 32 word" where
  "maxNetAddressPayload pver = (let plen = 26 in if pver \<ge> NetAddressTimeVersion then plen + 4 else plen)"

definition HasService :: "NetAddress \<Rightarrow> 64 word \<Rightarrow> bool" where
  "HasService na service = (na_Services na AND service = service)"

definition AddService :: "NetAddress \<Rightarrow> 64 word \<Rightarrow> NetAddress" where
  "AddService na service = na\<lparr>na_Services := na_Services na OR service\<rparr>"

definition NewNetAddressTimestamp :: "int \<Rightarrow> 64 word \<Rightarrow> bytes option \<Rightarrow> 16 word \<Rightarrow> NetAddress" where
  "NewNetAddressTimestamp timestamp services ip port =
     \<lparr>na_Timestamp = timestamp, na_Services = services, na_IP = ip, na_Port = port\<rparr>"

text \<open>\<open>net.IP.To16\<close>: an IPv4 address is mapped into IPv6, other lengths give nil.\<close>

definition To16 :: "bytes \<Rightarrow> bytes option" where
  "To16 ip = (if length ip = 4 then Some (zeros 10 @ [0xff, 0xff] @ ip)
              else if length ip = 16 then Some ip else None)"

definition readNetAddress :: "32 word \<Rightarrow> bool \<Rightarrow> bytes \<Rightarrow> (NetAddress \<times> bytes) go" where
  "readNetAddress pver ts r =
     bind_go (if ts \<and> pver \<ge> NetAddressTimeVersion then
                bind_go (readElement TUint32Time r) (\<lambda>(e, r).
                  case e of EUint32Time t \<Rightarrow> Inr (t, r) | _ \<Rightarrow> nil_deref)
              else Inr (zero_time, r)) (\<lambda>(timestamp, r).
     bind_go (readElements [TServiceFlag, TIP] r) (\<lambda>(es, r).
       case es of
         [EServiceFlag services, EIP ip] \<Rightarrow>
           bind_go (Uint16 BigEndian r) (\<lambda>(port, r).
             Inr (\<lparr>na_Timestamp = timestamp, na_Services = services, na_IP = Some ip, na_Port = port\<rparr>, r))
       | _ \<Rightarrow> nil_deref))"

definition writeNetAddress :: "32 word \<Rightarrow> bool \<Rightarrow> NetAddress \<Rightarrow> bytes go" where
  "writeNetAddress pver ts na =
     bind_go (if ts \<and> pver \<ge> NetAddressTimeVersion
              then writeElement (EUint32 (word_of_int (na_Timestamp na))) else Inr []) (\<lambda>t.
     let ip = (case na_IP na of
                 None \<Rightarrow> zeros 16
               | Some a \<Rightarrow> (case To16 a of None \<Rightarrow> zeros 16 | Some b \<Rightarrow> copy_bytes (zeros 16) b))
     in bind_go (writeElements [EServiceFlag (na_Services na), EIP ip]) (\<lambda>s.
          Inr (t @ s @ PutUint16 BigEndian (na_Port na))))"

record MsgAddr =
  addr_AddrList :: "NetAddress list"

definition MaxAddrPerMsg :: nat where
  "MaxAddrPerMsg = 1000"

definition AddAddress :: "MsgAddr \<Rightarrow> NetAddress \<Rightarrow> MsgAddr go" where
  "AddAddress msg na =
     (if length (addr_AddrList msg) + 1 > MaxAddrPerMsg
      then Inl (messageError ''MsgAddr.AddAddress'' ''too many addresses in message'')
      else Inr (msg\<lparr>addr_AddrList := addr_AddrList msg @ [na]\<rparr>))"

fun AddAddresses :: "MsgAddr \<Rightarrow> NetAddress list \<Rightarrow> MsgAddr go" where
  "AddAddresses msg [] = Inr msg"
| "AddAddresses msg (na # nas) = bind_go (AddAddress msg na) (\<lambda>msg. AddAddresses msg nas)"

definition ClearAddresses :: "MsgAddr \<Rightarrow> MsgAddr" where
  "ClearAddresses msg = msg\<lparr>addr_AddrList := []\<rparr>"

definition addr_BtcDecode :: "32 word \<Rightarrow> bytes \<Rightarrow> (MsgAddr \<times> bytes) go" where
  "addr_BtcDecode pver r =
     bind_go (read_counted ''MsgAddr.BtcDecode'' ''too many addresses for message'' MaxAddrPerMsg
               (readNetAddress pver True) r) (\<lambda>(nas, r).
       Inr (add_all AddAddress nas \<lparr>addr_AddrList = []\<rparr>, r))"

definition addr_BtcEncode :: "32 word \<Rightarrow> MsgAddr \<Rightarrow> bytes go" where
  "addr_BtcEncode pver msg =
     (let count = length (addr_AddrList msg)
      in if pver < MultipleAddressVersion \<and> count > 1
         then Inl (messageError ''MsgAddr.BtcEncode'' ''too many addresses for message of protocol version'')
         else if count > MaxAddrPerMsg
         then Inl (messageError ''MsgAddr.BtcEncode'' ''too many addresses for message'')
         else bind_go (write_all (writeNetAddress pver True) (addr_AddrList msg)) (\<lambda>w.
                Inr (WriteVarInt (word_of_nat count) @ w)))"

definition addr_MaxPayloadLength :: "32 word \<Rightarrow> 32 word" where
  "addr_MaxPayloadLength pver =
     (if pver < MultipleAddressVersion then word_of_nat MaxVarIntPayload + maxNetAddressPayload pver
      else word_of_nat MaxVarIntPayload + word_of_nat MaxAddrPerMsg * maxNetAddressPayload pver)"

section \<open>Ping, pong, fee filter\<close>

record MsgPing = ping_Nonce :: "64 word"
record MsgPong = pong_Nonce :: "64 word"
record MsgFeeFilter = ff_MinFee :: "64 word"

definition BIP0031Version :: "32 word" where
  "BIP0031Version = 60000"

definition FeeFilterVersion :: "32 word" where
  "FeeFilterVersion = 70013"

definition readUint64 :: "bytes \<Rightarrow> (64 word \<times> bytes) go" where
  "readUint64 r =
     bind_go (readElement TUint64 r) (\<lambda>(e, r). case e of EUint64 v \<Rightarrow> Inr (v, r) | _ \<Rightarrow> nil_deref)"

definition readInt64 :: "bytes \<Rightarrow> (64 word \<times> bytes) go" where
  "readInt64 r =
     bind_go (readElement TInt64 r) (\<lambda>(e, r). case e of EInt64 v \<Rightarrow> Inr (v, r) | _ \<Rightarrow> nil_deref)"

definition readInt32 :: "bytes \<Rightarrow> (32 word \<times> bytes) go" where
  "readInt32 r =
     bind_go (readElement TInt32 r) (\<lambda>(e, r). case e of EInt32 v \<Rightarrow> Inr (v, r) | _ \<Rightarrow> nil_deref)"

definition ping_BtcDecode :: "32 word \<Rightarrow> bytes \<Rightarrow> (MsgPing \<times> bytes) go" where
  "ping_BtcDecode pver r =
     (if pver > BIP0031Version then bind_go (readUint64 r) (\<lambda>(n, r). Inr (\<lparr>ping_Nonce = n\<rparr>, r))
      else Inr (\<lparr>ping_Nonce = 0\<rparr>, r))"

definition ping_BtcEncode :: "32 word \<Rightarrow> MsgPing \<Rightarrow> bytes go" where
  "ping_BtcEncode pver msg =
     (if pver > BIP0031Version then writeElement (EUint64 (ping_Nonce msg)) else Inr [])"

definition pong_BtcDecode :: "32 word \<Rightarrow> bytes \<Rightarrow> (MsgPong \<times> bytes) go" where
  "pong_BtcDecode pver r =
     (if pver \<le> BIP0031Version
      then Inl (messageError ''MsgPong.BtcDecode'' ''pong message invalid for protocol version'')
      else bind_go (readUint64 r) (\<lambda>(n, r). Inr (\<lparr>pong_Nonce = n\<rparr>, r)))"

definition pong_BtcEncode :: "32 word \<Rightarrow> MsgPong \<Rightarrow> bytes go" where
  "pong_BtcEncode pver msg =
     (if pver \<le> BIP0031Version
      then Inl (messageError ''MsgPong.BtcEncode'' ''pong message invalid for protocol version'')
      else writeElement (EUint64 (pong_Nonce msg)))"

definition ping_MaxPayloadLength :: "32 word \<Rightarrow> 32 word" where
  "ping_MaxPayloadLength pver = (let plen = 0 in if pver > BIP0031Version then plen + 8 else plen)"

definition feefilter_BtcDecode :: "32 word \<Rightarrow> bytes \<Rightarrow> (MsgFeeFilter \<times> bytes) go" where
  "feefilter_BtcDecode pver r =
     (if pver < FeeFilterVersion
      then Inl (messageError ''MsgFeeFilter.BtcDecode'' ''feefilter message invalid for protocol version'')
      else bind_go (readInt64 r) (\<lambda>(n, r). Inr (\<lparr>ff_MinFee = n\<rparr>, r)))"

definition feefilter_BtcEncode :: "32 word \<Rightarrow> MsgFeeFilter \<Rightarrow> bytes go" where
  "feefilter_BtcEncode pver msg =
     (if pver < FeeFilterVersion
      then Inl (messageError ''MsgFeeFilter.BtcEncode'' ''feefilter message invalid for protocol version'')
      else writeElement (EInt64 (ff_MinFee msg)))"

section \<open>Bloom filters\<close>

record MsgFilterAdd = fa_Data :: bytes

record MsgFilterLoad =
  fl_Filter :: bytes
  fl_HashFuncs :: "32 word"
  fl_Tweak :: "32 word"
  fl_Flags :: byte

definition MaxFilterAddDataSize :: nat where
  "MaxFilterAddDataSize = 520"

definition MaxFilterLoadHashFuncs :: nat where
  "MaxFilterLoadHashFuncs = 50"

definition MaxFilterLoadFilterSize :: nat where
  "MaxFilterLoadFilterSize = 36000"

definition filteradd_BtcDecode :: "32 word \<Rightarrow> bytes \<Rightarrow> (MsgFilterAdd \<times> bytes) go" where
  "filteradd_BtcDecode pver r =
     (if pver < BIP0037Version
      then Inl (messageError ''MsgFilterAdd.BtcDecode'' ''filteradd message invalid for protocol version'')
      else bind_go (ReadVarBytes MaxFilterAddDataSize r) (\<lambda>(d, r). Inr (\<lparr>fa_Data = d\<rparr>, r)))"

definition filteradd_BtcEncode :: "32 word \<Rightarrow> MsgFilterAdd \<Rightarrow> bytes go" where
  "filteradd_BtcEncode pver msg =
     (if pver < BIP0037Version
      then Inl (messageError ''MsgFilterAdd.BtcEncode'' ''filteradd message invalid for protocol version'')
      else if length (fa_Data msg) > MaxFilterAddDataSize
      then Inl (messageError ''MsgFilterAdd.BtcEncode'' ''filteradd size too large for message'')
      else Inr (WriteVarBytes (fa_Data msg)))"

definition filterload_BtcDecode :: "32 word \<Rightarrow> bytes \<Rightarrow> (MsgFilterLoad \<times> bytes) go" where
  "filterload_BtcDecode pver r =
     (if pver < BIP0037Version
      then Inl (messageError ''MsgFilterLoad.BtcDecode'' ''filterload message invalid for protocol version'')
      else bind_go (ReadVarBytes MaxFilterLoadFilterSize r) (\<lambda>(filter, r).
           bind_go (readElements [TUint32, TUint32, TBloomUpdateType] r) (\<lambda>(es, r).
             case es of
               [EUint32 hashFuncs, EUint32 tweak, EBloomUpdateType flags] \<Rightarrow>
                 if unat hashFuncs > MaxFilterLoadHashFuncs
                 then Inl (messageError ''MsgFilterLoad.BtcDecode'' ''too many filter hash functions for message'')
                 else Inr (\<lparr>fl_Filter = filter, fl_HashFuncs = hashFuncs, fl_Tweak = tweak, fl_Flags = flags\<rparr>, r)
             | _ \<Rightarrow> nil_deref)))"

definition filterload_BtcEncode :: "32 word \<Rightarrow> MsgFilterLoad \<Rightarrow> bytes go" where
  "filterload_BtcEncode pver msg =
     (if pver < BIP0037Version
      then Inl (messageError ''MsgFilterLoad.BtcEncode'' ''filterload message invalid for protocol version'')
      else if length (fl_Filter msg) > MaxFilterLoadFilterSize
      then Inl (messageError ''MsgFilterLoad.BtcEncode'' ''filterload filter size too large for message'')
      else if unat (fl_HashFuncs msg) > MaxFilterLoadHashFuncs
      then Inl (messageError ''MsgFilterLoad.BtcEncode'' ''too many filter hash functions for message'')
      else bind_go (writeElements [EUint32 (fl_HashFuncs msg), EUint32 (fl_Tweak msg), EBloomUpdateType (fl_Flags msg)])
             (\<lambda>w. Inr (WriteVarBytes (fl_Filter msg) @ w)))"

section \<open>Rejections\<close>

definition ascii :: "string \<Rightarrow> bytes" where
  "ascii s = map (\<lambda>c. word_of_nat (of_char c)) s"

definition RejectVersion :: "32 word" where
  "RejectVersion = 70002"

record MsgReject =
  rj_Cmd :: bytes
  rj_Code :: byte
  rj_Reason :: bytes
  rj_Hash :: bytes

definition NewMsgReject :: "bytes \<Rightarrow> byte \<Rightarrow> bytes \<Rightarrow> MsgReject" where
  "NewMsgReject command code reason =
     \<lparr>rj_Cmd = command, rj_Code = code, rj_Reason = reason, rj_Hash = zeros HashSize\<rparr>"

definition reject_BtcDecode :: "32 word \<Rightarrow> bytes \<Rightarrow> (MsgReject \<times> bytes) go" where
  "reject_BtcDecode pver r =
     (if pver < RejectVersion
      then Inl (messageError ''MsgReject.BtcDecode'' ''reject message invalid for protocol version'')
      else bind_go (ReadVarString r) (\<lambda>(cmd, r).
           bind_go (readElement TRejectCode r) (\<lambda>(e, r).
             case e of
               ERejectCode code \<Rightarrow>
                 bind_go (ReadVarString r) (\<lambda>(reason, r).
                 bind_go (if cmd = ascii ''block'' \<or> cmd = ascii ''tx'' then readHash r
                          else Inr (zeros HashSize, r)) (\<lambda>(hash, r).
                   Inr (\<lparr>rj_Cmd = cmd, rj_Code = code, rj_Reason = reason, rj_Hash = hash\<rparr>, r)))
             | _ \<Rightarrow> nil_deref)))"

definition reject_BtcEncode :: "32 word \<Rightarrow> MsgReject \<Rightarrow> bytes go" where
  "reject_BtcEncode pver msg =
     (if pver < RejectVersion
      then Inl (messageError ''MsgReject.BtcEncode'' ''reject message invalid for protocol version'')
      else bind_go (writeElement (ERejectCode (rj_Code msg))) (\<lambda>c.
           bind_go (if rj_Cmd msg = ascii ''block'' \<or> rj_Cmd msg = ascii ''tx''
                    then writeElement (EHash (rj_Hash msg)) else Inr []) (\<lambda>h.
             Inr (WriteVarString (rj_Cmd msg) @ c @ WriteVarString (rj_Reason msg) @ h))))"

definition reject_MaxPayloadLength :: "32 word \<Rightarrow> 32 word" where
  "reject_MaxPayloadLength pver = (if pver \<ge> RejectVersion then word_of_nat MaxMessagePayload else 0)"

section \<open>The version handshake\<close>

record MsgVersion =
  ver_ProtocolVersion :: "32 word"
  ver_Services :: "64 word"
  ver_Timestamp :: int
  ver_AddrYou :: NetAddress
  ver_AddrMe :: NetAddress
  ver_Nonce :: "64 word"
  ver_UserAgent :: bytes
  ver_LastBlock :: "32 word"
  ver_DisableRelayTx :: bool

definition MaxUserAgentLen :: nat where
  "MaxUserAgentLen = 256"

definition DefaultUserAgent :: bytes where
  "DefaultUserAgent = ascii ''/btcwire:0.5.0/''"

definition validateUserAgent :: "bytes \<Rightarrow> unit go" where
  "validateUserAgent userAgent =
     (if length userAgent > MaxUserAgentLen then Inl (messageError ''MsgVersion'' ''user agent too long'') else Inr ())"

definition ver_HasService :: "MsgVersion \<Rightarrow> 64 word \<Rightarrow> bool" where
  "ver_HasService msg service = (ver_Services msg AND service = service)"

definition ver_AddService :: "MsgVersion \<Rightarrow> 64 word \<Rightarrow> MsgVersion" where
  "ver_AddService msg service = msg\<lparr>ver_Services := ver_Services msg OR service\<rparr>"

text \<open>Every later field is optional: it is read only while bytes are left.\<close>

definition version_BtcDecode :: "32 word \<Rightarrow> bytes \<Rightarrow> (MsgVersion \<times> bytes) go" where
  "version_BtcDecode pver buf =
     bind_go (readElements [TInt32, TServiceFlag, TInt64Time] buf) (\<lambda>(es, buf).
       case es of
         [EInt32 protocolVersion, EServiceFlag services, EInt64Time timestamp] \<Rightarrow>
           bind_go (readNetAddress pver False buf) (\<lambda>(addrYou, buf).
           bind_go (if length buf > 0 then readNetAddress pver False buf else Inr (zero_NetAddress, buf)) (\<lambda>(addrMe, buf).
           bind_go (if length buf > 0 then readUint64 buf else Inr (0, buf)) (\<lambda>(nonce, buf).
           bind_go (if length buf > 0 then
                      bind_go (ReadVarString buf) (\<lambda>(userAgent, buf).
                      bind_go (validateUserAgent userAgent) (\<lambda>_. Inr (userAgent, buf)))
                    else Inr ([], buf)) (\<lambda>(userAgent, buf).
           bind_go (if length buf > 0 then readInt32 buf else Inr (0, buf)) (\<lambda>(lastBlock, buf).
           let (disableRelayTx, buf) =
                 (if length buf > 0 then
                    (case readElement TBool buf of
                       Inr (EBool relayTx, buf) \<Rightarrow> (\<not> relayTx, buf) | _ \<Rightarrow> (True, buf))
                  else (False, buf))
           in Inr (\<lparr>ver_ProtocolVersion = protocolVersion, ver_Services = services, ver_Timestamp = timestamp,
                    ver_AddrYou = addrYou, ver_AddrMe = addrMe, ver_Nonce = nonce, ver_UserAgent = userAgent,
                    ver_LastBlock = lastBlock, ver_DisableRelayTx = disableRelayTx\<rparr>, buf))))))
       | _ \<Rightarrow> nil_deref)"

definition version_BtcEncode :: "32 word \<Rightarrow> MsgVersion \<Rightarrow> bytes go" where
  "version_BtcEncode pver msg =
     bind_go (validateUserAgent (ver_UserAgent msg)) (\<lambda>_.
     bind_go (writeElements [EInt32 (ver_ProtocolVersion msg), EServiceFlag (ver_Services msg),
                EInt64 (word_of_int (ver_Timestamp msg))]) (\<lambda>a.
     bind_go (writeNetAddress pver False (ver_AddrYou msg)) (\<lambda>y.
     bind_go (writeNetAddress pver False (ver_AddrMe msg)) (\<lambda>m.
     bind_go (writeElement (EUint64 (ver_Nonce msg))) (\<lambda>n.
     bind_go (writeElement (EInt32 (ver_LastBlock msg))) (\<lambda>l.
     bind_go (if pver \<ge> BIP0037Version then writeElement (EBool (\<not> ver_DisableRelayTx msg)) else Inr []) (\<lambda>d.
       Inr (a @ y @ m @ n @ WriteVarString (ver_UserAgent msg) @ l @ d))))))))"

definition version_MaxPayloadLength :: "32 word \<Rightarrow> 32 word" where
  "version_MaxPayloadLength pver =
     33 + maxNetAddressPayload pver * 2 + word_of_nat MaxVarIntPayload + word_of_nat MaxUserAgentLen"

definition NewMsgVersion :: "int \<Rightarrow> NetAddress \<Rightarrow> NetAddress \<Rightarrow> 64 word \<Rightarrow> 32 word \<Rightarrow> MsgVersion" where
  "NewMsgVersion now me you nonce lastBlock =
     \<lparr>ver_ProtocolVersion = ProtocolVersion, ver_Services = 0, ver_Timestamp = now, ver_AddrYou = you,
      ver_AddrMe = me, ver_Nonce = nonce, ver_UserAgent = DefaultUserAgent, ver_LastBlock = lastBlock,
      ver_DisableRelayTx = False\<rparr>"

fun join_bytes :: "bytes \<Rightarrow> bytes list \<Rightarrow> bytes" where
  "join_bytes sep [] = []"
| "join_bytes sep [x] = x"
| "join_bytes sep (x # xs) = x @ sep @ join_bytes sep xs"

definition AddUserAgent :: "MsgVersion \<Rightarrow> bytes \<Rightarrow> bytes \<Rightarrow> bytes list \<Rightarrow> MsgVersion go" where
  "AddUserAgent msg name version comments =
     (let newUserAgent = name @ ascii '':'' @ version;
          newUserAgent = (if length comments \<noteq> 0
                          then newUserAgent @ ascii ''('' @ join_bytes (ascii ''; '') comments @ ascii '')''
                          else newUserAgent);
          newUserAgent = ver_UserAgent msg @ newUserAgent @ ascii ''/''
      in bind_go (validateUserAgent newUserAgent) (\<lambda>_. Inr (msg\<lparr>ver_UserAgent := newUserAgent\<rparr>)))"

section \<open>Alerts\<close>

definition fixedAlertSize :: nat where
  "fixedAlertSize = 45"

definition maxSignatureSize :: nat where
  "maxSignatureSize = 72"

definition maxAlertSize :: nat where
  "maxAlertSize = MaxMessagePayload - maxSignatureSize - MaxVarIntPayload - 1"

definition maxCountSetCancel :: nat where
  "maxCountSetCancel = (maxAlertSize - fixedAlertSize - MaxVarIntPayload + 1) div 4"

definition maxCountSetSubVer :: nat where
  "maxCountSetSubVer = (maxAlertSize - fixedAlertSize - MaxVarIntPayload + 1) div 256"

record Alert =
  al_Version :: "32 word"
  al_RelayUntil :: "64 word"
  al_Expiration :: "64 word"
  al_ID :: "32 word"
  al_Cancel :: "32 word"
  al_SetCancel :: "32 word list"
  al_MinVer :: "32 word"
  al_MaxVer :: "32 word"
  al_SetSubVer :: "bytes list"
  al_Priority :: "32 word"
  al_Comment :: bytes
  al_StatusBar :: bytes
  al_Reserved :: bytes

definition Alert_Serialize :: "Alert \<Rightarrow> bytes go" where
  "Alert_Serialize alert =
     bind_go (writeElements [EInt32 (al_Version alert), EInt64 (al_RelayUntil alert), EInt64 (al_Expiration alert),
                EInt32 (al_ID alert), EInt32 (al_Cancel alert)]) (\<lambda>a.
     if length (al_SetCancel alert) > maxCountSetCancel
     then Inl (messageError ''Alert.Serialize'' ''too many cancel alert IDs for alert'')
     else bind_go (write_all (\<lambda>c. writeElement (EInt32 c)) (al_SetCancel alert)) (\<lambda>c.
     bind_go (writeElements [EInt32 (al_MinVer alert), EInt32 (al_MaxVer alert)]) (\<lambda>v.
     if length (al_SetSubVer alert) > maxCountSetSubVer
     then Inl (messageError ''Alert.Serialize'' ''too many sub versions for alert'')
     else bind_go (writeElement (EInt32 (al_Priority alert))) (\<lambda>p.
       Inr (a @ WriteVarInt (word_of_nat (length (al_SetCancel alert))) @ c @ v
              @ WriteVarInt (word_of_nat (length (al_SetSubVer alert))) @ concat (map WriteVarString (al_SetSubVer alert))
              @ p @ WriteVarString (al_Comment alert) @ WriteVarString (al_StatusBar alert)
              @ WriteVarString (al_Reserved alert))))))"

definition Alert_Deserialize :: "bytes \<Rightarrow> (Alert \<times> bytes) go" where
  "Alert_Deserialize r =
     bind_go (readElements [TInt32, TInt64, TInt64, TInt32, TInt32] r) (\<lambda>(es, r).
       case es of
         [EInt32 version, EInt64 relayUntil, EInt64 expiration, EInt32 alertID, EInt32 cancel] \<Rightarrow>
           bind_go (read_counted ''Alert.Deserialize'' ''too many cancel alert IDs for alert'' maxCountSetCancel readInt32 r)
             (\<lambda>(setCancel, r).
           bind_go (readElements [TInt32, TInt32] r) (\<lambda>(es, r).
             case es of
               [EInt32 minVer, EInt32 maxVer] \<Rightarrow>
                 bind_go (read_counted ''Alert.Deserialize'' ''too many sub versions for alert'' maxCountSetSubVer ReadVarString r)
                   (\<lambda>(setSubVer, r).
                 bind_go (readInt32 r) (\<lambda>(priority, r).
                 bind_go (ReadVarString r) (\<lambda>(comment, r).
                 bind_go (ReadVarString r) (\<lambda>(statusBar, r).
                 bind_go (ReadVarString r) (\<lambda>(reserved, r).
                   Inr (\<lparr>al_Version = version, al_RelayUntil = relayUntil, al_Expiration = expiration, al_ID = alertID,
                         al_Cancel = cancel, al_SetCancel = setCancel, al_MinVer = minVer, al_MaxVer = maxVer,
                         al_SetSubVer = setSubVer, al_Priority = priority, al_Comment = comment,
                         al_StatusBar = statusBar, al_Reserved = reserved\<rparr>, r))))))
             | _ \<Rightarrow> nil_deref))
       | _ \<Rightarrow> nil_deref)"

record MsgAlert =
  ma_SerializedPayload :: bytes
  ma_Signature :: bytes
  ma_Payload :: "Alert option"

definition NewAlertFromPayload :: "bytes \<Rightarrow> Alert go" where
  "NewAlertFromPayload serializedPayload = bind_go (Alert_Deserialize serializedPayload) (\<lambda>(alert, r). Inr alert)"

definition alert_BtcDecode :: "bytes \<Rightarrow> (MsgAlert \<times> bytes) go" where
  "alert_BtcDecode r =
     bind_go (ReadVarBytes MaxMessagePayload r) (\<lambda>(serializedPayload, r).
     bind_go (case NewAlertFromPayload serializedPayload of
                Inr alert \<Rightarrow> Inr (Some alert) | Inl (GoError _) \<Rightarrow> Inr None | Inl (GoPanic p) \<Rightarrow> Inl (GoPanic p)) (\<lambda>payload.
     bind_go (ReadVarBytes MaxMessagePayload r) (\<lambda>(signature, r).
       Inr (\<lparr>ma_SerializedPayload = serializedPayload, ma_Signature = signature, ma_Payload = payload\<rparr>, r))))"

definition alert_BtcEncode :: "MsgAlert \<Rightarrow> bytes go" where
  "alert_BtcEncode msg =
     (let serializedpayload =
            (case ma_Payload msg of
               Some payload \<Rightarrow> (case Alert_Serialize payload of Inr r \<Rightarrow> r | Inl _ \<Rightarrow> ma_SerializedPayload msg)
             | None \<Rightarrow> ma_SerializedPayload msg)
      in if length serializedpayload = 0 then Inl (messageError ''MsgAlert.BtcEncode'' ''empty serialized payload'')
         else Inr (WriteVarBytes serializedpayload @ WriteVarBytes (ma_Signature msg)))"

definition NewMsgAlert :: "bytes \<Rightarrow> bytes \<Rightarrow> MsgAlert" where
  "NewMsgAlert serializedPayload signature =
     \<lparr>ma_SerializedPayload = serializedPayload, ma_Signature = signature, ma_Payload = None\<rparr>"

section \<open>Messages without payload\<close>

definition BIP0035Version :: "32 word" where
  "BIP0035Version = 60002"

definition SendHeadersVersion :: "32 word" where
  "SendHeadersVersion = 70012"

definition filterclear_BtcDecode :: "32 word \<Rightarrow> bytes \<Rightarrow> (unit \<times> bytes) go" where
  "filterclear_BtcDecode pver r =
     (if pver < BIP0037Version
      then Inl (messageError ''MsgFilterClear.BtcDecode'' ''filterclear message invalid for protocol version'')
      else Inr ((), r))"

definition filterclear_BtcEncode :: "32 word \<Rightarrow> bytes go" where
  "filterclear_BtcEncode pver =
     (if pver < BIP0037Version
      then Inl (messageError ''MsgFilterClear.BtcEncode'' ''filterclear message invalid for protocol version'')
      else Inr [])"

definition mempool_BtcDecode :: "32 word \<Rightarrow> bytes \<Rightarrow> (unit \<times> bytes) go" where
  "mempool_BtcDecode pver r =
     (if pver < BIP0035Version
      then Inl (messageError ''MsgMemPool.BtcDecode'' ''mempool message invalid for protocol version'')
      else Inr ((), r))"

definition mempool_BtcEncode :: "32 word \<Rightarrow> bytes go" where
  "mempool_BtcEncode pver =
     (if pver < BIP0035Version
      then Inl (messageError ''MsgMemPool.BtcEncode'' ''mempool message invalid for protocol version'')
      else Inr [])"

definition sendheaders_BtcDecode :: "32 word \<Rightarrow> bytes \<Rightarrow> (unit \<times> bytes) go" where
  "sendheaders_BtcDecode pver r =
     (if pver < SendHeadersVersion
      then Inl (messageError ''MsgSendHeaders.BtcDecode'' ''sendheaders message invalid for protocol version'')
      else Inr ((), r))"

definition sendheaders_BtcEncode :: "32 word \<Rightarrow> bytes go" where
  "sendheaders_BtcEncode pver =
     (if pver < SendHeadersVersion
      then Inl (messageError ''MsgSendHeaders.BtcEncode'' ''sendheaders message invalid for protocol version'')
      else Inr [])"

section \<open>Every message decodes what it encodes\<close>

lemma read_ints [simp, codec_simps]:
  "readUint64 (PutUint64 LittleEndian v @ r) = Inr (v, r)"
  "readInt64 (PutUint64 LittleEndian v @ r) = Inr (v, r)"
  "readInt32 (PutUint32 LittleEndian w @ r) = Inr (w, r)"
  by (simp_all add: readUint64_def readInt64_def readInt32_def)

lemma panic_free_ints [parser_intros]: "panic_free (readUint64 b)" "panic_free (readInt64 b)" "panic_free (readInt32 b)"
  by (auto simp: readUint64_def readInt64_def readInt32_def go_simps intro!: parser_intros)

definition netaddress_ok :: "32 word \<Rightarrow> bool \<Rightarrow> NetAddress \<Rightarrow> bool" where
  "netaddress_ok pver ts na \<longleftrightarrow> (\<exists>ip. na_IP na = Some ip \<and> length ip = 16)
     \<and> (if ts \<and> pver \<ge> NetAddressTimeVersion then 0 \<le> na_Timestamp na \<and> na_Timestamp na < 2 ^ 32
        else na_Timestamp na = zero_time)"

interpretation netaddress: checked_codec "writeNetAddress pver ts" "readNetAddress pver ts" "netaddress_ok pver ts" for pver ts
proof unfold_locales
  fix na :: NetAddress
  assume ok: "netaddress_ok pver ts na"
  then obtain ip where ip: "na_IP na = Some ip" "length ip = 16" by (auto simp: netaddress_ok_def)
  show "\<exists>w. writeNetAddress pver ts na = Inr w \<and> (\<forall>r. readNetAddress pver ts (w @ r) = Inr (na, r))"
    using ok ip by (auto simp: netaddress_ok_def writeNetAddress_def readNetAddress_def To16_def uint_time
        uint_time [simplified] split: if_splits)
qed

lemma panic_free_readNetAddress [parser_intros]: "panic_free (readNetAddress pver ts b)"
  by (auto simp: readNetAddress_def go_simps intro!: parser_intros)

interpretation addr_list: capped_list addr_AddrList addr_AddrList_update AddAddress MaxAddrPerMsg
  by unfold_locales (auto simp: AddAddress_def messageError_def)

definition addr_ok :: "32 word \<Rightarrow> MsgAddr \<Rightarrow> bool" where
  "addr_ok pver msg \<longleftrightarrow> list_all (netaddress_ok pver True) (addr_AddrList msg)
     \<and> length (addr_AddrList msg) \<le> MaxAddrPerMsg \<and> (pver < MultipleAddressVersion \<longrightarrow> length (addr_AddrList msg) \<le> 1)"

interpretation addr_msg: checked_codec "addr_BtcEncode pver" "addr_BtcDecode pver" "addr_ok pver" for pver
proof unfold_locales
  fix msg :: MsgAddr
  assume ok: "addr_ok pver msg"
  then obtain w where w: "write_all (writeNetAddress pver True) (addr_AddrList msg) = Inr w"
      "\<forall>r. dec_seq (readNetAddress pver True) (length (addr_AddrList msg)) (w @ r) = Inr (addr_AddrList msg, r)"
    using netaddress.write_all_dec [of pver True "addr_AddrList msg"] by (auto simp: addr_ok_def)
  have "read_counted f d MaxAddrPerMsg (readNetAddress pver True) (WriteVarInt (word_of_nat (length (addr_AddrList msg))) @ w @ r)
      = Inr (addr_AddrList msg, r)" for f d r
    using ok w(2) by (intro read_counted_enc) (simp_all add: addr_ok_def MaxAddrPerMsg_def)
  then show "\<exists>w. addr_BtcEncode pver msg = Inr w \<and> (\<forall>r. addr_BtcDecode pver (w @ r) = Inr (msg, r))"
    using ok w(1) by (auto simp: addr_BtcEncode_def addr_BtcDecode_def addr_ok_def addr_list.add_all_eq Let_def)
qed

interpretation ping_msg: checked_codec "ping_BtcEncode pver" "ping_BtcDecode pver"
  "\<lambda>msg. BIP0031Version < pver \<or> ping_Nonce msg = 0" for pver
  by unfold_locales (auto simp: ping_BtcEncode_def ping_BtcDecode_def)

interpretation pong_msg: checked_codec "pong_BtcEncode pver" "pong_BtcDecode pver" "\<lambda>msg. BIP0031Version < pver" for pver
  by unfold_locales (auto simp: pong_BtcEncode_def pong_BtcDecode_def not_le)

interpretation feefilter_msg: checked_codec "feefilter_BtcEncode pver" "feefilter_BtcDecode pver" "\<lambda>msg. FeeFilterVersion \<le> pver" for pver
  by unfold_locales (auto simp: feefilter_BtcEncode_def feefilter_BtcDecode_def not_less)

interpretation filteradd_msg: checked_codec "filteradd_BtcEncode pver" "filteradd_BtcDecode pver"
  "\<lambda>msg. BIP0037Version \<le> pver \<and> length (fa_Data msg) \<le> MaxFilterAddDataSize" for pver
  by unfold_locales (auto simp: filteradd_BtcEncode_def filteradd_BtcDecode_def MaxFilterAddDataSize_def not_less)

definition filterload_ok :: "MsgFilterLoad \<Rightarrow> bool" where
  "filterload_ok msg \<longleftrightarrow> length (fl_Filter msg) \<le> MaxFilterLoadFilterSize \<and> unat (fl_HashFuncs msg) \<le> MaxFilterLoadHashFuncs"

interpretation filterload_msg: checked_codec "filterload_BtcEncode pver" "filterload_BtcDecode pver"
  "\<lambda>msg. BIP0037Version \<le> pver \<and> filterload_ok msg" for pver
  by unfold_locales (auto simp: filterload_BtcEncode_def filterload_BtcDecode_def filterload_ok_def
      MaxFilterLoadFilterSize_def MaxFilterLoadHashFuncs_def not_less)

definition reject_ok :: "MsgReject \<Rightarrow> bool" where
  "reject_ok msg \<longleftrightarrow> length (rj_Cmd msg) \<le> MaxMessagePayload \<and> length (rj_Reason msg) \<le> MaxMessagePayload
     \<and> (if rj_Cmd msg = ascii ''block'' \<or> rj_Cmd msg = ascii ''tx'' then length (rj_Hash msg) = 32 else rj_Hash msg = zeros HashSize)"

interpretation reject_msg: checked_codec "reject_BtcEncode pver" "reject_BtcDecode pver"
  "\<lambda>msg. RejectVersion \<le> pver \<and> reject_ok msg" for pver
proof unfold_locales
  fix msg :: MsgReject
  assume ok: "RejectVersion \<le> pver \<and> reject_ok msg"
  then show "\<exists>w. reject_BtcEncode pver msg = Inr w \<and> (\<forall>r. reject_BtcDecode pver (w @ r) = Inr (msg, r))"
    by (cases "rj_Cmd msg = ascii ''block'' \<or> rj_Cmd msg = ascii ''tx''")
      (auto simp: reject_BtcEncode_def reject_BtcDecode_def reject_ok_def not_less)
qed

lemma PutUint_ne [simp]:
  "PutUint8 a \<noteq> []" "PutUint16 byteOrder v \<noteq> []" "PutUint32 byteOrder w \<noteq> []" "PutUint64 byteOrder x \<noteq> []"
  by (simp_all add: length_greater_0_conv [symmetric] del: length_greater_0_conv)

lemma WriteVarInt_ne [simp]: "WriteVarInt v \<noteq> []"
  using VarIntSerializeSize_bounds(1) [of v] by (simp add: length_greater_0_conv [symmetric] del: length_greater_0_conv)

lemma WriteVarString_ne [simp]: "WriteVarString x \<noteq> []"
  by (simp add: WriteVarString_def)

lemma sint_time: "- (2 ^ 63) \<le> t \<Longrightarrow> t < 2 ^ 63 \<Longrightarrow> sint (word_of_int t :: 64 word) = t"
  by (simp add: signed_of_int signed_take_bit_int_eq_self)

definition version_ok :: "32 word \<Rightarrow> MsgVersion \<Rightarrow> bool" where
  "version_ok pver msg \<longleftrightarrow> netaddress_ok pver False (ver_AddrYou msg) \<and> netaddress_ok pver False (ver_AddrMe msg)
     \<and> - (2 ^ 63) \<le> ver_Timestamp msg \<and> ver_Timestamp msg < 2 ^ 63 \<and> length (ver_UserAgent msg) \<le> MaxUserAgentLen"

interpretation version_msg: checked_codec "version_BtcEncode pver" "version_BtcDecode pver"
  "\<lambda>msg. BIP0037Version \<le> pver \<and> version_ok pver msg" for pver
proof unfold_locales
  fix msg :: MsgVersion
  assume ok: "BIP0037Version \<le> pver \<and> version_ok pver msg"
  then have "netaddress_ok pver False (ver_AddrYou msg)" "netaddress_ok pver False (ver_AddrMe msg)"
    by (simp_all add: version_ok_def)
  then obtain y m where y: "writeNetAddress pver False (ver_AddrYou msg) = Inr y" "\<And>r. readNetAddress pver False (y @ r) = Inr (ver_AddrYou msg, r)"
      and m: "writeNetAddress pver False (ver_AddrMe msg) = Inr m" "\<And>r. readNetAddress pver False (m @ r) = Inr (ver_AddrMe msg, r)"
    by (metis netaddress.enc_dec)
  have "length (ver_UserAgent msg) \<le> MaxMessagePayload" "validateUserAgent (ver_UserAgent msg) = Inr ()"
      "sint (word_of_int (ver_Timestamp msg) :: 64 word) = ver_Timestamp msg"
    using ok by (auto simp: version_ok_def MaxUserAgentLen_def MaxMessagePayload_def validateUserAgent_def sint_time)
  then show "\<exists>w. version_BtcEncode pver msg = Inr w \<and> (\<forall>r. version_BtcDecode pver (w @ r) = Inr (msg, r))"
    using ok by (simp add: y m version_BtcEncode_def version_BtcDecode_def)
qed

definition alert_payload_ok :: "Alert \<Rightarrow> bool" where
  "alert_payload_ok a \<longleftrightarrow> length (al_SetCancel a) \<le> maxCountSetCancel \<and> length (al_SetSubVer a) \<le> maxCountSetSubVer
     \<and> list_all (\<lambda>x. length x \<le> MaxMessagePayload) (al_SetSubVer a) \<and> length (al_Comment a) \<le> MaxMessagePayload
     \<and> length (al_StatusBar a) \<le> MaxMessagePayload \<and> length (al_Reserved a) \<le> MaxMessagePayload"

lemmas alert_limits = maxCountSetCancel_def maxCountSetSubVer_def maxAlertSize_def maxSignatureSize_def fixedAlertSize_def
  MaxMessagePayload_def MaxVarIntPayload_def

interpretation int32_codec: codec "PutUint32 LittleEndian" readInt32 "\<lambda>_. True"
  by unfold_locales simp

lemma write_all_int32: "write_all (\<lambda>c. Inr (PutUint32 LittleEndian c)) cs = Inr (concat (map (PutUint32 LittleEndian) cs))"
  by (induction cs) simp_all

interpretation alert_payload: checked_codec Alert_Serialize Alert_Deserialize alert_payload_ok
proof unfold_locales
  fix a :: Alert
  assume ok: "alert_payload_ok a"
  have "read_counted f d maxCountSetCancel readInt32
        (WriteVarInt (word_of_nat (length (al_SetCancel a))) @ concat (map (PutUint32 LittleEndian) (al_SetCancel a)) @ r)
      = Inr (al_SetCancel a, r)" for f d r
    using ok by (intro read_counted_enc int32_codec.dec_seq_enc) (simp_all add: alert_payload_ok_def alert_limits list_all_iff)
  moreover have "read_counted f d maxCountSetSubVer ReadVarString
        (WriteVarInt (word_of_nat (length (al_SetSubVer a))) @ concat (map WriteVarString (al_SetSubVer a)) @ r)
      = Inr (al_SetSubVer a, r)" for f d r
    using ok by (intro read_counted_enc varstring.dec_seq_enc) (simp_all add: alert_payload_ok_def alert_limits)
  ultimately show "\<exists>w. Alert_Serialize a = Inr w \<and> (\<forall>r. Alert_Deserialize (w @ r) = Inr (a, r))"
    using ok by (simp add: Alert_Serialize_def Alert_Deserialize_def alert_payload_ok_def write_all_int32 not_less)
qed

definition alert_ok :: "MsgAlert \<Rightarrow> bool" where
  "alert_ok msg \<longleftrightarrow> ma_SerializedPayload msg \<noteq> [] \<and> length (ma_SerializedPayload msg) \<le> MaxMessagePayload
     \<and> length (ma_Signature msg) \<le> MaxMessagePayload
     \<and> (case ma_Payload msg of
          None \<Rightarrow> (\<exists>e. NewAlertFromPayload (ma_SerializedPayload msg) = Inl (GoError e))
        | Some a \<Rightarrow> alert_payload_ok a \<and> Alert_Serialize a = Inr (ma_SerializedPayload msg))"

interpretation alert_msg: checked_codec alert_BtcEncode alert_BtcDecode alert_ok
proof unfold_locales
  fix msg :: MsgAlert
  assume ok: "alert_ok msg"
  have "NewAlertFromPayload (ma_SerializedPayload msg) = Inr a" if "ma_Payload msg = Some a" for a
    using ok that alert_payload.dec_of_enc [of a "ma_SerializedPayload msg" "[]"]
    by (simp add: alert_ok_def NewAlertFromPayload_def)
  then show "\<exists>w. alert_BtcEncode msg = Inr w \<and> (\<forall>r. alert_BtcDecode (w @ r) = Inr (msg, r))"
    using ok by (cases "ma_Payload msg")
      (auto simp: alert_ok_def alert_BtcEncode_def alert_BtcDecode_def MaxMessagePayload_def)
qed

section \<open>No input makes a decoder panic\<close>

lemma panic_free_validate [parser_intros]: "panic_free (validateUserAgent x)"
  by (simp add: validateUserAgent_def messageError_def panic_free_def)

lemma panic_free_let [parser_intros]: "(\<And>x y. p = (x, y) \<Longrightarrow> panic_free (f x y)) \<Longrightarrow> panic_free (case p of (x, y) \<Rightarrow> f x y)"
  by (cases p) simp

lemma panic_free_messages [parser_intros]:
  "panic_free (addr_BtcDecode pver b)" "panic_free (ping_BtcDecode pver b)" "panic_free (pong_BtcDecode pver b)"
  "panic_free (feefilter_BtcDecode pver b)" "panic_free (filteradd_BtcDecode pver b)"
  "panic_free (filterload_BtcDecode pver b)" "panic_free (reject_BtcDecode pver b)"
  "panic_free (filterclear_BtcDecode pver b)" "panic_free (mempool_BtcDecode pver b)" "panic_free (sendheaders_BtcDecode pver b)"
  unfolding addr_BtcDecode_def ping_BtcDecode_def pong_BtcDecode_def feefilter_BtcDecode_def filteradd_BtcDecode_def
    filterload_BtcDecode_def reject_BtcDecode_def filterclear_BtcDecode_def mempool_BtcDecode_def sendheaders_BtcDecode_def
    messageError_def
  by (auto simp: go_simps intro!: parser_intros)

lemma panic_free_version [parser_intros]: "panic_free (version_BtcDecode pver b)"
  unfolding version_BtcDecode_def Let_def by (auto simp: go_simps intro!: parser_intros)

lemma panic_free_Alert: "panic_free (Alert_Deserialize b)"
  unfolding Alert_Deserialize_def by (auto simp: go_simps intro!: parser_intros)

lemma panic_free_NewAlert: "panic_free (NewAlertFromPayload b)"
  unfolding NewAlertFromPayload_def by (auto intro!: parser_intros panic_free_Alert)

lemma panic_free_alert [parser_intros]: "panic_free (alert_BtcDecode b)"
proof -
  have "panic_free (case NewAlertFromPayload p of
      Inr alert \<Rightarrow> Inr (Some alert) | Inl (GoError _) \<Rightarrow> Inr None | Inl (GoPanic q) \<Rightarrow> Inl (GoPanic q))" for p
    using panic_free_NewAlert [of p] by (auto simp: panic_free_def split: sum.splits go_exn.splits)
  then show ?thesis
    unfolding alert_BtcDecode_def by (auto intro!: parser_intros)
qed

end
