(* ===== verification/Btc_Frame.thy ===== *)
theory Btc_Frame
  imports Btc_Msg
begin

text \<open>
  \<open>bitcoin/wire/message.go\<close>: the \<open>Message\<close> interface and the framing of a message on the wire.
  A read returns its result, the number of bytes it reports and the unread rest of the stream, also when
  it fails.
\<close>

section \<open>The message interface\<close>

datatype message =
    Version MsgVersion | VerAck | GetAddr | Addr MsgAddr | GetBlocks MsgGetBlocks | Block MsgBlock
  | Inv MsgInv | GetData MsgGetData | NotFound MsgNotFound | Tx MsgTx | Ping MsgPing | Pong MsgPong
  | GetHeaders MsgGetHeaders | Headers MsgHeaders | AlertMsg MsgAlert | MemPool | FilterAdd MsgFilterAdd
  | FilterClear | FilterLoad MsgFilterLoad | MerkleBlock MsgMerkleBlock | Reject MsgReject | SendHeaders
  | FeeFilter MsgFeeFilter

fun Command :: "message \<Rightarrow> bytes" where
  "Command (Version _) = ascii ''version''"
| "Command VerAck = ascii ''verack''"
| "Command GetAddr = ascii ''getaddr''"
| "Command (Addr _) = ascii ''addr''"
| "Command (GetBlocks _) = ascii ''getblocks''"
| "Command (Block _) = ascii ''block''"
| "Command (Inv _) = ascii ''inv''"
| "Command (GetData _) = ascii ''getdata''"
| "Command (NotFound _) = ascii ''notfound''"
| "Command (Tx _) = ascii ''tx''"
| "Command (Ping _) = ascii ''ping''"
| "Command (Pong _) = ascii ''pong''"
| "Command (GetHeaders _) = ascii ''getheaders''"
| "Command (Headers _) = ascii ''headers''"
| "Command (AlertMsg _) = ascii ''alert''"
| "Command MemPool = ascii ''mempool''"
| "Command (FilterAdd _) = ascii ''filteradd''"
| "Command FilterClear = ascii ''filterclear''"
| "Command (FilterLoad _) = ascii ''filterload''"
| "Command (MerkleBlock _) = ascii ''merkleblock''"
| "Command (Reject _) = ascii ''reject''"
| "Command SendHeaders = ascii ''sendheaders''"
| "Command (FeeFilter _) = ascii ''feefilter''"

fun MaxPayloadLength :: "32 word \<Rightarrow> message \<Rightarrow> 32 word" where
  "MaxPayloadLength pver (Version _) = version_MaxPayloadLength pver"
| "MaxPayloadLength pver (Addr _) = addr_MaxPayloadLength pver"
| "MaxPayloadLength pver (GetBlocks _) =
     4 + word_of_nat MaxVarIntPayload + word_of_nat (MaxBlockLocatorsPerMsg * HashSize) + word_of_nat HashSize"
| "MaxPayloadLength pver (Block _) = word_of_nat MaxBlockPayload"
| "MaxPayloadLength pver (Inv _) = word_of_nat MaxVarIntPayload + word_of_nat (MaxInvPerMsg * maxInvVectPayload)"
| "MaxPayloadLength pver (GetData _) = word_of_nat MaxVarIntPayload + word_of_nat (MaxInvPerMsg * maxInvVectPayload)"
| "MaxPayloadLength pver (NotFound _) = word_of_nat MaxVarIntPayload + word_of_nat (MaxInvPerMsg * maxInvVectPayload)"
| "MaxPayloadLength pver (Tx _) = word_of_nat MaxBlockPayload"
| "MaxPayloadLength pver (Ping _) = ping_MaxPayloadLength pver"
| "MaxPayloadLength pver (Pong _) = ping_MaxPayloadLength pver"
| "MaxPayloadLength pver (GetHeaders _) =
     4 + word_of_nat MaxVarIntPayload + word_of_nat (MaxBlockLocatorsPerMsg * HashSize) + word_of_nat HashSize"
| "MaxPayloadLength pver (Headers _) =
     word_of_nat MaxVarIntPayload + word_of_nat ((MaxBlockHeaderPayload + 1) * MaxBlockHeadersPerMsg)"
| "MaxPayloadLength pver (AlertMsg _) = word_of_nat MaxMessagePayload"
| "MaxPayloadLength pver (FilterAdd _) =
     word_of_nat (VarIntSerializeSize (word_of_nat MaxFilterAddDataSize)) + word_of_nat MaxFilterAddDataSize"
| "MaxPayloadLength pver (FilterLoad _) =
     word_of_nat (VarIntSerializeSize (word_of_nat MaxFilterLoadFilterSize)) + word_of_nat MaxFilterLoadFilterSize + 9"
| "MaxPayloadLength pver (MerkleBlock _) = word_of_nat MaxBlockPayload"
| "MaxPayloadLength pver (Reject _) = reject_MaxPayloadLength pver"
| "MaxPayloadLength pver (FeeFilter _) = 8"
| "MaxPayloadLength pver _ = 0"

fun BtcEncode :: "32 word \<Rightarrow> MessageEncoding \<Rightarrow> message \<Rightarrow> bytes go" where
  "BtcEncode pver enc (Version m) = version_BtcEncode pver m"
| "BtcEncode pver enc VerAck = Inr []"
| "BtcEncode pver enc GetAddr = Inr []"
| "BtcEncode pver enc (Addr m) = addr_BtcEncode pver m"
| "BtcEncode pver enc (GetBlocks m) = getblocks_BtcEncode m"
| "BtcEncode pver enc (Block m) = block_BtcEncode enc m"
| "BtcEncode pver enc (Inv m) = inv_BtcEncode m"
| "BtcEncode pver enc (GetData m) = getdata_BtcEncode m"
| "BtcEncode pver enc (NotFound m) = notfound_BtcEncode m"
| "BtcEncode pver enc (Tx m) = Inr (tx_BtcEncode enc m)"
| "BtcEncode pver enc (Ping m) = ping_BtcEncode pver m"
| "BtcEncode pver enc (Pong m) = pong_BtcEncode pver m"
| "BtcEncode pver enc (GetHeaders m) = getheaders_BtcEncode m"
| "BtcEncode pver enc (Headers m) = headers_BtcEncode m"
| "BtcEncode pver enc (AlertMsg m) = alert_BtcEncode m"
| "BtcEncode pver enc MemPool = mempool_BtcEncode pver"
| "BtcEncode pver enc (FilterAdd m) = filteradd_BtcEncode pver m"
| "BtcEncode pver enc FilterClear = filterclear_BtcEncode pver"
| "BtcEncode pver enc (FilterLoad m) = filterload_BtcEncode pver m"
| "BtcEncode pver enc (MerkleBlock m) = merkleblock_BtcEncode pver m"
| "BtcEncode pver enc (Reject m) = reject_BtcEncode pver m"
| "BtcEncode pver enc SendHeaders = sendheaders_BtcEncode pver"
| "BtcEncode pver enc (FeeFilter m) = feefilter_BtcEncode pver m"

text \<open>\<open>receive\<close> wraps what a decoder returns as a message of the receiver's type.\<close>

definition receive :: "('a \<Rightarrow> message) \<Rightarrow> ('a \<times> bytes) go \<Rightarrow> (message \<times> bytes) go" where
  "receive con m = bind_go m (\<lambda>(x, r). Inr (con x, r))"

fun BtcDecode :: "32 word \<Rightarrow> MessageEncoding \<Rightarrow> message \<Rightarrow> bytes \<Rightarrow> (message \<times> bytes) go" where
  "BtcDecode pver enc (Version _) r = receive Version (version_BtcDecode pver r)"
| "BtcDecode pver enc VerAck r = Inr (VerAck, r)"
| "BtcDecode pver enc GetAddr r = Inr (GetAddr, r)"
| "BtcDecode pver enc (Addr _) r = receive Addr (addr_BtcDecode pver r)"
| "BtcDecode pver enc (GetBlocks _) r = receive GetBlocks (getblocks_BtcDecode r)"
| "BtcDecode pver enc (Block _) r = receive Block (block_BtcDecode enc r)"
| "BtcDecode pver enc (Inv _) r = receive Inv (inv_BtcDecode r)"
| "BtcDecode pver enc (GetData _) r = receive GetData (getdata_BtcDecode r)"
| "BtcDecode pver enc (NotFound _) r = receive NotFound (notfound_BtcDecode r)"
| "BtcDecode pver enc (Tx _) r = receive Tx (tx_BtcDecode enc r)"
| "BtcDecode pver enc (Ping _) r = receive Ping (ping_BtcDecode pver r)"
| "BtcDecode pver enc (Pong _) r = receive Pong (pong_BtcDecode pver r)"
| "BtcDecode pver enc (GetHeaders _) r = receive GetHeaders (getheaders_BtcDecode r)"
| "BtcDecode pver enc (Headers _) r = receive Headers (headers_BtcDecode r)"
| "BtcDecode pver enc (AlertMsg _) r = receive AlertMsg (alert_BtcDecode r)"
| "BtcDecode pver enc MemPool r = receive (\<lambda>_. MemPool) (mempool_BtcDecode pver r)"
| "BtcDecode pver enc (FilterAdd _) r = receive FilterAdd (filteradd_BtcDecode pver r)"
| "BtcDecode pver enc FilterClear r = receive (\<lambda>_. FilterClear) (filterclear_BtcDecode pver r)"
| "BtcDecode pver enc (FilterLoad _) r = receive FilterLoad (filterload_BtcDecode pver r)"
| "BtcDecode pver enc (MerkleBlock _) r = receive MerkleBlock (merkleblock_BtcDecode pver r)"
| "BtcDecode pver enc (Reject _) r = receive Reject (reject_BtcDecode pver r)"
| "BtcDecode pver enc SendHeaders r = receive (\<lambda>_. SendHeaders) (sendheaders_BtcDecode pver r)"
| "BtcDecode pver enc (FeeFilter _) r = receive FeeFilter (feefilter_BtcDecode pver r)"

text \<open>The zero values of the message structs.\<close>

definition zero_header :: BlockHeader where
  "zero_header = \<lparr>bh_Version = 0, bh_PrevBlock = zeros HashSize, bh_MerkleRoot = zeros HashSize,
     bh_Timestamp = zero_time, bh_Bits = 0, bh_Nonce = 0\<rparr>"

definition zero_version :: MsgVersion where
  "zero_version = \<lparr>ver_ProtocolVersion = 0, ver_Services = 0, ver_Timestamp = zero_time,
     ver_AddrYou = zero_NetAddress, ver_AddrMe = zero_NetAddress, ver_Nonce = 0, ver_UserAgent = [],
     ver_LastBlock = 0, ver_DisableRelayTx = False\<rparr>"

definition makeEmptyMessage :: "bytes \<Rightarrow> message go" where
  "makeEmptyMessage command =
     (if command = ascii ''version'' then Inr (Version zero_version)
      else if command = ascii ''verack'' then Inr VerAck
      else if command = ascii ''getaddr'' then Inr GetAddr
      else if command = ascii ''addr'' then Inr (Addr \<lparr>addr_AddrList = []\<rparr>)
      else if command = ascii ''getblocks''
      then Inr (GetBlocks \<lparr>gb_ProtocolVersion = 0, gb_BlockLocatorHashes = [], gb_HashStop = zeros HashSize\<rparr>)
      else if command = ascii ''block'' then Inr (Block \<lparr>mb_Header = zero_header, mb_Transactions = []\<rparr>)
      else if command = ascii ''inv'' then Inr (Inv \<lparr>inv_InvList = []\<rparr>)
      else if command = ascii ''getdata'' then Inr (GetData \<lparr>gd_InvList = []\<rparr>)
      else if command = ascii ''notfound'' then Inr (NotFound \<lparr>nf_InvList = []\<rparr>)
      else if command = ascii ''tx''
      then Inr (Tx \<lparr>tx_Version = 0, tx_TxIn = [], tx_TxOut = [], tx_LockTime = 0\<rparr>)
      else if command = ascii ''ping'' then Inr (Ping \<lparr>ping_Nonce = 0\<rparr>)
      else if command = ascii ''pong'' then Inr (Pong \<lparr>pong_Nonce = 0\<rparr>)
      else if command = ascii ''getheaders''
      then Inr (GetHeaders \<lparr>gh_ProtocolVersion = 0, gh_BlockLocatorHashes = [], gh_HashStop = zeros HashSize\<rparr>)
      else if command = ascii ''headers'' then Inr (Headers \<lparr>mh_Headers = []\<rparr>)
      else if command = ascii ''alert''
      then Inr (AlertMsg \<lparr>ma_SerializedPayload = [], ma_Signature = [], ma_Payload = None\<rparr>)
      else if command = ascii ''mempool'' then Inr MemPool
      else if command = ascii ''filteradd'' then Inr (FilterAdd \<lparr>fa_Data = []\<rparr>)
      else if command = ascii ''filterclear'' then Inr FilterClear
      else if command = ascii ''filterload''
      then Inr (FilterLoad \<lparr>fl_Filter = [], fl_HashFuncs = 0, fl_Tweak = 0, fl_Flags = 0\<rparr>)
      else if command = ascii ''merkleblock''
      then Inr (MerkleBlock \<lparr>mk_Header = zero_header, mk_Transactions = 0, mk_Hashes = [], mk_Flags = []\<rparr>)
      else if command = ascii ''reject''
      then Inr (Reject \<lparr>rj_Cmd = [], rj_Code = 0, rj_Reason = [], rj_Hash = zeros HashSize\<rparr>)
      else if command = ascii ''sendheaders'' then Inr SendHeaders
      else if command = ascii ''feefilter'' then Inr (FeeFilter \<lparr>ff_MinFee = 0\<rparr>)
      else Inl (GoError ''unhandled command''))"

section \<open>Headers of messages\<close>

definition MessageHeaderSize :: nat where
  "MessageHeaderSize = 24"

record messageHeader =
  hdr_magic :: "32 word"
  hdr_command :: bytes
  hdr_length :: "32 word"
  hdr_checksum :: bytes

text \<open>A full read with the number of bytes delivered and the rest of the stream.\<close>

definition readFullN :: "nat \<Rightarrow> bytes \<Rightarrow> bytes go \<times> nat \<times> bytes" where
  "readFullN n r =
     (case readFull n r of
        Inr (x, r') \<Rightarrow> (Inr x, n, r')
      | Inl e \<Rightarrow> (Inl e, length r, []))"

definition TrimRightZeros :: "bytes \<Rightarrow> bytes" where
  "TrimRightZeros b = rev (dropWhile (\<lambda>x. x = 0) (rev b))"

text \<open>The error of \<open>readElements\<close> is dropped; it cannot occur on 24 bytes.\<close>

definition readMessageHeader :: "bytes \<Rightarrow> messageHeader go \<times> nat \<times> bytes" where
  "readMessageHeader r =
     (case readFullN MessageHeaderSize r of
        (Inl e, n, r) \<Rightarrow> (Inl e, n, r)
      | (Inr headerBytes, n, r) \<Rightarrow>
          (case readElements [TBitcoinNet, TCommand, TUint32, TChecksum] headerBytes of
             Inr ([EBitcoinNet magic, ECommand command, EUint32 len, EChecksum checksum], _) \<Rightarrow>
               (Inr \<lparr>hdr_magic = magic, hdr_command = TrimRightZeros command, hdr_length = len, hdr_checksum = checksum\<rparr>, n, r)
           | _ \<Rightarrow> (Inr \<lparr>hdr_magic = 0, hdr_command = [], hdr_length = 0, hdr_checksum = zeros 4\<rparr>, n, r)))"

definition discardInput :: "nat \<Rightarrow> bytes \<Rightarrow> bytes" where
  "discardInput n r =
     (let maxSize = 10 * 1024;
          numReads = n div maxSize;
          bytesRemaining = n mod maxSize;
          r = (if n > 0 then fold (\<lambda>_ r. snd (snd (readFullN maxSize r))) [0..<numReads] r else r)
      in if bytesRemaining > 0 then snd (snd (readFullN bytesRemaining r)) else r)"

section \<open>UTF-8\<close>

definition in_range :: "byte \<Rightarrow> byte \<Rightarrow> byte \<Rightarrow> bool" where
  "in_range lo hi b \<longleftrightarrow> lo \<le> b \<and> b \<le> hi"

abbreviation continuation :: "byte \<Rightarrow> bool" where
  "continuation \<equiv> in_range 0x80 0xbf"

fun utf8_ValidString :: "bytes \<Rightarrow> bool" where
  "utf8_ValidString [] = True"
| "utf8_ValidString (a # s) =
     (if a < 0x80 then utf8_ValidString s
      else (case s of
          [] \<Rightarrow> False
        | b # s' \<Rightarrow>
            if in_range 0xc2 0xdf a then continuation b \<and> utf8_ValidString s'
            else (case s' of
                [] \<Rightarrow> False
              | c # s'' \<Rightarrow>
                  if a = 0xe0 then in_range 0xa0 0xbf b \<and> continuation c \<and> utf8_ValidString s''
                  else if a = 0xed then in_range 0x80 0x9f b \<and> continuation c \<and> utf8_ValidString s''
                  else if in_range 0xe1 0xef a then continuation b \<and> continuation c \<and> utf8_ValidString s''
                  else (case s'' of
                      [] \<Rightarrow> False
                    | d # s''' \<Rightarrow>
                        (if a = 0xf0 then in_range 0x90 0xbf b
                         else if in_range 0xf1 0xf3 a then continuation b
                         else a = 0xf4 \<and> in_range 0x80 0x8f b)
                        \<and> continuation c \<and> continuation d \<and> utf8_ValidString s'''))))"

section \<open>Writing and reading\<close>

definition WriteMessageWithEncodingN :: "message \<Rightarrow> 32 word \<Rightarrow> 32 word \<Rightarrow> MessageEncoding \<Rightarrow> bytes go" where
  "WriteMessageWithEncodingN msg pver btcnet encoding =
     (let cmd = Command msg
      in if length cmd > CommandSize then Inl (messageError ''WriteMessage'' ''command is too long'')
         else let command = copy_bytes (zeros CommandSize) cmd
              in bind_go (BtcEncode pver encoding msg) (\<lambda>payload.
                   let lenp = length payload
                   in if lenp > MaxMessagePayload
                      then Inl (messageError ''WriteMessage'' ''message payload is too large'')
                      else if word_of_nat lenp > MaxPayloadLength pver msg
                      then Inl (messageError ''WriteMessage'' ''message payload is too large for messages of its type'')
                      else let checksum = copy_bytes (zeros 4) (take 4 (DoubleHashB payload))
                           in bind_go (writeElements [EBitcoinNet btcnet, ECommand command,
                                EUint32 (word_of_nat lenp), EChecksum checksum]) (\<lambda>hw. Inr (hw @ payload))))"

definition ReadMessageWithEncodingN ::
  "32 word \<Rightarrow> 32 word \<Rightarrow> MessageEncoding \<Rightarrow> bytes \<Rightarrow> (message \<times> bytes) go \<times> nat \<times> bytes" where
  "ReadMessageWithEncodingN pver btcnet enc r =
     (case readMessageHeader r of
        (Inl e, n, r) \<Rightarrow> (Inl e, n, r)
      | (Inr hdr, n, r) \<Rightarrow>
          let len = unat (hdr_length hdr)
          in if len > MaxMessagePayload
             then (Inl (messageError ''ReadMessage'' ''message payload is too large''), n, r)
             else if hdr_magic hdr \<noteq> btcnet
             then (Inl (messageError ''ReadMessage'' ''message from other network''), n, discardInput len r)
             else if \<not> utf8_ValidString (hdr_command hdr)
             then (Inl (messageError ''ReadMessage'' ''invalid command''), n, discardInput len r)
             else (case makeEmptyMessage (hdr_command hdr) of
                 Inl _ \<Rightarrow> (Inl (messageError ''ReadMessage'' ''unhandled command''), n, discardInput len r)
               | Inr msg \<Rightarrow>
                   if hdr_length hdr > MaxPayloadLength pver msg
                   then (Inl (messageError ''ReadMessage'' ''payload exceeds max length''), n, discardInput len r)
                   else (case readFullN len r of
                       (Inl e, k, r) \<Rightarrow> (Inl e, n + k, r)
                     | (Inr payload, k, r) \<Rightarrow>
                         if take 4 (DoubleHashB payload) \<noteq> hdr_checksum hdr
                         then (Inl (messageError ''ReadMessage'' ''payload checksum failed''), n + k, r)
                         else (case BtcDecode pver enc msg payload of
                             Inl e \<Rightarrow> (Inl e, n + k, r)
                           | Inr (msg, _) \<Rightarrow> (Inr (msg, payload), n + k, r)))))"

definition WriteMessage :: "message \<Rightarrow> 32 word \<Rightarrow> 32 word \<Rightarrow> bytes go" where
  "WriteMessage msg pver btcnet = WriteMessageWithEncodingN msg pver btcnet BaseEncoding"

definition ReadMessage :: "32 word \<Rightarrow> 32 word \<Rightarrow> bytes \<Rightarrow> (message \<times> bytes) go \<times> bytes" where
  "ReadMessage pver btcnet r =
     (case ReadMessageWithEncodingN pver btcnet BaseEncoding r of (m, n, r) \<Rightarrow> (m, r))"

section \<open>Commands\<close>

lemma ascii_inject [simp]: "ascii s = ascii t \<longleftrightarrow> s = t"
proof
  assume a: "ascii s = ascii t"
  have inj: "inj (\<lambda>c. word_of_nat (of_char c) :: byte)"
  proof (rule injI)
    fix c d :: char
    assume "(word_of_nat (of_char c) :: byte) = word_of_nat (of_char d)"
    then have "unat (word_of_nat (of_char c) :: byte) = unat (word_of_nat (of_char d) :: byte)" by simp
    then have "of_char c = (of_char d :: nat)"
      using of_char_mod_256 [of c, where 'a = nat] of_char_mod_256 [of d, where 'a = nat] by (simp add: unat_of_nat)
    then show "c = d" by simp
  qed
  from a show "s = t" unfolding ascii_def by (rule inj_map_eq_map [OF inj, THEN iffD1])
qed simp

lemma makeEmptyMessage_Command:
  "\<exists>m0. makeEmptyMessage (Command m) = Inr m0 \<and> MaxPayloadLength pver m0 = MaxPayloadLength pver m
    \<and> BtcDecode pver enc m0 = BtcDecode pver enc m"
  by (cases m) (simp_all add: makeEmptyMessage_def fun_eq_iff)

lemma makeEmptyMessage_Inr: "makeEmptyMessage cmd = Inr m \<Longrightarrow> Command m = cmd"
  by (auto simp: makeEmptyMessage_def split: if_splits)

lemma makeEmptyMessage_Inl: "makeEmptyMessage cmd = Inl e \<Longrightarrow> e = GoError ''unhandled command''"
  by (auto simp: makeEmptyMessage_def split: if_splits)

lemma Command_BtcDecode: "BtcDecode pver enc m0 b = Inr (m, r) \<Longrightarrow> Command m = Command m0"
  by (cases m0) (auto simp: receive_def go_simps)

lemma BtcDecode_receiver: "BtcDecode pver enc m0 b = Inr (m, r) \<Longrightarrow> BtcDecode pver enc m = BtcDecode pver enc m0"
  by (cases m0) (auto simp: receive_def go_simps fun_eq_iff)

lemma utf8_ascii: "list_all (\<lambda>b. b < 0x80) s \<Longrightarrow> utf8_ValidString s"
  by (induction s) simp_all

lemma Command_shape:
  "length (Command m) \<le> CommandSize \<and> list_all (\<lambda>b. 0 < b \<and> b < 0x80) (Command m)"
  by (cases m) (simp_all add: ascii_def CommandSize_def)

lemma TrimRightZeros_pad:
  assumes "list_all (\<lambda>b. 0 < b) c"
  shows "TrimRightZeros (c @ zeros k) = c"
proof -
  have "dropWhile (\<lambda>x. x = 0) (zeros k @ rev c) = dropWhile (\<lambda>x. x = 0) (rev c)"
    by (induction k) simp_all
  also have "\<dots> = rev c"
    using assms by (cases c rule: rev_cases) (auto simp: list_all_iff)
  finally show ?thesis by (simp add: TrimRightZeros_def)
qed

section \<open>Encoding and decoding by constructor\<close>

fun message_ok :: "32 word \<Rightarrow> MessageEncoding \<Rightarrow> message \<Rightarrow> bool" where
  "message_ok pver enc (Version m) = (BIP0037Version \<le> pver \<and> version_ok pver m)"
| "message_ok pver enc VerAck = True"
| "message_ok pver enc GetAddr = True"
| "message_ok pver enc (Addr m) = addr_ok pver m"
| "message_ok pver enc (GetBlocks m) = (locators_ok (gb_BlockLocatorHashes m) \<and> length (gb_HashStop m) = 32)"
| "message_ok pver enc (Block m) = block_ok enc m"
| "message_ok pver enc (Inv m) = invs_ok (inv_InvList m)"
| "message_ok pver enc (GetData m) = invs_ok (gd_InvList m)"
| "message_ok pver enc (NotFound m) = invs_ok (nf_InvList m)"
| "message_ok pver enc (Tx m) = (tx_ok m \<and> settle enc m = m \<and> (tx_TxIn m \<noteq> [] \<or> enc = BaseEncoding))"
| "message_ok pver enc (Ping m) = (BIP0031Version < pver \<or> ping_Nonce m = 0)"
| "message_ok pver enc (Pong m) = (BIP0031Version < pver)"
| "message_ok pver enc (GetHeaders m) = (locators_ok (gh_BlockLocatorHashes m) \<and> length (gh_HashStop m) = 32)"
| "message_ok pver enc (Headers m) = headers_ok m"
| "message_ok pver enc (AlertMsg m) = alert_ok m"
| "message_ok pver enc MemPool = (BIP0035Version \<le> pver)"
| "message_ok pver enc (FilterAdd m) = (BIP0037Version \<le> pver \<and> length (fa_Data m) \<le> MaxFilterAddDataSize)"
| "message_ok pver enc FilterClear = (BIP0037Version \<le> pver)"
| "message_ok pver enc (FilterLoad m) = (BIP0037Version \<le> pver \<and> filterload_ok m)"
| "message_ok pver enc (MerkleBlock m) = (merkleblock_ok m \<and> BIP0037Version \<le> pver)"
| "message_ok pver enc (Reject m) = (RejectVersion \<le> pver \<and> reject_ok m)"
| "message_ok pver enc SendHeaders = (SendHeadersVersion \<le> pver)"
| "message_ok pver enc (FeeFilter m) = (FeeFilterVersion \<le> pver)"

lemmas message_codecs = version_msg.enc_dec addr_msg.enc_dec getblocks_msg.enc_dec block.enc_dec inv_msg.enc_dec
  getdata_msg.enc_dec notfound_msg.enc_dec ping_msg.enc_dec pong_msg.enc_dec getheaders_msg.enc_dec headers.enc_dec
  alert_msg.enc_dec filteradd_msg.enc_dec filterload_msg.enc_dec merkleblock.enc_dec reject_msg.enc_dec feefilter_msg.enc_dec

lemma receive_Inr [simp]: "receive con (Inr (x, r)) = Inr (con x, r)"
  by (simp add: receive_def)

lemma receive_codec:
  "\<exists>w. e = Inr w \<and> (\<forall>r. d (w @ r) = Inr (x, r)) \<Longrightarrow> \<exists>w. e = Inr w \<and> (\<forall>r. receive con (d (w @ r)) = Inr (con x, r))"
  by auto

lemma message_encode_decode:
  assumes "message_ok pver enc m"
  shows "\<exists>w. BtcEncode pver enc m = Inr w \<and> (\<forall>r. BtcDecode pver enc m (w @ r) = Inr (m, r))"
proof (cases m)
  case (Tx tx)
  then show ?thesis using assms settled_tx.dec_enc [of tx enc] by simp
next
  case MemPool
  then show ?thesis using assms leD [of BIP0035Version pver] by (auto simp: mempool_BtcEncode_def mempool_BtcDecode_def)
next
  case FilterClear
  then show ?thesis using assms leD [of BIP0037Version pver] by (auto simp: filterclear_BtcEncode_def filterclear_BtcDecode_def)
next
  case SendHeaders
  then show ?thesis using assms leD [of SendHeadersVersion pver] by (auto simp: sendheaders_BtcEncode_def sendheaders_BtcDecode_def)
qed (use assms in \<open>simp_all add: receive_codec message_codecs\<close>)

lemma panic_free_receive [parser_intros]: "panic_free m \<Longrightarrow> panic_free (receive con m)"
  by (auto simp: receive_def intro!: parser_intros)

lemma panic_free_BtcDecode [parser_intros]: "panic_free (BtcDecode pver enc m b)"
  by (cases m) (auto intro!: parser_intros)

section \<open>Frames\<close>

lemma readFullN_append [simp]: "length x = n \<Longrightarrow> readFullN n (x @ r) = (Inr x, n, r)"
  by (simp add: readFullN_def)

lemma readFullN_rest: "snd (snd (readFullN n r)) = drop n r"
  by (simp add: readFullN_def readFull_def)

lemma fold_drop: "fold (\<lambda>_ r. drop k r) [0..<n] r = drop (n * k) r"
  by (induction n) (simp_all add: add.commute)

lemma discardInput_drop: "discardInput n r = drop n r"
proof -
  have "drop (n mod k) (drop (n div k * k) r) = drop n r" for k
    by (simp add: add.commute)
  moreover have "n mod k = 0 \<Longrightarrow> n div k * k = n" for k
    by (metis add.right_neutral div_mult_mod_eq)
  ultimately show ?thesis
    by (simp add: discardInput_def readFullN_rest fold_drop Let_def)
qed

lemma readMessageHeader_encoded:
  assumes "list_all (\<lambda>b. 0 < b) cmd" and "length cmd \<le> CommandSize" and "length chk = 4"
  shows "readMessageHeader (PutUint32 LittleEndian net @ copy_bytes (zeros CommandSize) cmd @ PutUint32 LittleEndian len @ chk @ r)
    = (Inr \<lparr>hdr_magic = net, hdr_command = cmd, hdr_length = len, hdr_checksum = chk\<rparr>, 24, r)"
proof -
  let ?c = "copy_bytes (zeros CommandSize) cmd"
  let ?h = "PutUint32 LittleEndian net @ ?c @ PutUint32 LittleEndian len @ chk"
  have pad: "?c = cmd @ zeros (CommandSize - length cmd)"
    using assms(2) by (simp add: copy_bytes_def)
  have "readFullN MessageHeaderSize (?h @ r) = (Inr ?h, 24, r)"
    using assms(3) readFullN_append [of ?h MessageHeaderSize r] by (simp add: MessageHeaderSize_def CommandSize_def)
  moreover have "readElements [TBitcoinNet, TCommand, TUint32, TChecksum] ?h
      = Inr ([EBitcoinNet net, ECommand ?c, EUint32 len, EChecksum chk], [])"
    using assms(3) readFull_append [of chk 4 "[]"] by simp
  moreover have "TrimRightZeros ?c = cmd"
    unfolding pad by (rule TrimRightZeros_pad [OF assms(1)])
  ultimately show ?thesis
    by (simp add: readMessageHeader_def)
qed

lemma readMessageHeader_Inr:
  "readMessageHeader r = (Inr hdr, n, r1) \<Longrightarrow> n = 24 \<and> (\<exists>h. length h = 24 \<and> r = h @ r1)"
  by (auto simp: readMessageHeader_def readFullN_def MessageHeaderSize_def readFull_iff split: sum.splits prod.splits
      list.splits element.splits)

lemma write_read_message:
  assumes "message_ok pver enc m" and "WriteMessageWithEncodingN m pver net enc = Inr w"
  shows "\<exists>payload. ReadMessageWithEncodingN pver net enc (w @ r) = (Inr (m, payload), length w, r)
    \<and> BtcEncode pver enc m = Inr payload"
proof -
  obtain payload where p: "BtcEncode pver enc m = Inr payload" "\<And>r. BtcDecode pver enc m (payload @ r) = Inr (m, r)"
    using message_encode_decode [OF assms(1)] by blast
  let ?chk = "take 4 (DoubleHashB payload)" and ?len = "word_of_nat (length payload) :: 32 word"
  have shape: "list_all (\<lambda>b. 0 < b) (Command m)" "length (Command m) \<le> CommandSize" "utf8_ValidString (Command m)"
    using Command_shape [of m] by (auto simp: list_all_iff intro!: utf8_ascii)
  have len: "length payload \<le> MaxMessagePayload" "?len \<le> MaxPayloadLength pver m"
      and w: "w = PutUint32 LittleEndian net @ copy_bytes (zeros CommandSize) (Command m) @ PutUint32 LittleEndian ?len @ ?chk @ payload"
    using assms(2) p(1) by (auto simp: WriteMessageWithEncodingN_def Let_def not_less split: if_splits)
  have "unat ?len = length payload"
    using len(1) by (simp add: unat_of_nat MaxMessagePayload_def)
  moreover obtain m0 where "makeEmptyMessage (Command m) = Inr m0" "MaxPayloadLength pver m0 = MaxPayloadLength pver m"
      "BtcDecode pver enc m0 = BtcDecode pver enc m"
    using makeEmptyMessage_Command by blast
  moreover have "readMessageHeader (w @ r)
      = (Inr \<lparr>hdr_magic = net, hdr_command = Command m, hdr_length = ?len, hdr_checksum = ?chk\<rparr>, 24, payload @ r)"
    using readMessageHeader_encoded [OF shape(1,2), of ?chk net ?len "payload @ r"] by (simp add: w)
  moreover have "length w = 24 + length payload"
    by (simp add: w CommandSize_def)
  moreover have "BtcDecode pver enc m payload = Inr (m, [])"
    using p(2) [of "[]"] by simp
  ultimately have "ReadMessageWithEncodingN pver net enc (w @ r) = (Inr (m, payload), length w, r)"
    using len shape(3) by (simp add: ReadMessageWithEncodingN_def Let_def not_less)
  then show ?thesis using p(1) by blast
qed

lemma ping_written:
  "\<exists>w. WriteMessageWithEncodingN (Ping \<lparr>ping_Nonce = 7\<rparr>) 70013 0xd9b4bef9 BaseEncoding = Inr w"
  by (simp add: WriteMessageWithEncodingN_def ascii_def CommandSize_def ping_BtcEncode_def BIP0031Version_def
      MaxMessagePayload_def ping_MaxPayloadLength_def)

section \<open>Properties\<close>

text \<open>
  C21. Any message of the protocol that is well formed for the protocol version and that is written to a
  stream is read back unchanged, whatever follows on the stream: the reader returns the message, its
  payload and the number of bytes written, and leaves what follows.
\<close>

theorem message_roundtrip:
  assumes "message_ok pver enc m" and "WriteMessageWithEncodingN m pver net enc = Inr w"
  shows "\<exists>payload. ReadMessageWithEncodingN pver net enc (w @ r) = (Inr (m, payload), length w, r)
    \<and> BtcEncode pver enc m = Inr payload"
  using assms by (rule write_read_message)

theorem message_roundtrip_witness:
  "\<exists>w. WriteMessageWithEncodingN (Ping \<lparr>ping_Nonce = 7\<rparr>) 70013 0xd9b4bef9 BaseEncoding = Inr w
    \<and> (\<exists>payload. ReadMessageWithEncodingN 70013 0xd9b4bef9 BaseEncoding (w @ [1, 2, 3]) = (Inr (Ping \<lparr>ping_Nonce = 7\<rparr>, payload), length w, [1, 2, 3])
        \<and> BtcEncode 70013 BaseEncoding (Ping \<lparr>ping_Nonce = 7\<rparr>) = Inr payload)"
  using ping_written message_roundtrip [of 70013 BaseEncoding "Ping \<lparr>ping_Nonce = 7\<rparr>" "0xd9b4bef9" _ "[1, 2, 3]"]
  by (auto simp: BIP0031Version_def)

text \<open>
  Whatever bytes arrive, reading a message does not panic, and a message is only returned when the
  stream starts with a frame for this network whose command is that of the message, whose payload has the
  announced length and stays within the limits, and whose checksum is that of the payload.
\<close>

lemma accepted_frames:
  "\<not> is_panic (fst (ReadMessageWithEncodingN pver net enc s))
    \<and> (ReadMessageWithEncodingN pver net enc s = (Inr (m, payload), n, r) \<longrightarrow>
        (\<exists>hdr h. readMessageHeader s = (Inr hdr, 24, payload @ r) \<and> s = h @ payload @ r \<and> length h = 24
          \<and> hdr_magic hdr = net \<and> hdr_command hdr = Command m \<and> unat (hdr_length hdr) = length payload
          \<and> hdr_checksum hdr = take 4 (DoubleHashB payload) \<and> length payload \<le> MaxMessagePayload
          \<and> n = 24 + length payload \<and> (\<exists>rest. BtcDecode pver enc m payload = Inr (m, rest))))"
proof -
  have hdr_err: "\<not> is_panic (Inl e :: (message \<times> bytes) go)" if "readMessageHeader s = (Inl e, k, r')" for e k r' s
    using that by (auto simp: readMessageHeader_def readFullN_def readFull_def split: sum.splits prod.splits if_splits
        list.splits element.splits)
  have read_err: "\<not> is_panic (Inl e :: (message \<times> bytes) go)" if "readFullN i s = (Inl e, k, r')" for e k r' i s
    using that by (auto simp: readFullN_def readFull_def split: if_splits)
  have dec_err: "\<not> is_panic (Inl e :: (message \<times> bytes) go)" if "BtcDecode pver enc m0 p = Inl e" for e m0 p
    using panic_free_BtcDecode [of pver enc m0 p] that by (cases e) (auto simp: panic_free_def)
  have "\<not> is_panic (fst (ReadMessageWithEncodingN pver net enc s))"
    by (auto simp: ReadMessageWithEncodingN_def Let_def messageError_def hdr_err read_err dec_err
        split: prod.splits sum.splits)
  moreover have "\<exists>hdr h. readMessageHeader s = (Inr hdr, 24, payload @ r) \<and> s = h @ payload @ r \<and> length h = 24
          \<and> hdr_magic hdr = net \<and> hdr_command hdr = Command m \<and> unat (hdr_length hdr) = length payload
          \<and> hdr_checksum hdr = take 4 (DoubleHashB payload) \<and> length payload \<le> MaxMessagePayload
          \<and> n = 24 + length payload \<and> (\<exists>rest. BtcDecode pver enc m payload = Inr (m, rest))"
    if read: "ReadMessageWithEncodingN pver net enc s = (Inr (m, payload), n, r)"
  proof -
    from read obtain hdr k r1 m0 j where h: "readMessageHeader s = (Inr hdr, k, r1)" and m0: "makeEmptyMessage (hdr_command hdr) = Inr m0"
        and p: "readFullN (unat (hdr_length hdr)) r1 = (Inr payload, j, r)" and d: "\<exists>rest. BtcDecode pver enc m0 payload = Inr (m, rest)"
        and c: "hdr_magic hdr = net" "take 4 (DoubleHashB payload) = hdr_checksum hdr" "unat (hdr_length hdr) \<le> MaxMessagePayload"
        and n: "n = k + j"
      by (auto simp: ReadMessageWithEncodingN_def Let_def not_less split: prod.splits sum.splits if_splits)
    have "r1 = payload @ r" "length payload = unat (hdr_length hdr)" "j = unat (hdr_length hdr)"
      using p by (auto simp: readFullN_def readFull_iff split: sum.splits prod.splits)
    moreover have "Command m = hdr_command hdr"
      using d m0 by (auto dest!: Command_BtcDecode makeEmptyMessage_Inr)
    moreover from d obtain rest where "BtcDecode pver enc m0 payload = Inr (m, rest)" ..
    then have "\<exists>rest. BtcDecode pver enc m payload = Inr (m, rest)"
      by (simp add: BtcDecode_receiver [of pver enc m0 payload m rest])
    ultimately show ?thesis
      using h c n readMessageHeader_Inr [OF h] by auto
  qed
  ultimately show ?thesis by blast
qed

text \<open>
  A frame that is refused does not desynchronise the stream: unless its announced length exceeds
  the overall limit, the reader has consumed exactly the header and the announced payload, whether the
  message is accepted, comes from another network, has an unknown command, is too long for its type, or
  fails its checksum or its decoding.
\<close>

lemma refused_frames_consumed:
  assumes "readMessageHeader s = (Inr hdr, n, r)" and "unat (hdr_length hdr) \<le> MaxMessagePayload"
  shows "snd (snd (ReadMessageWithEncodingN pver net enc s)) = drop (24 + unat (hdr_length hdr)) s"
proof -
  have "snd (snd (ReadMessageWithEncodingN pver net enc s)) = drop (unat (hdr_length hdr)) r"
    using assms readFullN_rest [of "unat (hdr_length hdr)" r]
    by (auto simp: ReadMessageWithEncodingN_def Let_def discardInput_drop split: prod.splits sum.splits)
  also have "\<dots> = drop (24 + unat (hdr_length hdr)) s"
    using readMessageHeader_Inr [OF assms(1)] by auto
  finally show ?thesis .
qed

end
