(* ===== verification/Merkle_Tree.thy ===== *)
theory Merkle_Tree
  imports Btc_Block
begin

unbundle bit_operations_syntax

text \<open>
  \<open>bitcoin/blockchain/merkle.go\<close>, which stores a merkle tree of transactions in a linear array, and
  \<open>utils/merkleproof.go\<close>, which makes, serializes and checks inclusion proofs over that array. A nil
  hash pointer is \<open>None\<close>. \<open>math.Log2\<close> is the exact integer logarithm; the \<open>float64\<close>
  result rounds down to it for all lengths of transaction lists that fit into memory. Positions are
  \<open>uint64\<close>, as in the code.
\<close>

section \<open>Building the tree\<close>

fun Log2_floor :: "nat \<Rightarrow> nat" where
  "Log2_floor n = (if n < 2 then 0 else Suc (Log2_floor (n div 2)))"

declare Log2_floor.simps [simp del]

definition nextPowerOfTwo :: "int \<Rightarrow> int" where
  "nextPowerOfTwo n =
     (if n AND (n - 1) = 0 then n
      else let exponent = Log2_floor (nat n) + 1 in push_bit exponent 1)"

definition HashMerkleBranches :: "bytes \<Rightarrow> bytes \<Rightarrow> bytes" where
  "HashMerkleBranches left right =
     (let hash = copy_bytes (zeros HashSize) left @ copy_bytes (zeros HashSize) right
      in DoubleHashH hash)"

definition merkle_parent :: "bytes option \<Rightarrow> bytes option \<Rightarrow> bytes option" where
  "merkle_parent left right =
     (case left of
        None \<Rightarrow> None
      | Some l \<Rightarrow> (case right of
                     None \<Rightarrow> Some (HashMerkleBranches l l)
                   | Some r \<Rightarrow> Some (HashMerkleBranches l r)))"

definition base_hash :: "bool \<Rightarrow> nat \<Rightarrow> MsgTx \<Rightarrow> bytes" where
  "base_hash witness i tx =
     (if witness \<and> i = 0 then zeros HashSize else if witness then WitnessHash tx else TxHash tx)"

fun merkle_leaves :: "bool \<Rightarrow> nat \<Rightarrow> MsgTx list \<Rightarrow> bytes option list \<Rightarrow> bytes option list" where
  "merkle_leaves witness i [] merkles = merkles"
| "merkle_leaves witness i (tx # txs) merkles =
     merkle_leaves witness (Suc i) txs (merkles[i := Some (base_hash witness i tx)])"

function merkle_loop :: "nat \<Rightarrow> nat \<Rightarrow> bytes option list \<Rightarrow> bytes option list" where
  "merkle_loop i offset merkles =
     (if i < length merkles - 1
      then merkle_loop (i + 2) (offset + 1) (merkles[offset := merkle_parent (merkles ! i) (merkles ! (i + 1))])
      else merkles)"
  by pat_completeness auto
termination by (relation "measure (\<lambda>(i, _, m). length m - i)") auto

declare merkle_loop.simps [simp del]

text \<open>An empty list of transactions makes the array size negative and \<open>make\<close> panic.\<close>

definition BuildMerkleTreeStore :: "MsgTx list \<Rightarrow> bool \<Rightarrow> bytes option list go" where
  "BuildMerkleTreeStore transactions witness =
     (let nextPoT = nextPowerOfTwo (int (length transactions));
          arraySize = nextPoT * 2 - 1
      in if arraySize < 0 then Inl (GoPanic ''makeslice: len out of range'')
         else Inr (merkle_loop 0 (nat nextPoT)
                    (merkle_leaves witness 0 transactions (replicate (nat arraySize) None))))"

section \<open>Inclusion proofs\<close>

record MerkleProof =
  mp_Position :: "64 word"
  mp_Hashes :: "bytes option list"

definition calcTreeHeight :: "64 word \<Rightarrow> nat option" where
  "calcTreeHeight n = power_loop n 0"

definition next_index :: "nat \<Rightarrow> 64 word \<Rightarrow> 64 word" where
  "next_index treeHeight idx = drop_bit 1 idx OR push_bit treeHeight 1"

fun proof_loop :: "bytes option list \<Rightarrow> nat \<Rightarrow> nat \<Rightarrow> 64 word \<Rightarrow> bytes option list go" where
  "proof_loop tree treeHeight 0 idx = Inr []"
| "proof_loop tree treeHeight (Suc n) idx =
     (if unat (idx XOR 1) \<ge> length tree then index_out_of_range
      else if tree ! unat (idx XOR 1) = None \<and> unat idx \<ge> length tree then index_out_of_range
      else let h = (if tree ! unat (idx XOR 1) = None then tree ! unat idx else tree ! unat (idx XOR 1))
           in bind_go (proof_loop tree treeHeight n (next_index treeHeight idx)) (\<lambda>hs. Inr (h # hs)))"

text \<open>\<open>None\<close> is the height loop that does not end.\<close>

definition NewMerkleProof :: "bytes option list \<Rightarrow> 64 word \<Rightarrow> MerkleProof go option" where
  "NewMerkleProof merkleTree idx =
     (case calcTreeHeight (word_of_nat ((length merkleTree + 1) div 2)) of
        None \<Rightarrow> None
      | Some treeHeight \<Rightarrow>
          Some (bind_go (proof_loop merkleTree treeHeight treeHeight idx) (\<lambda>hs.
                  Inr \<lparr>mp_Position = idx, mp_Hashes = hs\<rparr>)))"

fun write_hashes :: "bytes option list \<Rightarrow> bytes go" where
  "write_hashes [] = Inr []"
| "write_hashes (None # ps) = nil_deref"
| "write_hashes (Some p # ps) = bind_go (write_hashes ps) (\<lambda>w. Inr (p @ w))"

definition MerkleProof_Bytes :: "MerkleProof \<Rightarrow> bytes go" where
  "MerkleProof_Bytes m = bind_go (write_hashes (mp_Hashes m)) (\<lambda>w. Inr (putBE64 (mp_Position m) @ w))"

function read_hashes_loop :: "bytes \<Rightarrow> bytes option list" where
  "read_hashes_loop buf =
     (if length buf < 32 then []
      else let (b, buf) = bufNext 32 buf
           in (case NewHash b of Inr h \<Rightarrow> Some h | Inl _ \<Rightarrow> None) # read_hashes_loop buf)"
  by pat_completeness auto
termination by (relation "measure length") (auto simp: bufNext_def)

declare read_hashes_loop.simps [simp del]

definition NewMerkleProofFromBytes :: "bytes \<Rightarrow> MerkleProof" where
  "NewMerkleProofFromBytes b =
     (case readBE64 b of
        Inr (position, buf) \<Rightarrow> \<lparr>mp_Position = position, mp_Hashes = read_hashes_loop buf\<rparr>
      | Inl _ \<Rightarrow> \<lparr>mp_Position = 0, mp_Hashes = []\<rparr>)"

fun check_loop :: "nat \<Rightarrow> 64 word \<Rightarrow> bytes option list \<Rightarrow> bytes \<Rightarrow> bytes go" where
  "check_loop treeHeight hashIdx [] hash = Inr hash"
| "check_loop treeHeight hashIdx (None # hs) hash = nil_deref"
| "check_loop treeHeight hashIdx (Some h # hs) hash =
     (let newHash = (if hashIdx AND 1 = 1 then DoubleHashH (h @ hash) else DoubleHashH (hash @ h))
      in check_loop treeHeight (next_index treeHeight hashIdx) hs newHash)"

definition MerkleProof_Check :: "MerkleProof \<Rightarrow> bytes \<Rightarrow> bytes \<Rightarrow> bool go" where
  "MerkleProof_Check prf hash expectedRoot =
     bind_go (check_loop (length (mp_Hashes prf)) (mp_Position prf) (mp_Hashes prf) hash) (\<lambda>h.
       Inr (h = expectedRoot))"

section \<open>Powers of two\<close>

lemma and_pred_eq_0_imp: "0 < n \<Longrightarrow> int n AND (int n - 1) = 0 \<Longrightarrow> \<exists>k. n = 2 ^ k"
proof (induction n rule: less_induct)
  case (less n)
  show ?case
  proof (cases "even n")
    case True
    then obtain m where m: "n = 2 * m" by blast
    have "(2 * int m - 1) div 2 = int m - 1" by presburger
    then have "int m AND (int m - 1) = 0"
      using less.prems(2) by (subst (asm) and_int_rec) (simp add: m)
    moreover have "0 < m" "m < n" using less.prems(1) m by auto
    ultimately obtain k where "m = 2 ^ k" using less.IH by blast
    then have "n = 2 ^ Suc k" by (simp add: m)
    then show ?thesis ..
  next
    case False
    then obtain m where m: "n = 2 * m + 1" by (auto elim: oddE)
    have "int m AND int m = 0"
      using less.prems(2) by (subst (asm) and_int_rec) (simp add: m)
    then have "n = 2 ^ 0" by (simp add: m)
    then show ?thesis ..
  qed
qed

lemma and_pred_power: "(2 ^ k :: int) AND (2 ^ k - 1) = 0"
proof -
  have "(2 ^ k :: int) AND (2 ^ k - 1) = take_bit k (2 ^ k)"
    by (simp only: take_bit_eq_mask mask_eq_exp_minus_1)
  then show ?thesis by simp
qed

lemma Log2_floor_bounds: "0 < n \<Longrightarrow> 2 ^ Log2_floor n \<le> n \<and> n < 2 ^ Suc (Log2_floor n)"
proof (induction n rule: Log2_floor.induct)
  case (1 n)
  show ?case
  proof (cases "n < 2")
    case True
    then show ?thesis using "1.prems" by (simp add: Log2_floor.simps)
  next
    case False
    then have "2 ^ Log2_floor (n div 2) \<le> n div 2 \<and> n div 2 < 2 ^ Suc (Log2_floor (n div 2))"
      using 1 by simp
    then show ?thesis using False by (auto simp: Log2_floor.simps [of n])
  qed
qed

lemma nextPowerOfTwo_least:
  assumes "0 < n"
  shows "\<exists>h. nextPowerOfTwo (int n) = 2 ^ h \<and> n \<le> 2 ^ h \<and> (\<forall>k < h. 2 ^ k < n)"
proof (cases "int n AND (int n - 1) = 0")
  case True
  then obtain h where "n = 2 ^ h" using and_pred_eq_0_imp [OF assms] by blast
  then show ?thesis using True by (intro exI [of _ h]) (simp add: nextPowerOfTwo_def)
next
  case False
  let ?l = "Log2_floor n"
  have "n \<noteq> 2 ^ ?l"
  proof
    assume "n = 2 ^ ?l"
    then have "int n AND (int n - 1) = 0" using and_pred_power [of ?l] by (metis of_nat_numeral of_nat_power)
    with False show False ..
  qed
  then have l: "2 ^ ?l < n" "n < 2 ^ Suc ?l" using Log2_floor_bounds [OF assms] by auto
  have "2 ^ k < n" if "k < Suc ?l" for k
  proof -
    have "(2 :: nat) ^ k \<le> 2 ^ ?l" using that by (intro power_increasing) auto
    then show ?thesis using l(1) by (rule le_less_trans)
  qed
  then have "\<forall>k < Suc ?l. 2 ^ k < n" by blast
  moreover have "nextPowerOfTwo (int n) = 2 ^ Suc ?l"
    using False by (simp add: nextPowerOfTwo_def push_bit_eq_mult)
  ultimately show ?thesis using less_imp_le [OF l(2)] by blast
qed

section \<open>The array\<close>

definition tree_array :: "nat \<Rightarrow> bytes option list \<Rightarrow> bool" where
  "tree_array p A \<longleftrightarrow> length A = 2 * p - 1 \<and> (\<forall>k < p - 1. A ! (p + k) = merkle_parent (A ! (2 * k)) (A ! (2 * k + 1)))"

lemma merkle_loop_array:
  assumes "length m = 2 * p - 1" and "k \<le> p - 1" and "\<forall>j < k. m ! (p + j) = merkle_parent (m ! (2 * j)) (m ! (2 * j + 1))"
  shows "tree_array p (merkle_loop (2 * k) (p + k) m) \<and> (\<forall>i < p. merkle_loop (2 * k) (p + k) m ! i = m ! i)"
  using assms
proof (induction "p - 1 - k" arbitrary: k m)
  case 0
  then have "\<not> 2 * k < length m - 1" by simp
  then have "merkle_loop (2 * k) (p + k) m = m" by (simp add: merkle_loop.simps)
  then show ?case using 0 by (auto simp: tree_array_def)
next
  case (Suc d)
  let ?m = "m[p + k := merkle_parent (m ! (2 * k)) (m ! (2 * k + 1))]"
  have k: "k < p - 1" using Suc.hyps(2) by simp
  have "2 * k < length m - 1" using k Suc.prems(1) by arith
  then have step: "merkle_loop (2 * k) (p + k) m = merkle_loop (2 * Suc k) (p + Suc k) ?m"
    by (subst merkle_loop.simps) simp
  have "?m ! (p + j) = merkle_parent (?m ! (2 * j)) (?m ! (2 * j + 1))" if "j < Suc k" for j
    using that k Suc.prems by (cases "j = k") (auto simp: nth_list_update)
  then have "tree_array p (merkle_loop (2 * Suc k) (p + Suc k) ?m) \<and> (\<forall>i < p. merkle_loop (2 * Suc k) (p + Suc k) ?m ! i = ?m ! i)"
    using Suc.hyps(2) Suc.prems(1) by (intro Suc.hyps(1)) auto
  then show ?case unfolding step by simp
qed

lemma length_merkle_leaves [simp]: "length (merkle_leaves witness i txs m) = length m"
  by (induction txs arbitrary: i m) simp_all

lemma nth_merkle_leaves:
  assumes "i + length txs \<le> length m" and "j < length m"
  shows "merkle_leaves witness i txs m ! j
    = (if i \<le> j \<and> j < i + length txs then Some (base_hash witness j (txs ! (j - i))) else m ! j)"
  using assms
proof (induction txs arbitrary: i m)
  case (Cons tx txs)
  then show ?case
    using Cons.IH [of "Suc i" "m[i := Some (base_hash witness i tx)]"]
    by (auto simp: nth_list_update nth_Cons' Suc_le_eq)
qed auto

section \<open>Levels of the tree\<close>

fun merkle_level :: "bytes list \<Rightarrow> bytes list" where
  "merkle_level [] = []"
| "merkle_level [x] = [HashMerkleBranches x x]"
| "merkle_level (x # y # xs) = HashMerkleBranches x y # merkle_level xs"

text \<open>The merkle root as the Bitcoin protocol defines it.\<close>

function merkle_root :: "bytes list \<Rightarrow> bytes" where
  "merkle_root xs = (if length xs \<le> 1 then hd xs else merkle_root (merkle_level xs))"
  by pat_completeness auto

lemma length_merkle_level: "length (merkle_level xs) = (length xs + 1) div 2"
  by (induction xs rule: merkle_level.induct) simp_all

termination merkle_root by (relation "measure length") (auto simp: length_merkle_level)

declare merkle_root.simps [simp del]

lemma merkle_level_nth:
  "2 * j < length xs \<Longrightarrow>
    merkle_level xs ! j = HashMerkleBranches (xs ! (2 * j)) (if 2 * j + 1 < length xs then xs ! (2 * j + 1) else xs ! (2 * j))"
proof (induction xs arbitrary: j rule: merkle_level.induct)
  case (3 x y xs)
  then show ?case by (cases j) auto
qed auto

abbreviation level :: "bytes list \<Rightarrow> nat \<Rightarrow> bytes list" where
  "level hs k \<equiv> (merkle_level ^^ k) hs"

definition opt_nth :: "bytes list \<Rightarrow> nat \<Rightarrow> bytes option" where
  "opt_nth xs j = (if j < length xs then Some (xs ! j) else None)"

lemma opt_nth_parent: "merkle_parent (opt_nth xs (2 * j)) (opt_nth xs (2 * j + 1)) = opt_nth (merkle_level xs) j"
proof -
  have "j < length (merkle_level xs) \<longleftrightarrow> 2 * j < length xs" by (auto simp: length_merkle_level)
  then show ?thesis by (auto simp: opt_nth_def merkle_parent_def merkle_level_nth)
qed

lemma length_level_less: "j < length (level hs k) \<Longrightarrow> j div 2 < length (level hs (Suc k))"
  by (auto simp: length_merkle_level)

lemma length_level: "length hs \<le> 2 ^ h \<Longrightarrow> k \<le> h \<Longrightarrow> length (level hs k) \<le> 2 ^ (h - k)"
proof (induction k)
  case (Suc k)
  then have "length (level hs k) \<le> 2 ^ (h - k)" "h - k = Suc (h - Suc k)" by simp_all
  then have "length (level hs k) \<le> 2 * 2 ^ (h - Suc k)" by simp
  then show ?case by (simp add: length_merkle_level)
qed simp

lemma level_nonempty: "hs \<noteq> [] \<Longrightarrow> level hs k \<noteq> []"
proof (induction k)
  case (Suc k)
  then have "0 < length (merkle_level (level hs k))"
    unfolding length_merkle_level by (cases "level hs k") auto
  then show ?case by simp
qed simp

lemma length_level_top: "hs \<noteq> [] \<Longrightarrow> length hs \<le> 2 ^ h \<Longrightarrow> length (level hs h) = 1"
  using length_level [of hs h h] level_nonempty [of hs h] by (simp add: le_Suc_eq)

lemma level_lower: "2 ^ k < length hs \<Longrightarrow> 1 < length (level hs k)"
proof (induction k arbitrary: hs)
  case (Suc k)
  then have "2 ^ k < length (merkle_level hs)" by (simp add: length_merkle_level)
  then show ?case using Suc.IH [of "merkle_level hs"] by (simp add: funpow_swap1)
qed simp

lemma merkle_root_level:
  assumes "hs \<noteq> []" and "length hs \<le> 2 ^ h" and "\<forall>k < h. 2 ^ k < length hs"
  shows "merkle_root hs = level hs h ! 0"
proof -
  have "merkle_root hs = merkle_root (level hs k)" if "k \<le> h" for k
    using that
  proof (induction k)
    case (Suc k)
    have "1 < length (level hs k)" using level_lower [of k hs] assms(3) Suc.prems by simp
    then have "merkle_root (level hs k) = merkle_root (merkle_level (level hs k))"
      by (subst merkle_root.simps) simp
    then show ?case using Suc by simp
  qed simp
  then have "merkle_root hs = merkle_root (level hs h)" by simp
  also have "\<dots> = level hs h ! 0"
    using length_level_top [OF assms(1,2)] by (subst merkle_root.simps, cases "level hs h") auto
  finally show ?thesis .
qed

text \<open>The array index of node \<open>j\<close> of level \<open>k\<close> in a tree of height \<open>h\<close>.\<close>

definition node_index :: "nat \<Rightarrow> nat \<Rightarrow> nat \<Rightarrow> nat" where
  "node_index h k j = 2 ^ Suc h - 2 ^ (Suc h - k) + j"

lemma node_index_0 [simp]: "node_index h 0 j = j"
  by (simp add: node_index_def)

lemma node_index_Suc: "node_index h (Suc k) j = 2 ^ h + (2 ^ h - 2 ^ (h - k) + j)"
proof -
  have "2 * b - a + j = b + (b - a + j)" if "a \<le> b" for a b :: nat
    using that by simp
  from this [of "2 ^ (h - k)" "2 ^ h"] show ?thesis
    unfolding node_index_def by (simp add: power_increasing)
qed

lemma node_index_double: "k \<le> h \<Longrightarrow> node_index h k (2 * j) = 2 * (2 ^ h - 2 ^ (h - k) + j)"
  unfolding node_index_def by (simp add: Suc_diff_le diff_mult_distrib2)

lemma node_index_step: "node_index h k (Suc j) = Suc (node_index h k j)"
  by (simp add: node_index_def)

lemma array_levels:
  assumes "tree_array (2 ^ h) A" and "\<forall>j < 2 ^ h. A ! j = opt_nth hs j" and "k \<le> h" and "j < 2 ^ (h - k)"
  shows "A ! node_index h k j = opt_nth (level hs k) j"
  using assms(3,4)
proof (induction k arbitrary: j)
  case (Suc k)
  let ?i = "2 ^ h - 2 ^ (h - k) + j"
  have "h - k = Suc (h - Suc k)" using Suc.prems(1) by simp
  then have pow: "(2 :: nat) ^ (h - k) = 2 * 2 ^ (h - Suc k)" by simp
  have "(2 :: nat) ^ (h - k) \<le> 2 ^ h" by (intro power_increasing) simp_all
  then have "?i < 2 ^ h - 1" using Suc.prems(2) pow by linarith
  then have "A ! (2 ^ h + ?i) = merkle_parent (A ! (2 * ?i)) (A ! Suc (2 * ?i))"
    using assms(1) by (simp only: tree_array_def) simp
  moreover have "2 * ?i = node_index h k (2 * j)" "Suc (2 * ?i) = node_index h k (Suc (2 * j))"
    using Suc.prems(1) node_index_double [of k h j] by (simp_all only: node_index_step)
  moreover have "A ! node_index h k (2 * j) = opt_nth (level hs k) (2 * j)" "A ! node_index h k (Suc (2 * j)) = opt_nth (level hs k) (Suc (2 * j))"
    using Suc.IH [of "2 * j"] Suc.IH [of "Suc (2 * j)"] Suc.prems pow by simp_all
  ultimately have "A ! node_index h (Suc k) j = merkle_parent (opt_nth (level hs k) (2 * j)) (opt_nth (level hs k) (2 * j + 1))"
    by (simp only: node_index_Suc) simp
  then show ?case by (simp only: opt_nth_parent) simp
qed (use assms(2) in simp)

section \<open>The index walk\<close>

lemma odd_unat: "(w AND 1 = 1) = odd (unat w)" for w :: "64 word"
proof -
  have "unat (w AND 1) = unat w AND 1"
    by (simp only: unsigned_and_eq unsigned_1)
  also have "\<dots> = unat w mod 2"
    by (simp only: and_one_eq)
  finally show ?thesis
    by (auto simp: word_unat_eq_iff odd_iff_mod_2_eq_one)
qed

lemma bit_next_index: "bit (next_index h w) i \<longleftrightarrow> bit w (Suc i) \<or> i = h \<and> h < 64"
  by (auto simp: next_index_def bit_simps)

lemma unat_next_index:
  assumes "unat w div 2 < 2 ^ h" and "h < 64"
  shows "unat (next_index h w) = unat w div 2 + 2 ^ h"
proof -
  let ?d = "unat w div 2"
  have "unat (drop_bit 1 w) = ?d"
    by (simp only: unat_drop_bit_eq) (simp add: drop_bit_eq_div)
  then have "unat (next_index h w) = ?d OR 2 ^ h"
    using unat_push_bit_one [OF assms(2)] by (simp only: next_index_def unsigned_or_eq)
  also have "\<dots> = ?d + 2 ^ h"
  proof (rule disjunctive_add_eq_or [symmetric])
    have "take_bit h ?d = ?d" using assms(1) by (simp add: take_bit_nat_eq_self_iff)
    then have "\<not> bit ?d i" if "h \<le> i" for i using that by (metis bit_take_bit_iff not_less)
    then show "?d AND 2 ^ h = 0" by (intro bit_eqI) (auto simp: bit_and_iff bit_exp_iff)
  qed
  finally show ?thesis .
qed

lemma node_index_less: "k \<le> h \<Longrightarrow> j < 2 ^ (h - k) \<Longrightarrow> node_index h k j < 2 ^ Suc h - 1 \<and> node_index h k j div 2 < 2 ^ h"
proof -
  assume k: "k \<le> h" and j: "j < 2 ^ (h - k)"
  have "(2 :: nat) ^ (Suc h - k) = 2 * 2 ^ (h - k)" using k by (simp add: Suc_diff_le)
  moreover have "(2 :: nat) ^ (Suc h - k) \<le> 2 ^ Suc h" by (intro power_increasing) simp_all
  ultimately have "node_index h k j < 2 ^ Suc h - 1" using j unfolding node_index_def by linarith
  then show ?thesis by auto
qed

lemma node_index_even:
  assumes "k \<le> h"
  shows "even (node_index h k j) = even j"
proof -
  have "(2 :: nat) ^ (h - k) \<le> 2 ^ h" by (intro power_increasing) simp_all
  then have "\<not> 2 * 2 ^ h + j < 2 * (2 :: nat) ^ (h - k)" by linarith
  then show ?thesis
    unfolding node_index_def using assms by (simp add: Suc_diff_le)
qed

lemma next_index_node:
  assumes "k < h" and "h < 63" and "j < 2 ^ (h - k)" and "unat w = node_index h k j"
  shows "unat (next_index h w) = node_index h (Suc k) (j div 2)"
proof -
  have "unat w div 2 = 2 ^ h - 2 ^ (h - k) + j div 2"
  proof -
    have "unat w = 2 * (2 ^ h - 2 ^ (h - k) + j div 2) + j mod 2"
      using node_index_double [of k h "j div 2"] assms(1) unfolding assms(4)
      by (metis (no_types, lifting) add.assoc less_imp_le mult_div_mod_eq node_index_def)
    then show ?thesis by simp
  qed
  then show ?thesis
    using unat_next_index [of w h] node_index_less [of k h j] assms by (simp add: node_index_Suc)
qed

lemma unat_xor_1: "unat (w XOR 1) = (if even (unat w) then Suc (unat w) else unat w - 1)" for w :: "64 word"
proof -
  have "unat (w XOR 1) = unat w XOR 1" by (simp only: unsigned_xor_eq unsigned_1)
  also have "\<dots> = (if even (unat w) then Suc (unat w) else unat w - 1)"
    by (cases "even (unat w)") (auto simp: xor_Suc_0_eq)
  finally show ?thesis .
qed

section \<open>The built tree\<close>

definition tree_for :: "bytes list \<Rightarrow> nat \<Rightarrow> bytes option list \<Rightarrow> bool" where
  "tree_for hs h A \<longleftrightarrow> tree_array (2 ^ h) A \<and> (\<forall>j < 2 ^ h. A ! j = opt_nth hs j) \<and> hs \<noteq> [] \<and> length hs \<le> 2 ^ h
     \<and> (\<forall>k < h. 2 ^ k < length hs) \<and> list_all (\<lambda>x. length x = 32) hs"

definition base_hashes :: "bool \<Rightarrow> MsgTx list \<Rightarrow> bytes list" where
  "base_hashes witness txs = map (\<lambda>i. base_hash witness i (txs ! i)) [0..<length txs]"

lemma length_base_hash [simp]: "length (base_hash witness i tx) = 32"
  by (simp add: base_hash_def WitnessHash_def TxHash_def HashSize_def)

lemma length_base_hashes [simp]: "length (base_hashes witness txs) = length txs"
  by (simp add: base_hashes_def)

lemma BuildMerkleTreeStore_tree:
  assumes "txs \<noteq> []"
  shows "\<exists>h A. BuildMerkleTreeStore txs witness = Inr A \<and> tree_for (base_hashes witness txs) h A"
proof -
  have "0 < length txs" using assms by simp
  then obtain h where h: "nextPowerOfTwo (int (length txs)) = 2 ^ h" "length txs \<le> 2 ^ h" "\<forall>k < h. 2 ^ k < length txs"
    using nextPowerOfTwo_least by blast
  let ?n = "2 ^ Suc h - 1 :: nat"
  let ?m = "merkle_leaves witness 0 txs (replicate ?n None)"
  let ?A = "merkle_loop 0 (2 ^ h) ?m"
  have "2 ^ h * 2 - 1 = int ?n" by (simp add: of_nat_diff)
  then have n: "nat (2 ^ h * 2 - 1) = ?n" "nat (2 ^ h) = 2 ^ h" by (simp_all only: nat_int) (simp add: nat_power_eq)
  have "tree_array (2 ^ h) ?A \<and> (\<forall>i < 2 ^ h. ?A ! i = ?m ! i)"
    using merkle_loop_array [of ?m "2 ^ h" 0] by simp
  moreover have "?m ! j = opt_nth (base_hashes witness txs) j" if "j < 2 ^ h" for j
  proof -
    have "j < ?n" "length txs \<le> ?n" using that h(2) by auto
    then show ?thesis by (auto simp: nth_merkle_leaves opt_nth_def base_hashes_def)
  qed
  moreover have "list_all (\<lambda>x. length x = 32) (base_hashes witness txs)"
    by (simp add: base_hashes_def list_all_iff)
  moreover have "base_hashes witness txs \<noteq> []" using assms by (simp add: base_hashes_def)
  ultimately have "tree_for (base_hashes witness txs) h ?A"
    using h by (simp add: tree_for_def)
  moreover have "(0 :: int) < 2 ^ h" by simp
  then have "\<not> (2 :: int) ^ h * 2 - 1 < 0" by linarith
  then have "BuildMerkleTreeStore txs witness = Inr ?A"
    using h(1) n by (simp add: BuildMerkleTreeStore_def Let_def nat_power_eq)
  ultimately show ?thesis by blast
qed

lemma tree_for_node:
  "tree_for hs h A \<Longrightarrow> k \<le> h \<Longrightarrow> j < 2 ^ (h - k) \<Longrightarrow> A ! node_index h k j = opt_nth (level hs k) j"
  by (rule array_levels) (auto simp: tree_for_def)

lemma tree_for_length: "tree_for hs h A \<Longrightarrow> length A = 2 ^ Suc h - 1"
  by (simp add: tree_for_def tree_array_def)

lemma tree_for_root: "tree_for hs h A \<Longrightarrow> last A = Some (merkle_root hs)"
proof -
  assume t: "tree_for hs h A"
  then have "A ! node_index h h 0 = opt_nth (level hs h) 0" by (intro tree_for_node) simp_all
  moreover have "node_index h h 0 = length A - 1" using tree_for_length [OF t] by (simp add: node_index_def)
  moreover have "(0 :: nat) < 2 ^ h" by simp
  then have "0 < length A" unfolding tree_for_length [OF t] power_Suc by linarith
  then have "A \<noteq> []" by simp
  moreover have "length (level hs h) = 1" "merkle_root hs = level hs h ! 0"
    using t by (auto simp: tree_for_def merkle_root_level length_level_top)
  ultimately show ?thesis by (simp add: last_conv_nth opt_nth_def)
qed

lemma length_level_nth: "list_all (\<lambda>x. length x = 32) hs \<Longrightarrow> list_all (\<lambda>x. length x = 32) (level hs k)"
proof (induction k)
  case (Suc k)
  have "list_all (\<lambda>x. length x = 32) (merkle_level xs)" for xs
    by (induction xs rule: merkle_level.induct) (simp_all add: HashMerkleBranches_def)
  then show ?case by simp
qed simp

lemma HashMerkleBranches_32 [simp]: "length l = 32 \<Longrightarrow> length r = 32 \<Longrightarrow> HashMerkleBranches l r = DoubleHashH (l @ r)"
  by (simp add: HashMerkleBranches_def HashSize_def)

section \<open>Making and checking proofs\<close>

definition sibling :: "bytes list \<Rightarrow> nat \<Rightarrow> bytes" where
  "sibling xs j = (if even j then (if Suc j < length xs then xs ! Suc j else xs ! j) else xs ! (j - 1))"

fun siblings :: "bytes list \<Rightarrow> nat \<Rightarrow> nat \<Rightarrow> bytes list" where
  "siblings xs 0 j = []"
| "siblings xs (Suc n) j = sibling xs j # siblings (merkle_level xs) n (j div 2)"

lemma level_Suc: "merkle_level (level hs k) = level hs (Suc k)"
  by simp

lemma proof_loop_siblings:
  assumes "tree_for hs h A" and "h < 63" and "k \<le> h" and "j < length (level hs k)" and "unat idx = node_index h k j"
  shows "proof_loop A h (h - k) idx = Inr (map Some (siblings (level hs k) (h - k) j))"
  using assms(3-5)
proof (induction "h - k" arbitrary: k j idx)
  case (Suc n)
  have k: "k < h" "h - k = Suc n" "h - Suc k = n" using Suc.hyps(2) by simp_all
  have len: "length (level hs k) \<le> 2 ^ (h - k)"
    using assms(1) Suc.prems(1) by (intro length_level) (auto simp: tree_for_def)
  then have j: "j < 2 ^ (h - k)" using Suc.prems(2) by simp
  have "even (2 ^ (h - k) :: nat)" using k by simp
  then have sib: "even j \<Longrightarrow> Suc j < 2 ^ (h - k)" using j by (metis Suc_lessI even_Suc)
  let ?i = "unat (idx XOR 1)"
  have i: "?i = node_index h k (if even j then Suc j else j - 1)"
  proof -
    have "even (unat idx) = even j" using Suc.prems(1,3) node_index_even [of k h j] by simp
    then show ?thesis
      using Suc.prems(3) by (cases j) (auto simp: unat_xor_1 node_index_step)
  qed
  have "(if even j then Suc j else j - 1) < 2 ^ (h - k)" using sib j by auto
  then have inr: "?i < length A" and Ai: "A ! ?i = opt_nth (level hs k) (if even j then Suc j else j - 1)"
    unfolding i using node_index_less [OF Suc.prems(1)] tree_for_node [OF assms(1) Suc.prems(1)] tree_for_length [OF assms(1)]
    by auto
  have Aj: "A ! unat idx = Some (level hs k ! j)" "unat idx < length A"
    using tree_for_node [OF assms(1) Suc.prems(1) j] Suc.prems(2,3) node_index_less [OF Suc.prems(1) j] tree_for_length [OF assms(1)]
    by (simp_all add: opt_nth_def)
  have "(if A ! ?i = None then A ! unat idx else A ! ?i) = Some (sibling (level hs k) j)"
    using Suc.prems(2) by (auto simp: Ai Aj sibling_def opt_nth_def)
  moreover have "proof_loop A h n (next_index h idx) = Inr (map Some (siblings (level hs (Suc k)) n (j div 2)))"
    using Suc.hyps(1) [of "Suc k" "j div 2" "next_index h idx"] k length_level_less [OF Suc.prems(2)]
      next_index_node [OF k(1) assms(2) j Suc.prems(3)] by simp
  ultimately show ?case
    unfolding k(2) using inr Aj(2) by (simp add: Let_def)
qed simp

lemma check_loop_siblings:
  assumes "list_all (\<lambda>x. length x = 32) hs" and "length hs \<le> 2 ^ h" and "h < 63" and "k \<le> h" and "j < length (level hs k)" and "unat idx = node_index h k j"
  shows "check_loop h idx (map Some (siblings (level hs k) (h - k) j)) (level hs k ! j) = Inr (level hs h ! 0)"
  using assms(4-6)
proof (induction "h - k" arbitrary: k j idx)
  case 0
  then have "k = h" by simp
  then have "j = 0" using length_level [OF assms(2), of h] "0.prems"(2) by simp
  then show ?case using \<open>k = h\<close> by simp
next
  case (Suc n)
  have k: "k < h" "h - k = Suc n" "h - Suc k = n" using Suc.hyps(2) by simp_all
  have j: "j < 2 ^ (h - k)"
    using length_level [OF assms(2) Suc.prems(1)] Suc.prems(2) by simp
  have l32: "length (level hs k ! i) = 32" if "i < length (level hs k)" for i
    using length_level_nth [OF assms(1), of k] that by (simp add: list_all_length)
  have odd: "(idx AND 1 = 1) = odd j"
    using node_index_even [OF Suc.prems(1), of j] Suc.prems(3) by (simp add: odd_unat)
  have sib: "length (sibling (level hs k) j) = 32" using l32 Suc.prems(2) by (auto simp: sibling_def)
  have "level hs (Suc k) ! (j div 2) = (if odd j then DoubleHashH (sibling (level hs k) j @ level hs k ! j)
      else DoubleHashH (level hs k ! j @ sibling (level hs k) j))"
    using merkle_level_nth [of "j div 2" "level hs k"] Suc.prems(2) l32 by (auto simp: sibling_def elim!: evenE oddE)
  moreover have "check_loop h (next_index h idx) (map Some (siblings (level hs (Suc k)) n (j div 2))) (level hs (Suc k) ! (j div 2))
      = Inr (level hs h ! 0)"
    using Suc.hyps(1) [of "Suc k" "j div 2" "next_index h idx"] k length_level_less [OF Suc.prems(2)]
      next_index_node [OF k(1) assms(3) j Suc.prems(3)] by simp
  ultimately show ?case
    unfolding k(2) by (simp add: odd Let_def split: if_splits)
qed

lemma length_siblings [simp]: "length (siblings xs n j) = n"
  by (induction n arbitrary: xs j) simp_all

lemma calcTreeHeight_power: "h < 63 \<Longrightarrow> calcTreeHeight (word_of_nat (2 ^ h)) = Some h"
proof -
  assume h: "h < 63"
  have p: "(2 :: nat) ^ h < 2 ^ 63" using h by (intro power_strict_increasing) simp_all
  then have u: "unat (word_of_nat (2 ^ h) :: 64 word) = 2 ^ h" by (subst unat_of_nat, intro mod_less) simp
  then have "power_loop (word_of_nat (2 ^ h)) 0 = Some (LEAST d. (2 :: nat) ^ h \<le> 2 ^ d)"
    using power_loop_value [of "word_of_nat (2 ^ h)"] less_imp_le [OF p] by (simp only: u)
  moreover have "(LEAST d. (2 :: nat) ^ h \<le> 2 ^ d) = h" by (rule Least_equality) simp_all
  ultimately show ?thesis by (simp add: calcTreeHeight_def)
qed

lemma tree_proof:
  assumes "tree_for hs h A" and "h < 63" and "unat idx < length hs"
  shows "NewMerkleProof A idx = Some (Inr \<lparr>mp_Position = idx, mp_Hashes = map Some (siblings hs h (unat idx))\<rparr>)
    \<and> MerkleProof_Check \<lparr>mp_Position = idx, mp_Hashes = map Some (siblings hs h (unat idx))\<rparr> (hs ! unat idx) (merkle_root hs) = Inr True"
proof -
  have l: "(length A + 1) div 2 = 2 ^ h"
    using tree_for_length [OF assms(1)] by simp
  have "proof_loop A h h idx = Inr (map Some (siblings hs h (unat idx)))"
    using proof_loop_siblings [OF assms(1,2), of 0 "unat idx" idx] assms(3) by simp
  moreover have "check_loop h idx (map Some (siblings hs h (unat idx))) (hs ! unat idx) = Inr (level hs h ! 0)"
    using check_loop_siblings [of hs h 0 "unat idx" idx] assms by (simp add: tree_for_def)
  moreover have "merkle_root hs = level hs h ! 0"
    using assms(1) by (intro merkle_root_level) (auto simp: tree_for_def)
  ultimately show ?thesis
    using calcTreeHeight_power [OF assms(2)] unfolding NewMerkleProof_def l by (simp add: MerkleProof_Check_def)
qed

section \<open>Serialized proofs\<close>

lemma read_hashes_loop_append:
  "length x = 32 \<Longrightarrow> read_hashes_loop (x @ r) = Some x # read_hashes_loop r"
  by (subst read_hashes_loop.simps) (simp add: bufNext_def)

lemma write_hashes_Some: "write_hashes (map Some ss) = Inr (concat ss)"
  by (induction ss) simp_all

lemma MerkleProof_roundtrip:
  assumes "list_all (\<lambda>x. length x = 32) ss"
  shows "\<exists>b. MerkleProof_Bytes \<lparr>mp_Position = pos, mp_Hashes = map Some ss\<rparr> = Inr b
    \<and> NewMerkleProofFromBytes b = \<lparr>mp_Position = pos, mp_Hashes = map Some ss\<rparr>"
proof -
  have "read_hashes_loop (concat ss) = map Some ss"
    using assms
  proof (induction ss)
    case Nil
    show ?case by (subst read_hashes_loop.simps) simp
  qed (simp add: read_hashes_loop_append)
  then show ?thesis
    by (simp add: MerkleProof_Bytes_def NewMerkleProofFromBytes_def write_hashes_Some)
qed

lemma siblings_32: "xs \<noteq> [] \<Longrightarrow> list_all (\<lambda>x. length x = 32) xs \<Longrightarrow> j < length xs \<Longrightarrow> list_all (\<lambda>x. length x = 32) (siblings xs n j)"
proof (induction n arbitrary: xs j)
  case (Suc n)
  have "list_all (\<lambda>x. length x = 32) (merkle_level xs)" using length_level_nth [OF Suc.prems(2), of 1] by simp
  moreover have "j div 2 < length (merkle_level xs)" using Suc.prems(3) by (simp add: length_merkle_level)
  moreover from this have "merkle_level xs \<noteq> []" by auto
  moreover have "length (sibling xs j) = 32"
    using Suc.prems(2,3) by (auto simp: sibling_def list_all_length)
  ultimately show ?case using Suc.IH by simp
qed simp

section \<open>What a proof shows\<close>

fun climb :: "nat \<Rightarrow> bytes list \<Rightarrow> bytes \<Rightarrow> bytes" where
  "climb pos [] x = x"
| "climb pos (s # ss) x = climb (pos div 2) ss (DoubleHashH (if odd pos then s @ x else x @ s))"

lemma check_loop_climb:
  "(\<And>i. i < length ss \<Longrightarrow> bit idx i = bit pos i) \<Longrightarrow> length ss \<le> h \<Longrightarrow> check_loop h idx (map Some ss) x = Inr (climb pos ss x)"
proof (induction ss arbitrary: idx pos x)
  case (Cons s ss)
  have "bit (next_index h idx) i = bit (pos div 2) i" if "i < length ss" for i
    using Cons.prems(1) [of "Suc i"] Cons.prems(2) that by (simp add: bit_next_index bit_Suc)
  then have "check_loop h (next_index h idx) (map Some ss) y = Inr (climb (pos div 2) ss y)" for y
    using Cons.prems(2) by (intro Cons.IH) simp_all
  moreover have "(idx AND 1 = 1) = odd pos"
  proof -
    have "(idx AND 1 = 1) = bit idx 0"
      unfolding odd_unat by (simp add: bit_unsigned_iff flip: bit_0)
    then show ?thesis using Cons.prems(1) [of 0] by (simp add: bit_0)
  qed
  ultimately show ?case by (simp add: Let_def)
qed simp

text \<open>The node a position leads to from the root, and the pairs of hash inputs the walk compares.\<close>

fun walk :: "bytes list \<Rightarrow> nat \<Rightarrow> nat \<Rightarrow> nat" where
  "walk xs pos 0 = 0"
| "walk xs pos (Suc n) = min (2 * walk (merkle_level xs) (pos div 2) n + pos mod 2) (length xs - 1)"

fun merkle_evidence :: "bytes list \<Rightarrow> nat \<Rightarrow> bytes list \<Rightarrow> bytes \<Rightarrow> (bytes \<times> bytes) list" where
  "merkle_evidence xs pos [] x = []"
| "merkle_evidence xs pos (s # ss) x =
     (let mine = (if odd pos then s @ x else x @ s);
          i = walk (merkle_level xs) (pos div 2) (length ss)
      in (mine, xs ! (2 * i) @ (if 2 * i + 1 < length xs then xs ! (2 * i + 1) else xs ! (2 * i)))
           # merkle_evidence (merkle_level xs) (pos div 2) ss (DoubleHashH mine))"

lemma walk_less: "xs \<noteq> [] \<Longrightarrow> walk xs pos n < length xs"
  by (cases n) (auto simp: min_less_iff_disj)

lemma walk_exact: "pos < length xs \<Longrightarrow> length xs \<le> 2 ^ n \<Longrightarrow> walk xs pos n = pos"
proof (induction n arbitrary: xs pos)
  case (Suc n)
  then have "walk (merkle_level xs) (pos div 2) n = pos div 2"
    by (intro Suc.IH) (simp_all add: length_merkle_level)
  then show ?case using Suc.prems by (simp add: min_def)
qed simp

lemma climb_sound:
  assumes "list_all (\<lambda>x. length x = 32) xs" and "xs \<noteq> []" and "list_all (\<lambda>x. length x = 32) ss" and "length x = 32"
    and "length xs \<le> 2 ^ length ss" and "climb pos ss x = level xs (length ss) ! 0"
  shows "x = xs ! walk xs pos (length ss) \<or> (\<exists>(u, v) \<in> set (merkle_evidence xs pos ss x). u \<noteq> v \<and> DoubleHashH u = DoubleHashH v)"
  using assms
proof (induction ss arbitrary: xs pos x)
  case (Cons s ss)
  let ?mine = "if odd pos then s @ x else x @ s" and ?i = "walk (merkle_level xs) (pos div 2) (length ss)"
  let ?r = "if 2 * ?i + 1 < length xs then xs ! (2 * ?i + 1) else xs ! (2 * ?i)"
  have ne: "merkle_level xs \<noteq> []" using level_nonempty [OF Cons.prems(2), of 1] by simp
  have i: "2 * ?i < length xs" using walk_less [OF ne, of "pos div 2" "length ss"] by (simp add: length_merkle_level)
  have l32: "length (xs ! (2 * ?i)) = 32" "length ?r = 32"
    using Cons.prems(1) i by (auto simp: list_all_length)
  have "level (merkle_level xs) (length ss) = level xs (length (s # ss))" by (simp add: funpow_swap1)
  then have "DoubleHashH ?mine = merkle_level xs ! ?i
      \<or> (\<exists>(u, v) \<in> set (merkle_evidence (merkle_level xs) (pos div 2) ss (DoubleHashH ?mine)). u \<noteq> v \<and> DoubleHashH u = DoubleHashH v)"
    using Cons.prems length_level_nth [OF Cons.prems(1), of 1] ne by (intro Cons.IH) (simp_all add: length_merkle_level)
  then show ?case
  proof
    assume "DoubleHashH ?mine = merkle_level xs ! ?i"
    then have eq: "DoubleHashH ?mine = DoubleHashH (xs ! (2 * ?i) @ ?r)"
      using merkle_level_nth [OF i] l32 by simp
    show ?thesis
    proof (cases "?mine = xs ! (2 * ?i) @ ?r")
      case True
      then have "x = (if odd pos then ?r else xs ! (2 * ?i))"
        using Cons.prems(3,4) l32 by (auto split: if_splits)
      also have "\<dots> = xs ! walk xs pos (length (s # ss))"
      proof -
        have "walk xs pos (length (s # ss)) = (if odd pos \<and> 2 * ?i + 1 < length xs then 2 * ?i + 1 else 2 * ?i)"
          using i by (auto simp: min_def mod2_eq_if)
        then show ?thesis by auto
      qed
      finally show ?thesis by simp
    next
      case False
      then show ?thesis using eq by (simp add: Let_def)
    qed
  qed (simp add: Let_def)
qed (auto simp: le_Suc_eq length_Suc_conv)

section \<open>Properties\<close>

lemma tree_height_bound:
  assumes "tree_for hs h A" and "length hs \<le> 2 ^ 62"
  shows "h < 63"
proof (rule ccontr)
  assume "\<not> h < 63"
  then have "62 < h" by simp
  moreover have "\<forall>k < h. 2 ^ k < length hs" using assms(1) by (simp add: tree_for_def)
  ultimately have "2 ^ 62 < length hs" by blast
  with assms(2) show False by simp
qed

text \<open>
  C23. For a nonempty list of transactions the last element of the array that
  \<open>BuildMerkleTreeStore\<close> returns is the merkle root as Bitcoin defines it, level by level with the
  last element of an odd level doubled. The proof made for any transaction of the list passes
  \<open>Check\<close> against that root, and it survives serialization.
\<close>

theorem merkle_proof_complete:
  assumes "txs \<noteq> []" and "length txs \<le> 2 ^ 62" and "unat idx < length txs"
  shows "\<exists>tree prf b. BuildMerkleTreeStore txs witness = Inr tree
    \<and> last tree = Some (merkle_root (base_hashes witness txs))
    \<and> NewMerkleProof tree idx = Some (Inr prf)
    \<and> MerkleProof_Check prf (base_hash witness (unat idx) (txs ! unat idx)) (merkle_root (base_hashes witness txs)) = Inr True
    \<and> MerkleProof_Bytes prf = Inr b \<and> NewMerkleProofFromBytes b = prf"
proof -
  obtain h A where A: "BuildMerkleTreeStore txs witness = Inr A" "tree_for (base_hashes witness txs) h A"
    using BuildMerkleTreeStore_tree [OF assms(1)] by blast
  have h: "h < 63" using tree_height_bound [OF A(2)] assms(2) by simp
  have "list_all (\<lambda>x. length x = 32) (siblings (base_hashes witness txs) h (unat idx))"
    using A(2) assms(3) by (intro siblings_32) (simp_all add: tree_for_def)
  then obtain b where "MerkleProof_Bytes \<lparr>mp_Position = idx, mp_Hashes = map Some (siblings (base_hashes witness txs) h (unat idx))\<rparr> = Inr b"
      "NewMerkleProofFromBytes b = \<lparr>mp_Position = idx, mp_Hashes = map Some (siblings (base_hashes witness txs) h (unat idx))\<rparr>"
    using MerkleProof_roundtrip by blast
  moreover have "base_hashes witness txs ! unat idx = base_hash witness (unat idx) (txs ! unat idx)"
    using assms(3) by (simp add: base_hashes_def)
  ultimately show ?thesis
    using A tree_for_root [OF A(2)] tree_proof [OF A(2) h, of idx] assms(3) by auto
qed

theorem merkle_proof_complete_witness:
  "\<exists>tree prf b. BuildMerkleTreeStore [example_tx, example_tx, example_tx] False = Inr tree
    \<and> last tree = Some (merkle_root (base_hashes False [example_tx, example_tx, example_tx]))
    \<and> NewMerkleProof tree 2 = Some (Inr prf)
    \<and> MerkleProof_Check prf (base_hash False (unat (2 :: 64 word)) ([example_tx, example_tx, example_tx] ! unat (2 :: 64 word)))
        (merkle_root (base_hashes False [example_tx, example_tx, example_tx])) = Inr True
    \<and> MerkleProof_Bytes prf = Inr b \<and> NewMerkleProofFromBytes b = prf"
  by (rule merkle_proof_complete) simp_all

text \<open>
  C24. A proof of the height of the tree that passes \<open>Check\<close> against the root of a tree shows the
  hash of the transaction at its position, or the walk down the tree exhibits two different inputs with
  the same double hash.
\<close>

theorem merkle_proof_sound:
  assumes "BuildMerkleTreeStore txs witness = Inr tree" and "txs \<noteq> []" and "last tree = Some root"
    and "length tree + 1 = 2 ^ Suc (length ss)" and "list_all (\<lambda>x. length x = 32) ss" and "length x = 32"
    and "unat pos < length txs"
    and "MerkleProof_Check \<lparr>mp_Position = pos, mp_Hashes = map Some ss\<rparr> x root = Inr True"
  shows "x = base_hash witness (unat pos) (txs ! unat pos)
    \<or> (\<exists>(u, v) \<in> set (merkle_evidence (base_hashes witness txs) (unat pos) ss x). u \<noteq> v \<and> DoubleHashH u = DoubleHashH v)"
proof -
  let ?hs = "base_hashes witness txs"
  obtain h where t: "tree_for ?hs h tree"
    using BuildMerkleTreeStore_tree [OF assms(2), of witness] assms(1) by auto
  have "0 < (2 :: nat) ^ Suc h" by simp
  then have "(2 :: nat) ^ Suc h = 2 ^ Suc (length ss)"
    using tree_for_length [OF t] assms(4) by linarith
  then have h: "h = length ss" by simp
  have "merkle_root ?hs = level ?hs h ! 0" "?hs \<noteq> []" "length ?hs \<le> 2 ^ h" "list_all (\<lambda>x. length x = 32) ?hs"
    using t by (auto simp: tree_for_def intro!: merkle_root_level)
  moreover have "climb (unat pos) ss x = merkle_root ?hs"
    using assms(3,8) tree_for_root [OF t] check_loop_climb [of ss pos "unat pos" "length ss" x]
    by (simp add: MerkleProof_Check_def bit_unsigned_iff)
  ultimately have "x = ?hs ! walk ?hs (unat pos) h
      \<or> (\<exists>(u, v) \<in> set (merkle_evidence ?hs (unat pos) ss x). u \<noteq> v \<and> DoubleHashH u = DoubleHashH v)"
    using climb_sound [of ?hs ss x "unat pos"] assms(5,6) h by simp
  moreover have "walk ?hs (unat pos) h = unat pos"
    using assms(7) \<open>length ?hs \<le> 2 ^ h\<close> by (intro walk_exact) simp_all
  ultimately show ?thesis using assms(7) by (simp add: base_hashes_def)
qed

theorem merkle_proof_sound_witness:
  "\<exists>tree root. BuildMerkleTreeStore [example_tx, example_tx] False = Inr tree \<and> last tree = Some root
    \<and> (TxHash example_tx = base_hash False (unat (1 :: 64 word)) ([example_tx, example_tx] ! unat (1 :: 64 word))
       \<or> (\<exists>(u, v) \<in> set (merkle_evidence (base_hashes False [example_tx, example_tx]) (unat (1 :: 64 word)) [TxHash example_tx] (TxHash example_tx)).
            u \<noteq> v \<and> DoubleHashH u = DoubleHashH v))"
proof -
  let ?t = "TxHash example_tx"
  let ?tree = "[Some ?t, Some ?t, Some (DoubleHashH (?t @ ?t))]"
  have len: "length ?t = 32" by (simp add: TxHash_def)
  have "nextPowerOfTwo 2 = 2" by (simp add: nextPowerOfTwo_def)
  then have tree: "BuildMerkleTreeStore [example_tx, example_tx] False = Inr ?tree"
    by (simp add: BuildMerkleTreeStore_def base_hash_def merkle_loop.simps merkle_parent_def len numeral_eq_Suc)
  have "MerkleProof_Check \<lparr>mp_Position = 1, mp_Hashes = map Some [?t]\<rparr> ?t (DoubleHashH (?t @ ?t)) = Inr True"
    by (simp add: MerkleProof_Check_def)
  with tree len show ?thesis
    using merkle_proof_sound [of "[example_tx, example_tx]" False ?tree "DoubleHashH (?t @ ?t)" "[?t]" ?t 1] by simp
qed

end
