(* ===== verification/Btcec_Sig.thy ===== *)
theory Btcec_Sig
  imports Bv_Prelude
begin

text \<open>
  \<open>crypto/btcec/signature.go\<close> and \<open>crypto/btcec/pubkey.go\<close>: the encodings of ECDSA signatures
  and public keys over secp256k1. The big integers of signatures and keys are filled from bytes and
  are natural numbers (\<open>Bytes\<close> of a negative difference gives the bytes of its absolute value).
  The field arithmetic of the curve is arithmetic modulo the prime \<open>P\<close>.
\<close>

unbundle bit_operations_syntax

section \<open>Big integers and curve parameters\<close>

text \<open>\<open>(*big.Int).Bytes\<close>: the big-endian bytes without leading zeros.\<close>

function big_bytes_le :: "nat \<Rightarrow> bytes" where
  "big_bytes_le n = (if n = 0 then [] else word_of_nat (n mod 256) # big_bytes_le (n div 256))"
  by pat_completeness auto
termination by (relation "measure id") auto

declare big_bytes_le.simps [simp del]

definition big_bytes :: "nat \<Rightarrow> bytes" where
  "big_bytes n = rev (big_bytes_le n)"

definition curve_P :: nat where
  "curve_P = 0xFFFFFFFFFFFFFFFFFFFFFFFFFFFFFFFFFFFFFFFFFFFFFFFFFFFFFFFEFFFFFC2F"

definition curve_N :: nat where
  "curve_N = 0xFFFFFFFFFFFFFFFFFFFFFFFFFFFFFFFEBAAEDCE6AF48A03BBFD25E8CD0364141"

definition curve_B :: nat where
  "curve_B = 7"

definition QPlus1Div4 :: nat where
  "QPlus1Div4 = (curve_P + 1) div 4"

definition halfOrder :: nat where
  "halfOrder = curve_N div 2"

text \<open>\<open>(*big.Int).Exp\<close> with a modulus.\<close>

function mod_exp :: "nat \<Rightarrow> nat \<Rightarrow> nat \<Rightarrow> nat" where
  "mod_exp b e m =
     (if e = 0 then 1 mod m
      else let h = mod_exp (b * b mod m) (e div 2) m in if odd e then b * h mod m else h)"
  by pat_completeness auto
termination by (relation "measure (\<lambda>(_, e, _). e)") auto

declare mod_exp.simps [simp del]

definition IsOnCurve :: "nat \<Rightarrow> nat \<Rightarrow> bool" where
  "IsOnCurve x y \<longleftrightarrow> y * y mod curve_P = (x * x * x + curve_B) mod curve_P"

section \<open>Signatures\<close>

record Signature =
  sig_R :: nat
  sig_S :: nat

definition canonicalizeInt :: "nat \<Rightarrow> bytes" where
  "canonicalizeInt val =
     (let b = big_bytes val; b = (if length b = 0 then [0x00] else b)
      in if b ! 0 AND 0x80 \<noteq> 0 then 0 # b else b)"

datatype padding_error = errNegativeValue | errExcessivelyPaddedValue

definition canonicalPadding :: "bytes \<Rightarrow> padding_error option" where
  "canonicalPadding b =
     (if b ! 0 AND 0x80 = 0x80 then Some errNegativeValue
      else if length b > 1 \<and> b ! 0 = 0x00 \<and> b ! 1 AND 0x80 \<noteq> 0x80 then Some errExcessivelyPaddedValue
      else None)"

definition sig_Serialize :: "Signature \<Rightarrow> bytes" where
  "sig_Serialize sig =
     (let sigS = (if sig_S sig > halfOrder then nat \<bar>int curve_N - int (sig_S sig)\<bar> else sig_S sig);
          rb = canonicalizeInt (sig_R sig); sb = canonicalizeInt sigS;
          l = 6 + length rb + length sb
      in [0x30, word_of_nat (l - 2), 0x02, word_of_nat (length rb)] @ rb
         @ [0x02, word_of_nat (length sb)] @ sb)"

definition sig_IsEqual :: "Signature \<Rightarrow> Signature \<Rightarrow> bool" where
  "sig_IsEqual sig otherSig \<longleftrightarrow> sig_R sig = sig_R otherSig \<and> sig_S sig = sig_S otherSig"

definition check_padding :: "bool \<Rightarrow> string \<Rightarrow> bytes \<Rightarrow> unit go" where
  "check_padding der f b =
     (if \<not> der then Inr () else
      case canonicalPadding b of
        Some errNegativeValue \<Rightarrow> Inl (GoError (''signature '' @ f @ '' is negative''))
      | Some errExcessivelyPaddedValue \<Rightarrow> Inl (GoError (''signature '' @ f @ '' is excessively padded''))
      | None \<Rightarrow> Inr ())"

text \<open>
  The sum \<open>siglen+2\<close> is a byte and wraps; the slice is cut to it before the markers are read, so
  a length byte that leaves fewer than four bytes makes the reads of the marker or of the length
  of \<open>R\<close> panic.
\<close>

definition parseSig :: "bytes \<Rightarrow> bool \<Rightarrow> Signature go" where
  "parseSig sigStr der =
     (if length sigStr < 8 then Inl (GoError ''malformed signature: too short'') else
      bind_go (index_go sigStr 0) (\<lambda>h.
      if h \<noteq> 0x30 then Inl (GoError ''malformed signature: no header magic'') else
      bind_go (index_go sigStr 1) (\<lambda>siglen.
      if unat (siglen + 2) > length sigStr then Inl (GoError ''malformed signature: bad length'') else
      let sigStr = take (unat (siglen + 2)) sigStr in
      bind_go (index_go sigStr 2) (\<lambda>m.
      if m \<noteq> 0x02 then Inl (GoError ''malformed signature: no 1st int marker'') else
      bind_go (index_go sigStr 3) (\<lambda>rl.
      let rLen = unat rl in
      if rLen = 0 \<or> rLen + 7 > length sigStr then Inl (GoError ''malformed signature: bogus R length'') else
      let rBytes = take rLen (drop 4 sigStr) in
      bind_go (check_padding der ''R'' rBytes) (\<lambda>_.
      let R = of_be rBytes; index = 4 + rLen in
      bind_go (index_go sigStr index) (\<lambda>m.
      if m \<noteq> 0x02 then Inl (GoError ''malformed signature: no 2nd int marker'') else
      bind_go (index_go sigStr (index + 1)) (\<lambda>sl.
      let sLen = unat sl; index = index + 2 in
      if sLen = 0 \<or> sLen + index > length sigStr then Inl (GoError ''malformed signature: bogus S length'') else
      let sBytes = take sLen (drop index sigStr) in
      bind_go (check_padding der ''S'' sBytes) (\<lambda>_.
      let S = of_be sBytes; index = index + sLen in
      if index \<noteq> length sigStr then Inl (GoError ''malformed signature: bad final length'')
      else if R = 0 then Inl (GoError ''signature R isn't 1 or more'')
      else if S = 0 then Inl (GoError ''signature S isn't 1 or more'')
      else if R \<ge> curve_N then Inl (GoError ''signature R is >= curve.N'')
      else if S \<ge> curve_N then Inl (GoError ''signature S is >= curve.N'')
      else Inr \<lparr>sig_R = R, sig_S = S\<rparr>)))))))))"

definition ParseSignature :: "bytes \<Rightarrow> Signature go" where
  "ParseSignature sigStr = parseSig sigStr False"

definition ParseDERSignature :: "bytes \<Rightarrow> Signature go" where
  "ParseDERSignature sigStr = parseSig sigStr True"

section \<open>Public keys\<close>

record PublicKey =
  pub_X :: nat
  pub_Y :: nat

definition decompressPoint :: "nat \<Rightarrow> bool \<Rightarrow> nat go" where
  "decompressPoint x ybit =
     (let x3 = x * x * x + curve_B;
          y = mod_exp x3 QPlus1Div4 curve_P;
          y = (if ybit \<noteq> odd y then curve_P - y else y)
      in if ybit \<noteq> odd y then Inl (GoError ''ybit doesn't match oddness'') else Inr y)"

definition IsCompressedPubKey :: "bytes \<Rightarrow> bool" where
  "IsCompressedPubKey pubKey \<longleftrightarrow> length pubKey = 33 \<and> pubKey ! 0 AND NOT 0x1 = 0x2"

definition ParsePubKey :: "bytes \<Rightarrow> PublicKey go" where
  "ParsePubKey pubKeyStr =
     (if length pubKeyStr = 0 then Inl (GoError ''pubkey string is empty'') else
      let ybit = (pubKeyStr ! 0 AND 0x1 = 0x1); format = pubKeyStr ! 0 AND NOT 0x1 in
      bind_go
        (if length pubKeyStr = 65 then
           if format \<noteq> 0x4 \<and> format \<noteq> 0x6 then Inl (GoError ''invalid magic in pubkey str'') else
           let X = of_be (take 32 (drop 1 pubKeyStr)); Y = of_be (drop 33 pubKeyStr) in
           if format = 0x6 \<and> ybit \<noteq> odd Y then Inl (GoError ''ybit doesn't match oddness'')
           else Inr (X, Y)
         else if length pubKeyStr = 33 then
           if format \<noteq> 0x2 then Inl (GoError ''invalid magic in compressed pubkey string'') else
           let X = of_be (take 32 (drop 1 pubKeyStr)) in
           bind_go (decompressPoint X ybit) (\<lambda>Y. Inr (X, Y))
         else Inl (GoError ''invalid pub key length''))
      (\<lambda>(X, Y).
        if X \<ge> curve_P then Inl (GoError ''pubkey X parameter is >= to P'')
        else if Y \<ge> curve_P then Inl (GoError ''pubkey Y parameter is >= to P'')
        else if \<not> IsOnCurve X Y then Inl (GoError ''pubkey isn't on secp256k1 curve'')
        else Inr \<lparr>pub_X = X, pub_Y = Y\<rparr>))"

definition paddedAppend :: "nat \<Rightarrow> bytes \<Rightarrow> bytes \<Rightarrow> bytes" where
  "paddedAppend sz dst src = dst @ zeros (sz - length src) @ src"

definition SerializeUncompressed :: "PublicKey \<Rightarrow> bytes" where
  "SerializeUncompressed p = paddedAppend 32 (paddedAppend 32 [0x4] (big_bytes (pub_X p))) (big_bytes (pub_Y p))"

definition SerializeCompressed :: "PublicKey \<Rightarrow> bytes" where
  "SerializeCompressed p =
     (let format = (if odd (pub_Y p) then 0x2 OR 0x1 else 0x2)
      in paddedAppend 32 [format] (big_bytes (pub_X p)))"

definition SerializeHybrid :: "PublicKey \<Rightarrow> bytes" where
  "SerializeHybrid p =
     (let format = (if odd (pub_Y p) then 0x6 OR 0x1 else 0x6)
      in paddedAppend 32 (paddedAppend 32 [format] (big_bytes (pub_X p))) (big_bytes (pub_Y p)))"

definition pub_IsEqual :: "PublicKey \<Rightarrow> PublicKey \<Rightarrow> bool" where
  "pub_IsEqual p otherPubKey \<longleftrightarrow> pub_X p = pub_X otherPubKey \<and> pub_Y p = pub_Y otherPubKey"

section \<open>Big-endian numbers\<close>

lemma msb_clear: "b AND 0x80 = 0 \<longleftrightarrow> unat b < 128" for b :: byte
proof -
  have "b AND 2 ^ 7 = 0 \<longleftrightarrow> \<not> bit b 7" by (rule and_exp_eq_0_iff_not_bit)
  moreover have "bit b 7 \<longleftrightarrow> odd (unat b div 128)"
    using bit_unsigned_iff [of b 7, where 'a = nat] by (simp add: bit_iff_odd)
  moreover have "odd (unat b div 128) \<longleftrightarrow> 128 \<le> unat b"
  proof -
    have "unat b div 128 < 2" using unat_byte [of b] by (simp add: less_mult_imp_div_less)
    then have "odd (unat b div 128) \<longleftrightarrow> unat b div 128 \<noteq> 0" by (auto simp: less_2_cases_iff)
    then show ?thesis by (simp add: div_eq_0_iff not_less)
  qed
  ultimately show ?thesis by (simp add: not_le)
qed

lemma msb_set: "b AND 0x80 = 0x80 \<longleftrightarrow> 128 \<le> unat b" for b :: byte
proof -
  have "b AND push_bit k 1 = (if bit b k then push_bit k 1 else 0)" for k
    by (rule bit_word_eqI) (auto simp: bit_and_iff bit_exp_iff)
  from this [of 7] have "b AND 0x80 = (if bit b 7 then 0x80 else 0)" by simp
  then show ?thesis using msb_clear [of b] by (auto split: if_splits)
qed

lemma of_le_append: "of_le (a @ b) = of_le a + 256 ^ length a * of_le b"
  by (induction a) (simp_all add: algebra_simps)

lemma of_be_Nil [simp]: "of_be [] = 0"
  by (simp add: of_be_def)

lemma of_be_Cons: "of_be (x # b) = unat x * 256 ^ length b + of_be b"
  by (simp add: of_be_def of_le_append)

lemma of_be_Cons0 [simp]: "of_be (0 # b) = of_be b"
  by (simp add: of_be_Cons)

lemma of_be_zeros [simp]: "of_be (zeros n @ b) = of_be b"
  by (induction n) simp_all

lemma big_bytes_le_0 [simp]: "big_bytes_le 0 = []"
  by (simp add: big_bytes_le.simps)

lemma big_bytes_le_of_le: "b = [] \<or> last b \<noteq> 0 \<Longrightarrow> big_bytes_le (of_le b) = b"
proof (induction b)
  case Nil
  show ?case by simp
next
  case (Cons x b)
  have d: "(unat x + 256 * of_le b) div 256 = of_le b" "(unat x + 256 * of_le b) mod 256 = unat x"
    using unat_byte [of x] by simp_all
  have "big_bytes_le (of_le b) = b" using Cons by (cases "b = []") auto
  moreover have "unat x + 256 * of_le b \<noteq> 0"
  proof (cases "b = []")
    case True
    with Cons.prems show ?thesis by (simp add: unat_eq_0)
  next
    case False
    then have "of_le b \<noteq> 0" using \<open>big_bytes_le (of_le b) = b\<close> by (metis big_bytes_le_0)
    then show ?thesis by simp
  qed
  ultimately show ?case by (subst big_bytes_le.simps) (use unat_byte [of x] in \<open>simp add: word_of_nat_mod256\<close>)
qed

lemma big_bytes_of_be: "b = [] \<or> hd b \<noteq> 0 \<Longrightarrow> big_bytes (of_be b) = b"
  using big_bytes_le_of_le [of "rev b"] by (auto simp: big_bytes_def of_be_def last_rev)

lemma of_le_big_bytes_le: "of_le (big_bytes_le n) = n"
proof (induction n rule: big_bytes_le.induct)
  case (1 n)
  have "unat (word_of_nat (n mod 256) :: byte) = n mod 256" by (simp add: unat_of_nat)
  with 1 show ?case by (subst big_bytes_le.simps) simp
qed

lemma of_be_big_bytes [simp]: "of_be (big_bytes n) = n"
  by (simp add: big_bytes_def of_be_def of_le_big_bytes_le)

lemma last_big_bytes_le: "n \<noteq> 0 \<Longrightarrow> last (big_bytes_le n) \<noteq> 0"
proof (induction n rule: big_bytes_le.induct)
  case (1 n)
  have "unat (word_of_nat (n mod 256) :: byte) = n mod 256" by (simp add: unat_of_nat)
  then have w: "(word_of_nat (n mod 256) :: byte) = 0 \<longleftrightarrow> n mod 256 = 0"
    by (auto dest: arg_cong [where f = unat])
  show ?case
  proof (cases "n div 256 = 0")
    case True
    then have "n mod 256 = n" by (rule mod_eq_self_iff_div_eq_0 [THEN iffD2])
    with 1(2) w True show ?thesis by (subst big_bytes_le.simps) simp
  next
    case False
    with 1 have "last (big_bytes_le (n div 256)) \<noteq> 0" by blast
    moreover have "big_bytes_le (n div 256) \<noteq> []" using False by (subst big_bytes_le.simps) simp
    ultimately show ?thesis using 1(2) by (subst big_bytes_le.simps) simp
  qed
qed

lemma big_bytes_Nil [simp]: "big_bytes n = [] \<longleftrightarrow> n = 0"
  by (subst big_bytes_def, subst big_bytes_le.simps) simp

lemma length_big_bytes_le: "n < 256 ^ k \<Longrightarrow> length (big_bytes_le n) \<le> k"
proof (induction k arbitrary: n)
  case 0
  then show ?case by simp
next
  case (Suc k)
  then have "n div 256 < 256 ^ k" by (simp add: less_mult_imp_div_less mult.commute)
  with Suc.IH show ?case by (subst big_bytes_le.simps) auto
qed

lemma length_big_bytes: "n < 256 ^ k \<Longrightarrow> length (big_bytes n) \<le> k"
  by (simp add: big_bytes_def length_big_bytes_le)

text \<open>Left padding with zeros gives the fixed-width encoding.\<close>

lemma zeros_pad_to_be:
  assumes "length b \<le> k"
  shows "zeros (k - length b) @ b = to_be k (of_be b)"
  using to_be_of_be [of k "zeros (k - length b) @ b"] assms by simp

section \<open>DER integers\<close>

lemma canonicalizeInt_0 [simp]: "canonicalizeInt 0 = [0]"
  by (simp add: canonicalizeInt_def big_bytes_def)

lemma canonicalizeInt_msb:
  assumes "b \<noteq> []" and "unat (hd b) \<ge> 128"
  shows "canonicalizeInt (of_be b) = 0 # b"
proof -
  have "hd b \<noteq> 0" using assms(2) by auto
  then have "big_bytes (of_be b) = b" by (simp add: big_bytes_of_be)
  with assms show ?thesis by (simp add: canonicalizeInt_def msb_clear hd_conv_nth)
qed

lemma canonicalizeInt_min:
  assumes "b \<noteq> []" and "hd b \<noteq> 0" and "unat (hd b) < 128"
  shows "canonicalizeInt (of_be b) = b"
  using assms by (simp add: canonicalizeInt_def big_bytes_of_be msb_clear hd_conv_nth Let_def)

lemma canonicalizeInt_props:
  shows canonicalizeInt_ne [simp]: "canonicalizeInt n \<noteq> []"
    and of_be_canonicalizeInt [simp]: "of_be (canonicalizeInt n) = n"
    and canonicalizeInt_hd: "unat (hd (canonicalizeInt n)) < 128"
    and canonicalPadding_canonicalizeInt: "canonicalPadding (canonicalizeInt n) = None"
proof -
  let ?b = "big_bytes n"
  have hd: "?b = [] \<or> hd ?b \<noteq> 0"
    using last_big_bytes_le [of n] by (cases "n = 0") (auto simp: big_bytes_def hd_rev)
  show "canonicalizeInt n \<noteq> []" "of_be (canonicalizeInt n) = n" "unat (hd (canonicalizeInt n)) < 128"
    using of_be_big_bytes [of n] by (auto simp: canonicalizeInt_def Let_def msb_clear hd_conv_nth)
  show "canonicalPadding (canonicalizeInt n) = None"
    using hd by (auto simp: canonicalPadding_def canonicalizeInt_def Let_def msb_clear msb_set hd_conv_nth)
qed

lemma length_canonicalizeInt:
  assumes "n < 2 ^ 256"
  shows "1 \<le> length (canonicalizeInt n)" "length (canonicalizeInt n) \<le> 33"
proof -
  show "1 \<le> length (canonicalizeInt n)" by (simp add: Suc_le_eq)
  have "n < 256 ^ 32" using assms by simp
  then have "length (big_bytes n) \<le> 32" by (rule length_big_bytes)
  then show "length (canonicalizeInt n) \<le> 33" by (simp add: canonicalizeInt_def Let_def)
qed

section \<open>Signatures in DER form\<close>

definition der_frame :: "bytes \<Rightarrow> bytes \<Rightarrow> bytes" where
  "der_frame rb sb =
     [0x30, word_of_nat (4 + length rb + length sb), 0x02, word_of_nat (length rb)] @ rb
     @ [0x02, word_of_nat (length sb)] @ sb"

definition der_sig :: "nat \<Rightarrow> nat \<Rightarrow> bytes" where
  "der_sig r s = der_frame (canonicalizeInt r) (canonicalizeInt s)"

text \<open>The representative of \<open>S\<close> that is at most half the order.\<close>

definition low_S :: "nat \<Rightarrow> nat" where
  "low_S s = (if s > halfOrder then curve_N - s else s)"

definition in_order :: "nat \<Rightarrow> bool" where
  "in_order n \<longleftrightarrow> 0 < n \<and> n < curve_N"

lemma in_order_bound: "in_order n \<Longrightarrow> n < 2 ^ 256"
  by (simp add: in_order_def curve_N_def)

lemma in_order_low_S: "in_order s \<Longrightarrow> in_order (low_S s)"
  by (auto simp: in_order_def low_S_def halfOrder_def curve_N_def)

lemma sig_Serialize_der: "sig_S sig \<le> curve_N \<Longrightarrow> sig_Serialize sig = der_sig (sig_R sig) (low_S (sig_S sig))"
  by (simp add: sig_Serialize_def der_sig_def der_frame_def low_S_def Let_def nat_diff_distrib flip: of_nat_diff)

lemma parseSig_parts:
  assumes "rb \<noteq> []" and "sb \<noteq> []"
    and "unat (l + 2) = 6 + length rb + length sb" and "unat lr = length rb" and "unat ls = length sb"
  shows "parseSig ([0x30, l, 0x02, lr] @ rb @ [0x02, ls] @ sb) der =
    bind_go (check_padding der ''R'' rb) (\<lambda>_. bind_go (check_padding der ''S'' sb) (\<lambda>_.
      if of_be rb = 0 then Inl (GoError ''signature R isn't 1 or more'')
      else if of_be sb = 0 then Inl (GoError ''signature S isn't 1 or more'')
      else if of_be rb \<ge> curve_N then Inl (GoError ''signature R is >= curve.N'')
      else if of_be sb \<ge> curve_N then Inl (GoError ''signature S is >= curve.N'')
      else Inr \<lparr>sig_R = of_be rb, sig_S = of_be sb\<rparr>))"
proof -
  have n: "(rb @ 0x02 # ls # sb) ! length rb = 0x02" "(rb @ 0x02 # ls # sb) ! Suc (length rb) = ls"
    by (simp_all add: nth_append)
  have d: "drop (6 + length rb) (0x30 # l # 0x02 # lr # rb @ 0x02 # ls # sb) = sb"
    by (simp add: numeral_eq_Suc)
  have p: "0 < length rb" "0 < length sb" using assms by auto
  then have "\<not> length rb + length sb < 2" by linarith
  with p show ?thesis
    unfolding parseSig_def Let_def using assms by (simp add: n d nth_append)
qed

lemma parseSig_frame:
  assumes "rb \<noteq> []" and "sb \<noteq> []" and "length rb + length sb \<le> 200"
  shows "parseSig (der_frame rb sb) der =
    bind_go (check_padding der ''R'' rb) (\<lambda>_. bind_go (check_padding der ''S'' sb) (\<lambda>_.
      if of_be rb = 0 then Inl (GoError ''signature R isn't 1 or more'')
      else if of_be sb = 0 then Inl (GoError ''signature S isn't 1 or more'')
      else if of_be rb \<ge> curve_N then Inl (GoError ''signature R is >= curve.N'')
      else if of_be sb \<ge> curve_N then Inl (GoError ''signature S is >= curve.N'')
      else Inr \<lparr>sig_R = of_be rb, sig_S = of_be sb\<rparr>))"
proof -
  have u: "unat (word_of_nat n :: byte) = n" if "n < 256" for n
    using that by (simp add: unat_of_nat)
  have t: "unat (word_of_nat (4 + length rb + length sb) + 2 :: byte) = 6 + length rb + length sb"
    using u [of "6 + length rb + length sb"] assms(3) by (simp add: add.commute add.left_commute)
  have ur: "unat (word_of_nat (length rb) :: byte) = length rb" "unat (word_of_nat (length sb) :: byte) = length sb"
    using assms(3) by (simp_all add: u)
  show ?thesis
    unfolding der_frame_def by (rule parseSig_parts [OF assms(1,2) t ur])
qed

lemma ParseSignature_der_sig:
  assumes "r < 2 ^ 256" and "s < 2 ^ 256"
  shows "ParseSignature (der_sig r s) =
      (if r = 0 then Inl (GoError ''signature R isn't 1 or more'')
       else if s = 0 then Inl (GoError ''signature S isn't 1 or more'')
       else if r \<ge> curve_N then Inl (GoError ''signature R is >= curve.N'')
       else if s \<ge> curve_N then Inl (GoError ''signature S is >= curve.N'')
       else Inr \<lparr>sig_R = r, sig_S = s\<rparr>)"
    and "ParseDERSignature (der_sig r s) = ParseSignature (der_sig r s)"
proof -
  have "length (canonicalizeInt r) + length (canonicalizeInt s) \<le> 200"
    using length_canonicalizeInt(2) [OF assms(1)] length_canonicalizeInt(2) [OF assms(2)] by simp
  note p = parseSig_frame [OF canonicalizeInt_ne canonicalizeInt_ne this]
  have c: "check_padding d f (canonicalizeInt n) = Inr ()" for d f n
    by (simp add: check_padding_def canonicalPadding_canonicalizeInt)
  show "ParseSignature (der_sig r s) = (if r = 0 then Inl (GoError ''signature R isn't 1 or more'')
       else if s = 0 then Inl (GoError ''signature S isn't 1 or more'')
       else if r \<ge> curve_N then Inl (GoError ''signature R is >= curve.N'')
       else if s \<ge> curve_N then Inl (GoError ''signature S is >= curve.N'')
       else Inr \<lparr>sig_R = r, sig_S = s\<rparr>)"
    and "ParseDERSignature (der_sig r s) = ParseSignature (der_sig r s)"
    by (simp_all add: ParseSignature_def ParseDERSignature_def der_sig_def p c)
qed

text \<open>
  The length byte is trusted too far: eight bytes that announce an empty message pass the length check
  (as do 254 and 255, whose sum with two wraps), and the read of the first marker is out of range.
\<close>

lemma ParseSignature_panics:
  assumes "8 \<le> length rest" and "l \<in> {0, 254, 255}"
  shows "is_panic (ParseSignature (0x30 # l # rest))"
  using assms by (auto simp: ParseSignature_def parseSig_def index_go_def)

section \<open>Public keys on the curve\<close>

definition valid_key :: "PublicKey \<Rightarrow> bool" where
  "valid_key p \<longleftrightarrow> pub_X p < curve_P \<and> pub_Y p < curve_P \<and> IsOnCurve (pub_X p) (pub_Y p)"

lemma paddedAppend_to_be:
  assumes "n < curve_P"
  shows "paddedAppend 32 dst (big_bytes n) = dst @ to_be 32 n"
proof -
  have "n < 256 ^ 32" using assms by (simp add: curve_P_def)
  then show ?thesis by (simp add: paddedAppend_def zeros_pad_to_be length_big_bytes)
qed

lemma Serialize_valid:
  assumes "valid_key p"
  shows "SerializeUncompressed p = 0x4 # to_be 32 (pub_X p) @ to_be 32 (pub_Y p)"
    and "SerializeCompressed p = (if odd (pub_Y p) then 0x3 else 0x2) # to_be 32 (pub_X p)"
    and "SerializeHybrid p = (if odd (pub_Y p) then 0x7 else 0x6) # to_be 32 (pub_X p) @ to_be 32 (pub_Y p)"
  using assms
  by (simp_all add: valid_key_def SerializeUncompressed_def SerializeCompressed_def
      SerializeHybrid_def paddedAppend_to_be Let_def)

lemma format_split:
  fixes b :: byte
  shows "b = (b AND NOT 1) OR (if b AND 1 = 1 then 1 else 0)"
proof -
  have "b = (b AND NOT 1) OR (b AND 1)" by (rule bit_word_eqI) (auto simp: bit_simps)
  moreover have "b AND 1 = (if b AND 1 = 1 then 1 else 0)" by (auto simp: and_one_eq)
  ultimately show ?thesis by simp
qed

lemma format_cases:
  fixes b :: byte
  shows "b AND - 2 = 2 \<longleftrightarrow> b = 2 \<or> b = 3" and "b AND - 2 = 4 \<longleftrightarrow> b = 4 \<or> b = 5"
    and "b AND - 2 = 6 \<longleftrightarrow> b = 6 \<or> b = 7"
  using format_split [of b] by (auto split: if_splits)

lemma decompressPoint_Inr: "decompressPoint x ybit = Inr y \<Longrightarrow> ybit = odd y"
  by (auto simp: decompressPoint_def Let_def split: if_splits)

lemma to_be_of_be_32: "length b = 32 \<Longrightarrow> to_be 32 (of_be b) = b"
  by (simp add: to_be_of_be)

lemma of_be_to_be_32:
  assumes "n < curve_P"
  shows "of_be (to_be 32 n) = n"
proof -
  have "n < 256 ^ 32" using assms by (simp add: curve_P_def)
  then show ?thesis by (simp only: of_be_to_be mod_less)
qed

lemma ParsePubKey_Serialize:
  assumes "valid_key p"
  shows "ParsePubKey (SerializeUncompressed p) = Inr p" and "ParsePubKey (SerializeHybrid p) = Inr p"
  using assms unfolding Serialize_valid [OF assms]
  by (simp_all add: ParsePubKey_def valid_key_def of_be_to_be_32 Let_def not_le [symmetric] del: of_be_to_be)

lemma ParsePubKey_33:
  "length t = 32 \<Longrightarrow> ParsePubKey (h # t) = Inr p \<longleftrightarrow>
     (h = 2 \<or> h = 3) \<and> pub_X p = of_be t \<and> decompressPoint (of_be t) (h AND 1 = 1) = Inr (pub_Y p) \<and> valid_key p"
  by (cases p) (auto simp: ParsePubKey_def Let_def go_simps format_cases valid_key_def)

lemma ParsePubKey_65:
  "length t = 64 \<Longrightarrow> ParsePubKey (h # t) = Inr p \<longleftrightarrow>
     (h = 4 \<or> h = 5 \<or> (h = 6 \<or> h = 7) \<and> (h AND 1 = 1) = odd (pub_Y p))
     \<and> pub_X p = of_be (take 32 t) \<and> pub_Y p = of_be (drop 32 t) \<and> valid_key p"
  by (cases p) (auto simp: ParsePubKey_def Let_def go_simps format_cases valid_key_def)

lemma ParsePubKey_sound:
  assumes "ParsePubKey b = Inr p"
  shows "valid_key p \<and> (b = SerializeCompressed p \<or> b = SerializeHybrid p
    \<or> b = SerializeUncompressed p \<or> b = 0x5 # tl (SerializeUncompressed p))"
proof -
  obtain h t where b: "b = h # t" using assms by (cases b) (auto simp: ParsePubKey_def)
  have "length t = 32 \<or> length t = 64"
    using assms by (auto simp: b ParsePubKey_def Let_def split: if_splits)
  then show ?thesis
  proof
    assume l: "length t = 32"
    from assms have *: "h = 2 \<or> h = 3" "pub_X p = of_be t" "(h AND 1 = 1) = odd (pub_Y p)" "valid_key p"
      unfolding b ParsePubKey_33 [OF l] by (auto dest: decompressPoint_Inr)
    with l show ?thesis by (auto simp: b Serialize_valid to_be_of_be_32)
  next
    assume l: "length t = 64"
    from assms have *: "h = 4 \<or> h = 5 \<or> (h = 6 \<or> h = 7) \<and> (h AND 1 = 1) = odd (pub_Y p)" "valid_key p"
      and "to_be 32 (pub_X p) @ to_be 32 (pub_Y p) = t"
      unfolding b ParsePubKey_65 [OF l] using l by (auto simp: to_be_of_be_32)
    then show ?thesis by (auto simp: b Serialize_valid)
  qed
qed

lemma panic_free_decompressPoint [parser_intros]: "panic_free (decompressPoint x ybit)"
  unfolding decompressPoint_def Let_def by (rule parser_intros)+

lemma ParsePubKey_no_panic: "panic_free (ParsePubKey b)"
  unfolding ParsePubKey_def Let_def case_prod_beta by (rule parser_intros)+

section \<open>Properties\<close>


text \<open>The point of the curve with \<open>X = 1\<close>.\<close>

definition sample_key :: PublicKey where
  "sample_key = \<lparr>pub_X = 1, pub_Y = 0x4218F20AE6C646B363DB68605822FB14264CA8D2587FDD6FBC750D587E76A7EE\<rparr>"

lemma IsOnCurveI: "y * y = x * x * x + curve_B + k * curve_P \<Longrightarrow> IsOnCurve x y"
  unfolding IsOnCurve_def by (metis mod_mult_self1)

lemma sample_key_valid: "valid_key sample_key"
proof -
  have "IsOnCurve (pub_X sample_key) (pub_Y sample_key)"
    by (rule IsOnCurveI [of _ _ "0x1110DF3BE5E21E6776516A5FA6702D71D937B2614804CCE0315F9575458FF784"]) (simp add: sample_key_def curve_P_def curve_B_def)
  then show ?thesis by (simp add: sample_key_def valid_key_def curve_P_def)
qed


end
