(* ===== verification/Sig64.thy ===== *)
theory Sig64
  imports Fast_Sha256 Btcec_Sig
begin

text \<open>
  \<open>crypto/sig64/sigcompress.go\<close> and \<open>crypto/verify.go\<close>: DER signatures packed into 64 bytes
  and unpacked again, and the verification of a packed signature. Slices are lists; the argument
  \<open>spare\<close> of \<open>SigCompress\<close> holds the bytes of the backing array behind the slice, which a
  reslicing \<open>sig[:n]\<close> with \<open>n\<close> above the length uncovers. The ECDSA check \<open>ecdsa.Verify\<close> on a
  parsed key and signature is a parameter of \<open>VerifySig\<close>.
\<close>

unbundle bit_operations_syntax

section \<open>Compression\<close>

text \<open>
  The named results \<open>csig\<close> and \<open>err\<close> are the pair returned; the two length mismatches set
  \<open>err\<close> and go on. \<open>sig_part\<close> is the code that is written twice, once for \<open>r\<close> and once
  for \<open>s\<close>: it pops the tag, the length and the value. It returns \<open>None\<close> on an early return.
\<close>

definition sig_part :: "string \<Rightarrow> bytes \<Rightarrow> bytes \<Rightarrow> string option \<Rightarrow> ((bytes \<times> bytes) option \<times> string option) go" where
  "sig_part f sig spare err =
     bind_go (index_go sig 0) (\<lambda>tag.
     if tag \<noteq> 0x02 then Inr (None, Some ''should have an 0x02 byte'') else
     bind_go (slice_from sig 1) (\<lambda>sig.
     bind_go (index_go sig 0) (\<lambda>rlen.
     bind_go (slice_from sig 1) (\<lambda>sig.
     if rlen < 22 \<or> rlen > 33 then Inr (None, Some (''byte '' @ f @ '' is too long'')) else
     let err = (if unat rlen > length sig then Some (''length of '' @ f @ '' value but only bytes left'') else err) in
     bind_go (if rlen = 33 then slice_from sig 1 else Inr sig) (\<lambda>sig.
     let rlen = (if rlen = 33 then 32 else unat rlen) in
     bind_go (slice_to sig spare rlen) (\<lambda>v. Inr (Some (zeros (32 - rlen) @ v, drop rlen sig), err)))))))"

definition SigCompress :: "bytes \<Rightarrow> bytes \<Rightarrow> (bytes \<times> string option) go" where
  "SigCompress sig spare =
     (if length sig < 65 \<or> length sig > 72 then Inr (zeros 64, Some ''Can't compress; sig length'') else
      bind_go (index_go sig 0) (\<lambda>h.
      if h \<noteq> 0x30 then Inr (zeros 64, Some ''Can't compress; sig starts with'') else
      bind_go (slice_from sig 1) (\<lambda>sig.
      bind_go (index_go sig 0) (\<lambda>l.
      let err = (if unat l \<noteq> length sig - 1 then Some ''length byte but rest is'' else None) in
      bind_go (slice_from sig 1) (\<lambda>sig.
      bind_go (sig_part ''r'' sig spare err) (\<lambda>(res, err).
      case res of None \<Rightarrow> Inr (zeros 64, err)
      | Some (r, sig) \<Rightarrow>
          bind_go (sig_part ''s'' sig spare err) (\<lambda>(res, err).
          case res of None \<Rightarrow> Inr (zeros 64, err)
          | Some (s, sig) \<Rightarrow> Inr (r @ s, err))))))))"

section \<open>Decompression\<close>

text \<open>The loop that drops leading zero bytes; \<open>l\<close> is \<open>rlen\<close> or \<open>slen\<close>.\<close>

function chop_loop :: "bytes \<Rightarrow> nat \<Rightarrow> nat \<Rightarrow> (nat \<times> nat) go" where
  "chop_loop csig l i =
     (if l > 1 then
        bind_go (index_go csig i) (\<lambda>b. if b \<noteq> 0 then Inr (l, i) else
        bind_go (index_go csig (i + 1)) (\<lambda>b'. if b' AND 0x80 \<noteq> 0 then Inr (l, i)
          else chop_loop csig (l - 1) (i + 1)))
      else Inr (l, i))"
  by pat_completeness auto
termination by (relation "measure (\<lambda>(_, l, _). l)") auto

declare chop_loop.simps [simp del]

text \<open>One half of the signature, from byte \<open>i\<close> up to byte \<open>e\<close>, with its padding.\<close>

definition pad_part :: "bytes \<Rightarrow> nat \<Rightarrow> nat \<Rightarrow> bytes go" where
  "pad_part csig i e =
     bind_go (index_go csig i) (\<lambda>b.
     bind_go (chop_loop csig (if b AND 0x80 = 0 then 32 else 33) i) (\<lambda>(l, i).
     if l < e - i then Inl (GoPanic ''slice bounds out of range'')
     else Inr (zeros (l - (e - i)) @ copy_bytes (zeros (e - i)) (drop i csig))))"

definition SigDecompress :: "bytes \<Rightarrow> bytes go" where
  "SigDecompress csig =
     bind_go (pad_part csig 0 32) (\<lambda>padr.
     bind_go (pad_part csig 32 64) (\<lambda>pads.
     let fulllen = word_of_nat (length padr + length pads + 6) :: byte in
     Inr ([0x30, fulllen - 2, 0x02, word_of_nat (length padr)] @ padr
          @ [0x02, word_of_nat (length pads)] @ pads)))"

section \<open>Verification\<close>

definition VerifySig :: "(PublicKey \<Rightarrow> bytes \<Rightarrow> nat \<Rightarrow> nat \<Rightarrow> bool) \<Rightarrow> bytes \<Rightarrow> bytes \<Rightarrow> bytes \<Rightarrow> unit go" where
  "VerifySig ecdsa_Verify plainText pubKey csig =
     bind_go (SigDecompress csig) (\<lambda>sig.
     bind_go (ParseSignature sig) (\<lambda>psig.
     bind_go (ParsePubKey pubKey) (\<lambda>pk.
     bind_go (Sum256_go plainText) (\<lambda>hash.
     if ecdsa_Verify pk hash (sig_R psig) (sig_S psig) then Inr ()
     else Inl (GoError ''Signature verification failed'')))))"

section \<open>Decompression is DER encoding\<close>

text \<open>What the chopping loop leaves of a big-endian number whose first bit is clear.\<close>

fun chopped :: "bytes \<Rightarrow> bytes" where
  "chopped [] = []"
| "chopped [x] = [x]"
| "chopped (x # y # b) = (if x = 0 \<and> unat y < 128 then chopped (y # b) else x # y # b)"

lemma chopped_canonical:
  "b \<noteq> [] \<Longrightarrow> unat (hd b) < 128 \<Longrightarrow> chopped b = canonicalizeInt (of_be b)"
proof (induction b rule: chopped.induct)
  case (2 x)
  then show ?case using canonicalizeInt_min [of "[x]"] by (cases "x = 0") (auto simp: of_be_Cons)
next
  case (3 x y b)
  consider (drop) "x = 0" "unat y < 128" | (sign) "x = 0" "128 \<le> unat y" | (keep) "x \<noteq> 0" by fastforce
  then show ?case
  proof cases
    case drop
    then show ?thesis using "3.IH" by simp
  next
    case sign
    then show ?thesis using canonicalizeInt_msb [of "y # b"] by simp
  next
    case keep
    then show ?thesis using canonicalizeInt_min [of "x # y # b"] "3.prems" by simp
  qed
qed simp

lemma length_chopped: "length (chopped b) \<le> length b"
  by (induction b rule: chopped.induct) auto

lemma chopped_suffix: "chopped b = drop (length b - length (chopped b)) b"
proof (induction b rule: chopped.induct)
  case (3 x y b)
  then show ?case using length_chopped [of "y # b"] by (auto simp: Suc_diff_le)
qed simp_all

lemma chop_loop_chopped:
  "l = length b \<Longrightarrow> b \<noteq> [] \<Longrightarrow>
     chop_loop (p @ b @ q) l (length p) = Inr (length (chopped b), length p + (length b - length (chopped b)))"
proof (induction b arbitrary: p l rule: chopped.induct)
  case (3 x y b)
  show ?case
  proof (cases "x = 0 \<and> unat y < 128")
    case True
    then have "chop_loop (p @ (x # y # b) @ q) l (length p) = chop_loop ((p @ [x]) @ (y # b) @ q) (l - 1) (length (p @ [x]))"
      using 3(2) by (subst chop_loop.simps) (simp add: msb_clear nth_append)
    also have "\<dots> = Inr (length (chopped (y # b)), length (p @ [x]) + (length (y # b) - length (chopped (y # b))))"
      using True 3 by (intro "3.IH") simp_all
    finally show ?thesis using True length_chopped [of "y # b"] by simp
  next
    case False
    then show ?thesis using 3(2) by (subst chop_loop.simps) (auto simp: msb_clear nth_append)
  qed
next
  case (2 x)
  then show ?case by (subst chop_loop.simps) simp
qed simp

lemma pad_part_canonical:
  assumes "length b = 32"
  shows "pad_part (p @ b @ q) (length p) (length p + 32) = Inr (canonicalizeInt (of_be b))"
proof -
  obtain x b' where b: "b = x # b'" using assms by (cases b) auto
  then have n: "(p @ b @ q) ! length p = x" "b \<noteq> []" by (simp_all add: nth_append)
  show ?thesis
  proof (cases "unat x < 128")
    case True
    let ?c = "chopped b"
    have c: "?c = canonicalizeInt (of_be b)" using True by (intro chopped_canonical) (simp_all add: b)
    have l: "length ?c \<le> 32" using length_chopped [of b] assms by simp
    have "pad_part (p @ b @ q) (length p) (length p + 32) =
        Inr (copy_bytes (zeros (length ?c)) (drop (32 - length ?c) b @ q))"
      using True chop_loop_chopped [of 32 b p q] assms l n
      by (simp add: pad_part_def msb_clear)
    also have "drop (32 - length ?c) b = ?c" using chopped_suffix [of b] assms by simp
    finally show ?thesis using c by (simp add: copy_bytes_def)
  next
    case False
    then have "pad_part (p @ b @ q) (length p) (length p + 32) = Inr (0 # b)"
      using assms by (subst pad_part_def, subst chop_loop.simps) (auto simp: b msb_clear nth_append copy_bytes_def)
    then show ?thesis using canonicalizeInt_msb [of b] False by (simp add: b)
  qed
qed

lemma SigDecompress_der:
  assumes "length r = 32" and "length s = 32"
  shows "SigDecompress (r @ s) = Inr (der_sig (of_be r) (of_be s))"
proof -
  have "pad_part (r @ s) 0 32 = Inr (canonicalizeInt (of_be r))"
    using pad_part_canonical [OF assms(1), of "[]" s] by simp
  moreover have "pad_part (r @ s) 32 64 = Inr (canonicalizeInt (of_be s))"
    using pad_part_canonical [OF assms(2), of r "[]"] assms(1) by simp
  ultimately show ?thesis
    by (simp add: SigDecompress_def der_sig_def der_frame_def Let_def)
qed

section \<open>Compression of DER signatures\<close>

lemma canonicalizeInt_33:
  assumes "n < 2 ^ 256" and "length (canonicalizeInt n) = 33"
  shows "canonicalizeInt n = 0 # big_bytes n" and "length (big_bytes n) = 32"
proof -
  have "n < 256 ^ 32" using assms(1) by simp
  then have "length (big_bytes n) \<le> 32" by (rule length_big_bytes)
  with assms(2) show "canonicalizeInt n = 0 # big_bytes n" "length (big_bytes n) = 32"
    by (auto simp: canonicalizeInt_def Let_def split: if_splits)
qed

lemma sig_part_canonical:
  assumes n: "n < 2 ^ 256" and l: "22 \<le> length (canonicalizeInt n)"
  shows "sig_part f (0x02 # word_of_nat (length (canonicalizeInt n)) # canonicalizeInt n @ rest) spare err
    = Inr (Some (to_be 32 n, rest), err)"
proof -
  let ?v = "canonicalizeInt n"
  have u: "length ?v \<le> 33" using length_canonicalizeInt(2) [OF n] .
  obtain w :: byte where w: "w = word_of_nat (length ?v)" by simp
  have uw: "unat w = length ?v" using u by (simp add: w unat_of_nat)
  then have r: "\<not> w < 22" "\<not> 33 < w" "(w = 33) = (length ?v = 33)"
    using l u by (simp_all add: word_less_nat_alt word_unat_eq_iff)
  show ?thesis
  proof (cases "length ?v = 33")
    case True
    note v = canonicalizeInt_33 [OF n True]
    have "to_be 32 n = big_bytes n" using to_be_of_be [of 32 "big_bytes n"] v(2) by simp
    then show ?thesis
      using r True v(2) unfolding w [symmetric] by (simp add: sig_part_def v(1) uw Let_def)
  next
    case False
    then have "length ?v \<le> 32" using u by simp
    then have "zeros (32 - length ?v) @ ?v = to_be 32 n" by (simp add: zeros_pad_to_be)
    then show ?thesis
      using r False unfolding w [symmetric] by (simp add: sig_part_def uw Let_def)
  qed
qed

definition compressible :: "nat \<Rightarrow> nat \<Rightarrow> bool" where
  "compressible r s \<longleftrightarrow> 22 \<le> length (canonicalizeInt r) \<and> 22 \<le> length (canonicalizeInt s)
     \<and> 59 \<le> length (canonicalizeInt r) + length (canonicalizeInt s)"

lemma SigCompress_der_sig:
  assumes "r < 2 ^ 256" and "s < 2 ^ 256" and "compressible r s"
  shows "SigCompress (der_sig r s) spare = Inr (to_be 32 r @ to_be 32 s, None)"
proof -
  let ?r = "canonicalizeInt r" and ?s = "canonicalizeInt s"
  have l: "length ?r \<le> 33" "length ?s \<le> 33" using assms length_canonicalizeInt(2) by blast+
  obtain w :: byte where w: "w = word_of_nat (4 + length ?r + length ?s)" by simp
  have uw: "unat w = 4 + length ?r + length ?s" unfolding w using l by (subst unat_of_nat) simp
  have "der_sig r s = 0x30 # w # 0x02 # word_of_nat (length ?r) # ?r @ 0x02 # word_of_nat (length ?s) # ?s @ []"
    unfolding der_sig_def der_frame_def w by simp
  then show ?thesis
    using assms l uw sig_part_canonical [OF assms(1), of "''r''" "0x02 # word_of_nat (length ?s) # ?s @ []" spare None]
      sig_part_canonical [OF assms(2), of "''s''" "[]" spare None]
    by (simp add: SigCompress_def compressible_def Let_def)
qed

section \<open>Verification of a packed signature\<close>

lemma VerifySig_unfold:
  assumes "length r = 32" and "length s = 32"
  shows "VerifySig ecdsa_Verify plainText pubKey (r @ s) =
    bind_go (ParseSignature (der_sig (of_be r) (of_be s))) (\<lambda>psig.
    bind_go (ParsePubKey pubKey) (\<lambda>pk.
      if ecdsa_Verify pk (Sum256 plainText) (sig_R psig) (sig_S psig) then Inr ()
      else Inl (GoError ''Signature verification failed'')))"
  by (simp add: VerifySig_def SigDecompress_der [OF assms] Sum256_go_eq)

lemma of_be_half_bound: "length b = 32 \<Longrightarrow> of_be b < 2 ^ 256"
  using of_be_bound [of b] by simp

lemma VerifySig_halves:
  assumes "length r = 32" and "length s = 32"
  shows "VerifySig ecdsa_Verify plainText pubKey (r @ s) = Inr () \<longleftrightarrow>
      in_order (of_be r) \<and> in_order (of_be s) \<and>
      (\<exists>pk. ParsePubKey pubKey = Inr pk \<and> ecdsa_Verify pk (Sum256 plainText) (of_be r) (of_be s))"
    and "panic_free (VerifySig ecdsa_Verify plainText pubKey (r @ s))"
proof -
  note p = ParseSignature_der_sig(1) [OF of_be_half_bound of_be_half_bound, OF assms]
  show "VerifySig ecdsa_Verify plainText pubKey (r @ s) = Inr () \<longleftrightarrow>
      in_order (of_be r) \<and> in_order (of_be s) \<and>
      (\<exists>pk. ParsePubKey pubKey = Inr pk \<and> ecdsa_Verify pk (Sum256 plainText) (of_be r) (of_be s))"
    unfolding VerifySig_unfold [OF assms] p by (auto simp: in_order_def go_simps split: if_splits)
  show "panic_free (VerifySig ecdsa_Verify plainText pubKey (r @ s))"
    unfolding VerifySig_unfold [OF assms] p by (intro parser_intros ParsePubKey_no_panic)
qed

section \<open>Properties\<close>

text \<open>
  C26. \<open>VerifySig\<close> on a 64-byte signature never panics, and accepts exactly when both halves, read as
  big-endian numbers, lie between 1 and the group order, the public key parses, and the ECDSA check
  holds for that key, the SHA-256 digest of the text and the two numbers: unpacking to DER and parsing
  it back loses nothing.
\<close>

theorem VerifySig_correct:
  assumes "length csig = 64"
  shows "(VerifySig ecdsa_Verify plainText pubKey csig = Inr () \<longleftrightarrow>
      in_order (of_be (take 32 csig)) \<and> in_order (of_be (drop 32 csig)) \<and>
      (\<exists>pk. ParsePubKey pubKey = Inr pk \<and>
         ecdsa_Verify pk (Sum256 plainText) (of_be (take 32 csig)) (of_be (drop 32 csig))))
    \<and> \<not> is_panic (VerifySig ecdsa_Verify plainText pubKey csig)"
proof -
  have "length (take 32 csig) = 32" "length (drop 32 csig) = 32" using assms by simp_all
  from VerifySig_halves [OF this] show ?thesis by (simp add: panic_free_def)
qed

theorem VerifySig_correct_witness:
  "VerifySig (\<lambda>pk h r s. r = 1 \<and> s = 2 \<and> pub_X pk = 1) [] (SerializeUncompressed sample_key) (to_be 32 1 @ to_be 32 2) = Inr ()"
  using VerifySig_correct [of "to_be 32 1 @ to_be 32 2" "\<lambda>pk h r s. r = 1 \<and> s = 2 \<and> pub_X pk = 1" "[]" "SerializeUncompressed sample_key"]
    ParsePubKey_Serialize(1) [OF sample_key_valid]
  by (simp add: in_order_def curve_N_def sample_key_def)

text \<open>
  C27. The way of a signature from signer to verifier: serialised in DER form with the low \<open>S\<close>, packed
  into 64 bytes and unpacked by the verifier, it is the signature with the low \<open>S\<close> again, whatever
  lies behind the slice in memory. The packing succeeds for every signature in range that is not
  exceptionally short.
\<close>

theorem signature_transport:
  assumes "in_order (sig_R sig)" and "in_order (sig_S sig)" and "compressible (sig_R sig) (low_S (sig_S sig))"
  shows "\<exists>csig. SigCompress (sig_Serialize sig) spare = Inr (csig, None) \<and> length csig = 64
    \<and> bind_go (SigDecompress csig) ParseSignature = Inr \<lparr>sig_R = sig_R sig, sig_S = low_S (sig_S sig)\<rparr>
    \<and> bind_go (SigDecompress csig) ParseDERSignature = Inr \<lparr>sig_R = sig_R sig, sig_S = low_S (sig_S sig)\<rparr>
    \<and> SigDecompress csig = Inr (sig_Serialize sig)"
proof -
  let ?r = "sig_R sig" and ?s = "low_S (sig_S sig)"
  have s: "in_order ?s" using assms(2) by (rule in_order_low_S)
  note b = in_order_bound [OF assms(1)] in_order_bound [OF s]
  have m: "n mod 256 ^ 32 = n" if "n < 2 ^ 256" for n :: nat using that by (intro mod_less) simp
  have ser: "sig_Serialize sig = der_sig ?r ?s"
    using assms(2) by (intro sig_Serialize_der) (simp add: in_order_def)
  have d: "SigDecompress (to_be 32 ?r @ to_be 32 ?s) = Inr (der_sig ?r ?s)"
    by (subst SigDecompress_der) (simp_all only: length_to_be of_be_to_be m [OF b(1)] m [OF b(2)])
  have "ParseSignature (der_sig ?r ?s) = Inr \<lparr>sig_R = ?r, sig_S = ?s\<rparr>"
    using assms(1) s unfolding ParseSignature_der_sig(1) [OF b] by (simp add: in_order_def)
  with d show ?thesis
    unfolding ser using SigCompress_der_sig [OF b assms(3), of spare] ParseSignature_der_sig(2) [OF b] by simp
qed

theorem signature_transport_witness:
  "\<exists>csig. SigCompress (sig_Serialize \<lparr>sig_R = 256 ^ 31, sig_S = 256 ^ 31\<rparr>) [] = Inr (csig, None)"
proof -
  have h: "of_be (1 # zeros 31) = 256 ^ 31"
    using of_be_zeros [of 31 "[]"] by (simp add: of_be_Cons)
  have "canonicalizeInt (of_be (1 # zeros 31)) = 1 # zeros 31" by (rule canonicalizeInt_min) simp_all
  then have "length (canonicalizeInt (256 ^ 31)) = 32" unfolding h by (simp only: length_Cons length_replicate)
  moreover have l: "low_S (256 ^ 31) = 256 ^ 31" by (simp add: low_S_def halfOrder_def curve_N_def)
  ultimately have "compressible (256 ^ 31) (low_S (256 ^ 31))" unfolding compressible_def by (simp only:) simp
  moreover have "in_order (256 ^ 31)" by (simp add: in_order_def curve_N_def)
  ultimately show ?thesis
    using signature_transport [of "\<lparr>sig_R = 256 ^ 31, sig_S = 256 ^ 31\<rparr>" "[]"]
    unfolding Signature.select_convs by blast
qed

end
