(* ===== verification/Bv_Wire.thy ===== *)
theory Bv_Wire
  imports Merkle_Tree Partial_MPT Sig64
begin

text \<open>
  The package \<open>wire\<close>: the statements that clients sign, the commitments of the server, the
  messages between them and the framing of messages on a connection. An \<open>io.Writer\<close> is the bytes
  written, an \<open>io.Reader\<close> or a \<open>bytes.Buffer\<close> the list of unread bytes. Fixed-size arrays are
  byte lists; Go's \<open>int\<close> is \<open>int\<close>, cut to 32 bits where the code does. Writes to a connection
  are atomic, since \<open>WriteMessage\<close> holds the write lock: a connection carries the concatenation
  of the frames in the order in which the lock was taken.
\<close>

section \<open>Primitive encodings (\<open>wire/common.go\<close>)\<close>

abbreviation bv_errNonCanonicalVarInt :: "'a go" where
  "bv_errNonCanonicalVarInt \<equiv> Inl (GoError ''ReadVarInt: errNonCanonicalVarInt'')"

definition bv_ReadVarInt :: "bytes \<Rightarrow> (64 word \<times> bytes) go" where
  "bv_ReadVarInt r =
     bind_go (Uint8 r) (\<lambda>(discriminant, r).
       if discriminant = 0xff then
         bind_go (Uint64 LittleEndian r) (\<lambda>(rv, r).
           if rv < 0x100000000 then bv_errNonCanonicalVarInt else Inr (rv, r))
       else if discriminant = 0xfe then
         bind_go (Uint32 LittleEndian r) (\<lambda>(sv, r). let rv = ucast sv in
           if rv < 0x10000 then bv_errNonCanonicalVarInt else Inr (rv, r))
       else if discriminant = 0xfd then
         bind_go (Uint16 LittleEndian r) (\<lambda>(sv, r). let rv = ucast sv in
           if rv < 0xfd then bv_errNonCanonicalVarInt else Inr (rv, r))
       else Inr (ucast discriminant, r))"

definition bv_WriteVarInt :: "64 word \<Rightarrow> bytes" where
  "bv_WriteVarInt v =
     (if v < 0xfd then PutUint8 (ucast v)
      else if v \<le> 0xffff then PutUint8 0xfd @ PutUint16 LittleEndian (ucast v)
      else if v \<le> 0xffffffff then PutUint8 0xfe @ PutUint32 LittleEndian (ucast v)
      else PutUint8 0xff @ PutUint64 LittleEndian v)"

definition bv_VarIntSerializeSize :: "64 word \<Rightarrow> nat" where
  "bv_VarIntSerializeSize v =
     (if v < 0xfd then 1 else if v \<le> 0xffff then 3 else if v \<le> 0xffffffff then 5 else 9)"

text \<open>
  \<open>make([]byte, n)\<close> panics when \<open>n\<close> exceeds the address space of the allocator, 2 to the 48 on
  64-bit Linux. The parameter \<open>maxAllowed\<close> is not used by the code.
\<close>

definition maxAlloc :: nat where
  "maxAlloc = 2 ^ 48"

definition bv_ReadVarBytes :: "nat \<Rightarrow> bytes \<Rightarrow> (bytes \<times> bytes) go" where
  "bv_ReadVarBytes maxAllowed r =
     bind_go (bv_ReadVarInt r) (\<lambda>(count, r).
       if unat count > maxAlloc then Inl (GoPanic ''makeslice: len out of range'')
       else readFull (unat count) r)"

definition bv_WriteVarBytes :: "bytes \<Rightarrow> bytes" where
  "bv_WriteVarBytes bytes = bv_WriteVarInt (word_of_nat (length bytes)) @ bytes"

section \<open>Log statements (\<open>wire/log.go\<close>)\<close>

record CreateLogStatement =
  ControllingKey :: bytes
  InitialStatement :: bytes

record SignedCreateLogStatement =
  scls_Signature :: bytes
  CreateStatement :: CreateLogStatement

record LogStatement =
  LogID :: bytes
  Index :: "64 word"
  Statement :: bytes

record SignedLogStatement =
  sls_Signature :: bytes
  sls_Statement :: LogStatement

definition NewSignedCreateLogStatement :: "bytes \<Rightarrow> bytes \<Rightarrow> SignedCreateLogStatement" where
  "NewSignedCreateLogStatement controllingKey initialStatement =
     \<lparr>scls_Signature = zeros 64,
      CreateStatement = \<lparr>ControllingKey = controllingKey, InitialStatement = initialStatement\<rparr>\<rparr>"

definition NewSignedLogStatement :: "64 word \<Rightarrow> bytes \<Rightarrow> bytes \<Rightarrow> SignedLogStatement" where
  "NewSignedLogStatement index logID statement =
     \<lparr>sls_Signature = zeros 64, sls_Statement = \<lparr>LogID = logID, Index = index, Statement = statement\<rparr>\<rparr>"

definition LogStatement_Bytes :: "LogStatement \<Rightarrow> bytes" where
  "LogStatement_Bytes ls = LogID ls @ bv_WriteVarInt (Index ls) @ bv_WriteVarBytes (Statement ls)"

definition SignedLogStatement_Bytes :: "SignedLogStatement \<Rightarrow> bytes" where
  "SignedLogStatement_Bytes sls = sls_Signature sls @ LogStatement_Bytes (sls_Statement sls)"

definition CreateLogStatement_Bytes :: "CreateLogStatement \<Rightarrow> bytes" where
  "CreateLogStatement_Bytes cls = ControllingKey cls @ bv_WriteVarBytes (InitialStatement cls)"

definition SignedCreateLogStatement_Bytes :: "SignedCreateLogStatement \<Rightarrow> bytes" where
  "SignedCreateLogStatement_Bytes scls = scls_Signature scls @ CreateLogStatement_Bytes (CreateStatement scls)"

text \<open>The result of the read of the log ID is ignored; a short read fills its first bytes.\<close>

definition NewLogStatementFromBytes :: "bytes \<Rightarrow> LogStatement go" where
  "NewLogStatementFromBytes b =
     (let (logID, buf) = (case bufRead 32 b of
             Inr (x, buf) \<Rightarrow> (copy_bytes (zeros 32) x, buf) | Inl _ \<Rightarrow> (zeros 32, b))
      in bind_go (bv_ReadVarInt buf) (\<lambda>(idx, buf).
         bind_go (bv_ReadVarBytes 256 buf) (\<lambda>(statement, buf).
         Inr \<lparr>LogID = logID, Index = idx, Statement = statement\<rparr>)))"

definition NewSignedLogStatementFromBytes :: "bytes \<Rightarrow> SignedLogStatement go" where
  "NewSignedLogStatementFromBytes b =
     bind_go (bufRead 64 b) (\<lambda>(sig, buf).
     if length sig < 64 then Inl (GoError ''Unexpected end of buffer'') else
     bind_go (NewLogStatementFromBytes buf) (\<lambda>ls. Inr \<lparr>sls_Signature = sig, sls_Statement = ls\<rparr>))"

definition NewCreateLogStatementFromBytes :: "bytes \<Rightarrow> CreateLogStatement go" where
  "NewCreateLogStatementFromBytes b =
     bind_go (bufRead 33 b) (\<lambda>(key, buf).
     if length key < 33 then Inl (GoError ''Unexpected end of buffer'') else
     bind_go (bv_ReadVarBytes 256 buf) (\<lambda>(statement, buf).
     Inr \<lparr>ControllingKey = key, InitialStatement = statement\<rparr>))"

definition NewSignedCreateLogStatementFromBytes :: "bytes \<Rightarrow> SignedCreateLogStatement go" where
  "NewSignedCreateLogStatementFromBytes b =
     bind_go (bufRead 64 b) (\<lambda>(sig, buf).
     if length sig < 64 then Inl (GoError ''Unexpected end of buffer'') else
     bind_go (NewCreateLogStatementFromBytes buf) (\<lambda>cls. Inr \<lparr>scls_Signature = sig, CreateStatement = cls\<rparr>))"

type_synonym ecdsa = "PublicKey \<Rightarrow> bytes \<Rightarrow> nat \<Rightarrow> nat \<Rightarrow> bool"

definition scls_VerifySignature :: "ecdsa \<Rightarrow> SignedCreateLogStatement \<Rightarrow> unit go" where
  "scls_VerifySignature ec scls =
     VerifySig ec (CreateLogStatement_Bytes (CreateStatement scls)) (ControllingKey (CreateStatement scls))
       (scls_Signature scls)"

definition sls_VerifySignature :: "ecdsa \<Rightarrow> SignedLogStatement \<Rightarrow> bytes \<Rightarrow> unit go" where
  "sls_VerifySignature ec sls controllingPubKey =
     VerifySig ec (LogStatement_Bytes (sls_Statement sls)) controllingPubKey (sls_Signature sls)"

section \<open>Commitments and foreign statements (\<open>wire/types.go\<close>)\<close>

record Commitment_rec =
  cm_Commitment :: bytes
  cm_TxHash :: "bytes option"
  cm_TriggeredAtBlockHeight :: int
  cm_IncludedInBlock :: "bytes option"
  cm_MerkleProof :: MerkleProof
  cm_RawTx :: bytes

definition hash_or_null :: "bytes option \<Rightarrow> bytes" where
  "hash_or_null h = (case h of Some h \<Rightarrow> h | None \<Rightarrow> zeros 32)"

definition Commitment_Bytes :: "Commitment_rec \<Rightarrow> bytes go" where
  "Commitment_Bytes c =
     bind_go (MerkleProof_Bytes (cm_MerkleProof c)) (\<lambda>merkleProofBytes.
     Inr (cm_Commitment c @ hash_or_null (cm_TxHash c)
       @ putBE32 (word_of_int (cm_TriggeredAtBlockHeight c))
       @ hash_or_null (cm_IncludedInBlock c)
       @ putBE32 (word_of_nat (length merkleProofBytes)) @ merkleProofBytes @ cm_RawTx c))"

text \<open>
  A failing \<open>binary.Read\<close> leaves the variable as it was and the buffer empty. The size of the
  merkle proof is a signed number; \<open>Next\<close> panics when it is negative.
\<close>

definition readBE32_into :: "32 word \<Rightarrow> bytes \<Rightarrow> 32 word \<times> bytes" where
  "readBE32_into i buf = (case readBE32 buf of Inr (w, r) \<Rightarrow> (w, r) | Inl _ \<Rightarrow> (i, []))"

definition hash_unless_null :: "bytes \<Rightarrow> bytes option" where
  "hash_unless_null h =
     (if zeros 32 = h then None else case NewHash h of Inr h \<Rightarrow> Some h | Inl _ \<Rightarrow> None)"

definition CommitmentFromBytes :: "bytes \<Rightarrow> Commitment_rec go" where
  "CommitmentFromBytes b =
     (let (c, buf) = bufNext 32 b;
          (t, buf) = bufNext 32 buf;
          (height, buf) = readBE32_into 0 buf;
          (ib, buf) = bufNext 32 buf;
          (i, buf) = readBE32_into height buf
      in bind_go (bufNext_int (sint i) buf) (\<lambda>(mp, buf).
         Inr \<lparr>cm_Commitment = copy_bytes (zeros 32) c,
              cm_TxHash = hash_unless_null (copy_bytes (zeros 32) t),
              cm_TriggeredAtBlockHeight = sint height,
              cm_IncludedInBlock = hash_unless_null (copy_bytes (zeros 32) ib),
              cm_MerkleProof = NewMerkleProofFromBytes mp,
              cm_RawTx = buf\<rparr>))"

definition NewCommitment :: "bytes \<Rightarrow> bytes option \<Rightarrow> bytes \<Rightarrow> int \<Rightarrow> Commitment_rec" where
  "NewCommitment c txhash rawTx triggerHeight =
     \<lparr>cm_Commitment = c, cm_TxHash = txhash, cm_TriggeredAtBlockHeight = triggerHeight,
      cm_IncludedInBlock = None, cm_MerkleProof = \<lparr>mp_Position = 0, mp_Hashes = []\<rparr>, cm_RawTx = rawTx\<rparr>"

record ForeignStatement =
  fs_InitialStatement :: bool
  fs_LogID :: bytes
  fs_StatementPreimage :: bytes
  fs_Signature :: bytes
  fs_PubKey :: bytes
  fs_Index :: "64 word"
  fs_Proof :: "PartialMPT option"

definition ForeignStatement_Bytes :: "ForeignStatement \<Rightarrow> bytes" where
  "ForeignStatement_Bytes f =
     (if fs_InitialStatement f then [0x01] else [0x00])
     @ fs_LogID f @ fs_Signature f @ fs_PubKey f @ putBE64 (fs_Index f)
     @ putBE32 (word_of_nat (length (fs_StatementPreimage f))) @ fs_StatementPreimage f
     @ (case fs_Proof f of
          None \<Rightarrow> putBE32 0
        | Some p \<Rightarrow> putBE32 (word_of_nat (PartialMPT_ByteSize p)) @ PartialMPT_Bytes p)"

definition ForeignStatementFromBytes :: "bytes \<Rightarrow> ForeignStatement go" where
  "ForeignStatementFromBytes b =
     (let (ini, buf) = bufNext 1 b;
          (logID, buf) = bufNext 32 buf;
          (sig, buf) = bufNext 64 buf;
          (pk, buf) = bufNext 33 buf;
          (idx, buf) = (case readBE64 buf of Inr (w, r) \<Rightarrow> (w, r) | Inl _ \<Rightarrow> (0, []));
          (iLen, buf) = readBE32_into 0 buf;
          (pre, buf) = bufNext (unat iLen) buf;
          (iLen, buf) = readBE32_into iLen buf
      in bind_go
           (if iLen > 0 then
              (case DeserializeNewPartialMPT buf of
                 Inr (p, _) \<Rightarrow> Inr (Some p) | Inl (GoError _) \<Rightarrow> Inr None | Inl (GoPanic e) \<Rightarrow> Inl (GoPanic e))
            else Inr None)
         (\<lambda>p. Inr \<lparr>fs_InitialStatement = (ini = [0x01]), fs_LogID = copy_bytes (zeros 32) logID,
              fs_StatementPreimage = pre, fs_Signature = copy_bytes (zeros 64) sig,
              fs_PubKey = copy_bytes (zeros 33) pk, fs_Index = idx, fs_Proof = p\<rparr>))"

section \<open>Messages (\<open>wire/msg.go\<close>)\<close>

type_synonym MessageType = byte

definition MessageTypeCreateLog :: MessageType where "MessageTypeCreateLog = 0x01"
definition MessageTypeAppendLog :: MessageType where "MessageTypeAppendLog = 0x02"
definition MessageTypeAck :: MessageType where "MessageTypeAck = 0x03"
definition MessageTypeError :: MessageType where "MessageTypeError = 0x04"
definition MessageTypeProofUpdate :: MessageType where "MessageTypeProofUpdate = 0x05"
definition MessageTypeRequestProof :: MessageType where "MessageTypeRequestProof = 0x06"
definition MessageTypeProof :: MessageType where "MessageTypeProof = 0x07"
definition MessageTypeSubscribeProofUpdates :: MessageType where "MessageTypeSubscribeProofUpdates = 0x08"
definition MessageTypeUnsubscribeProofUpdates :: MessageType where "MessageTypeUnsubscribeProofUpdates = 0x09"
definition MessageTypeRequestDeltaProof :: MessageType where "MessageTypeRequestDeltaProof = 0x0A"
definition MessageTypeDeltaProof :: MessageType where "MessageTypeDeltaProof = 0x0B"
definition MessageTypeRequestCommitmentHistory :: MessageType where "MessageTypeRequestCommitmentHistory = 0x0C"
definition MessageTypeCommitmentHistory :: MessageType where "MessageTypeCommitmentHistory = 0x0D"
definition MessageTypeRequestCommitmentDetails :: MessageType where "MessageTypeRequestCommitmentDetails = 0x0E"
definition MessageTypeCommitmentDetails :: MessageType where "MessageTypeCommitmentDetails = 0x0F"

record RequestProofMessage =
  LogIDs :: "bytes list"

definition RequestProofMessage_Bytes :: "RequestProofMessage \<Rightarrow> bytes" where
  "RequestProofMessage_Bytes m = concat (LogIDs m)"

definition NewRequestProofMessage :: "bytes list \<Rightarrow> RequestProofMessage" where
  "NewRequestProofMessage logIDs = \<lparr>LogIDs = logIDs\<rparr>"

function read_logids :: "bytes \<Rightarrow> bytes list" where
  "read_logids buf =
     (if length buf > 0 then let (x, buf) = bufNext 32 buf in copy_bytes (zeros 32) x # read_logids buf
      else [])"
  by pat_completeness auto
termination by (relation "measure length") (auto simp: bufNext_def)

declare read_logids.simps [simp del]

definition NewRequestProofMessageFromBytes :: "bytes \<Rightarrow> RequestProofMessage go" where
  "NewRequestProofMessageFromBytes b = Inr \<lparr>LogIDs = read_logids b\<rparr>"

record RequestCommitmentDetailsMessage =
  rcd_Commitment :: bytes

definition RequestCommitmentDetailsMessage_Bytes :: "RequestCommitmentDetailsMessage \<Rightarrow> bytes" where
  "RequestCommitmentDetailsMessage_Bytes m = rcd_Commitment m"

definition NewRequestCommitmentDetailsMessage :: "bytes \<Rightarrow> RequestCommitmentDetailsMessage" where
  "NewRequestCommitmentDetailsMessage commitment = \<lparr>rcd_Commitment = commitment\<rparr>"

definition NewRequestCommitmentDetailsMessageFromBytes :: "bytes \<Rightarrow> RequestCommitmentDetailsMessage go" where
  "NewRequestCommitmentDetailsMessageFromBytes b = Inr \<lparr>rcd_Commitment = copy_bytes (zeros 32) b\<rparr>"

record RequestCommitmentHistoryMessage =
  rch_SinceCommitment :: bytes

definition RequestCommitmentHistoryMessage_Bytes :: "RequestCommitmentHistoryMessage \<Rightarrow> bytes" where
  "RequestCommitmentHistoryMessage_Bytes m = rch_SinceCommitment m"

definition NewRequestCommitmentHistoryMessage :: "bytes \<Rightarrow> RequestCommitmentHistoryMessage" where
  "NewRequestCommitmentHistoryMessage sinceCommitment = \<lparr>rch_SinceCommitment = sinceCommitment\<rparr>"

definition NewRequestCommitmentHistoryMessageFromBytes :: "bytes \<Rightarrow> RequestCommitmentHistoryMessage go" where
  "NewRequestCommitmentHistoryMessageFromBytes b = Inr \<lparr>rch_SinceCommitment = copy_bytes (zeros 32) b\<rparr>"

record CommitmentDetailsMessage =
  cdm_Commitment :: Commitment_rec

definition CommitmentDetailsMessage_Bytes :: "CommitmentDetailsMessage \<Rightarrow> bytes go" where
  "CommitmentDetailsMessage_Bytes m = Commitment_Bytes (cdm_Commitment m)"

definition NewCommitmentDetailsMessage :: "Commitment_rec \<Rightarrow> CommitmentDetailsMessage" where
  "NewCommitmentDetailsMessage c = \<lparr>cdm_Commitment = c\<rparr>"

definition NewCommitmentDetailsMessageFromBytes :: "bytes \<Rightarrow> CommitmentDetailsMessage go" where
  "NewCommitmentDetailsMessageFromBytes b =
     bind_go (CommitmentFromBytes b) (\<lambda>c. Inr \<lparr>cdm_Commitment = c\<rparr>)"

record CommitmentHistoryMessage =
  Commitments :: "Commitment_rec list"

definition write_commitment :: "Commitment_rec \<Rightarrow> bytes go" where
  "write_commitment c =
     bind_go (Commitment_Bytes c) (\<lambda>b. Inr (putBE32 (word_of_nat (length b)) @ b))"

definition CommitmentHistoryMessage_Bytes :: "CommitmentHistoryMessage \<Rightarrow> bytes go" where
  "CommitmentHistoryMessage_Bytes m =
     bind_go (write_all write_commitment (Commitments m)) (\<lambda>ws.
     Inr (putBE32 (word_of_nat (length (Commitments m))) @ ws))"

definition NewCommitmentHistoryMessage :: "Commitment_rec list \<Rightarrow> CommitmentHistoryMessage" where
  "NewCommitmentHistoryMessage c = \<lparr>Commitments = c\<rparr>"

definition read_commitment :: "bytes \<Rightarrow> (Commitment_rec \<times> bytes) go" where
  "read_commitment buf =
     (let (commitmentLength, buf) = readBE32_into 0 buf
      in bind_go (bufNext_int (sint commitmentLength) buf) (\<lambda>(x, buf).
         bind_go (CommitmentFromBytes x) (\<lambda>c. Inr (c, buf))))"

definition NewCommitmentHistoryMessageFromBytes :: "bytes \<Rightarrow> CommitmentHistoryMessage go" where
  "NewCommitmentHistoryMessageFromBytes b =
     (let (numCommitments, buf) = readBE32_into 0 b
      in if sint numCommitments < 0 then Inl (GoPanic ''makeslice: len out of range'')
         else bind_go (dec_seq read_commitment (nat (sint numCommitments)) buf) (\<lambda>(cs, buf).
              Inr \<lparr>Commitments = cs\<rparr>))"

section \<open>Connections (\<open>wire/conn.go\<close>)\<close>

definition ReadNextMessage :: "bytes \<Rightarrow> ((MessageType \<times> bytes) \<times> bytes) go" where
  "ReadNextMessage conn =
     bind_go (readFull 1 conn) (\<lambda>(bType, conn).
     bind_go (readFull 4 conn) (\<lambda>(bLen, conn).
     let l = word_of_nat (of_be bLen) :: 32 word in
     if l > 0 then bind_go (readFull (unat l) conn) (\<lambda>(bMsg, conn). Inr ((bType ! 0, bMsg), conn))
     else Inr ((bType ! 0, []), conn)))"

definition conn_WriteMessage :: "MessageType \<Rightarrow> bytes \<Rightarrow> bytes" where
  "conn_WriteMessage t m =
     (let bMsg = t # putBE32 (word_of_nat (length m)) @ zeros (length m)
      in if length m > 0 then take 5 bMsg @ copy_bytes (drop 5 bMsg) m else bMsg)"

section \<open>The copies of the primitive encodings agree with those of the Bitcoin protocol\<close>

lemma bv_WriteVar_eq [simp]:
  "bv_WriteVarInt = WriteVarInt" "bv_WriteVarBytes = WriteVarBytes" "bv_VarIntSerializeSize = VarIntSerializeSize"
  by (simp_all add: fun_eq_iff bv_WriteVarInt_def WriteVarInt_def bv_WriteVarBytes_def WriteVarBytes_def
      bv_VarIntSerializeSize_def VarIntSerializeSize_def)

lemma bv_ReadVarInt_iff [read_iffs]: "bv_ReadVarInt b = Inr (v, r) \<longleftrightarrow> b = WriteVarInt v @ r"
proof -
  have "bv_ReadVarInt b = Inr (v, r) \<longleftrightarrow> ReadVarInt b = Inr (v, r)"
    unfolding bv_ReadVarInt_def ReadVarInt_def Let_def by (cases "Uint8 b") (auto simp: go_simps split: if_splits)
  then show ?thesis by (simp only: ReadVarInt_iff)
qed

lemma bv_ReadVarInt_put [simp]: "bv_ReadVarInt (WriteVarInt v @ r) = Inr (v, r)"
  by (simp add: bv_ReadVarInt_iff)

lemma bv_ReadVarBytes_iff [read_iffs]:
  "bv_ReadVarBytes m b = Inr (x, r) \<longleftrightarrow> length x \<le> maxAlloc \<and> b = WriteVarBytes x @ r"
proof -
  have m: "maxAlloc < 2 ^ 64" by (simp add: maxAlloc_def)
  have "bv_ReadVarBytes m b = Inr (x, r) \<longleftrightarrow> (\<exists>v. (length x = unat v \<and> unat v \<le> maxAlloc) \<and> b = WriteVarInt v @ x @ r)"
    by (simp add: bv_ReadVarBytes_def go_simps read_iffs not_less) blast
  also have "\<dots> \<longleftrightarrow> length x \<le> maxAlloc \<and> b = WriteVarBytes x @ r"
    by (simp only: word_of_length_iff [OF m]) (auto simp: WriteVarBytes_def)
  finally show ?thesis .
qed

text \<open>The announced length is not checked against the allowed one: a huge one makes the reader panic.\<close>

lemma bv_ReadVarBytes_panics: "unat v > maxAlloc \<Longrightarrow> is_panic (bv_ReadVarBytes m (WriteVarInt v @ r))"
  by (simp add: bv_ReadVarBytes_def)

section \<open>Statements\<close>

definition cls_ok :: "CreateLogStatement \<Rightarrow> bool" where
  "cls_ok cls \<longleftrightarrow> length (ControllingKey cls) = 33 \<and> length (InitialStatement cls) \<le> maxAlloc"

definition scls_ok :: "SignedCreateLogStatement \<Rightarrow> bool" where
  "scls_ok scls \<longleftrightarrow> length (scls_Signature scls) = 64 \<and> cls_ok (CreateStatement scls)"

definition ls_ok :: "LogStatement \<Rightarrow> bool" where
  "ls_ok ls \<longleftrightarrow> length (LogID ls) = 32 \<and> length (Statement ls) \<le> maxAlloc"

definition sls_ok :: "SignedLogStatement \<Rightarrow> bool" where
  "sls_ok sls \<longleftrightarrow> length (sls_Signature sls) = 64 \<and> ls_ok (sls_Statement sls)"

lemma checked_read:
  assumes "0 < n"
  shows "bind_go (bufRead n b) (\<lambda>(x, r). if length x < n then Inl (GoError e) else f x r) = Inr y \<longleftrightarrow>
    (\<exists>x r. length x = n \<and> b = x @ r \<and> f x r = Inr y)"
proof -
  have "bufRead n b = Inr (x, r) \<and> \<not> length x < n \<longleftrightarrow> length x = n \<and> b = x @ r" for x r
    using assms by (auto simp: bufRead_def not_less split: if_splits)
  then show ?thesis by (simp add: bind_go_eq_Inr guard_eq_Inr) blast
qed

lemma WriteVarInt_nonempty: "WriteVarInt v \<noteq> []"
  by (simp add: WriteVarInt_def PutUint8_def)

lemma NewLogStatementFromBytes_iff:
  "NewLogStatementFromBytes b = Inr ls \<longleftrightarrow> ls_ok ls \<and> (\<exists>t. b = LogStatement_Bytes ls @ t)"
proof
  assume *: "NewLogStatementFromBytes b = Inr ls"
  have ne: "drop 32 b \<noteq> []"
  proof
    assume "drop 32 b = []"
    with * show False
      by (cases b) (auto simp: NewLogStatementFromBytes_def bufRead_def go_simps read_iffs WriteVarInt_nonempty)
  qed
  then have "b \<noteq> []" "32 \<le> length b" by (auto simp: not_le)
  with * obtain t where "LogID ls = take 32 b" "length (Statement ls) \<le> maxAlloc"
      "drop 32 b = WriteVarInt (Index ls) @ WriteVarBytes (Statement ls) @ t"
    by (auto simp: NewLogStatementFromBytes_def bufRead_def go_simps read_iffs copy_bytes_def)
  moreover from this have "b = LogStatement_Bytes ls @ t"
    using append_take_drop_id [of 32 b] by (simp add: LogStatement_Bytes_def)
  ultimately show "ls_ok ls \<and> (\<exists>t. b = LogStatement_Bytes ls @ t)"
    using \<open>32 \<le> length b\<close> by (auto simp: ls_ok_def)
next
  assume "ls_ok ls \<and> (\<exists>t. b = LogStatement_Bytes ls @ t)"
  then obtain t where ok: "ls_ok ls" and b: "b = LogID ls @ WriteVarInt (Index ls) @ WriteVarBytes (Statement ls) @ t"
    by (auto simp: LogStatement_Bytes_def)
  have "bv_ReadVarBytes 256 (WriteVarBytes (Statement ls) @ t) = Inr (Statement ls, t)"
    using ok by (simp add: ls_ok_def read_iffs)
  moreover have "bufRead 32 b = Inr (LogID ls, WriteVarInt (Index ls) @ WriteVarBytes (Statement ls) @ t)"
    using ok unfolding b by (intro bufRead_append) (auto simp: ls_ok_def)
  ultimately show "NewLogStatementFromBytes b = Inr ls"
    using ok by (simp add: NewLogStatementFromBytes_def ls_ok_def)
qed

lemma NewCreateLogStatementFromBytes_iff:
  "NewCreateLogStatementFromBytes b = Inr cls \<longleftrightarrow> cls_ok cls \<and> (\<exists>t. b = CreateLogStatement_Bytes cls @ t)"
  unfolding NewCreateLogStatementFromBytes_def checked_read [OF zero_less_numeral]
  by (cases cls) (auto simp: go_simps read_iffs cls_ok_def CreateLogStatement_Bytes_def)

lemma NewSignedLogStatementFromBytes_iff:
  "NewSignedLogStatementFromBytes b = Inr sls \<longleftrightarrow> sls_ok sls \<and> (\<exists>t. b = SignedLogStatement_Bytes sls @ t)"
  unfolding NewSignedLogStatementFromBytes_def checked_read [OF zero_less_numeral]
  by (cases sls) (auto simp: go_simps NewLogStatementFromBytes_iff sls_ok_def SignedLogStatement_Bytes_def)

lemma NewSignedCreateLogStatementFromBytes_iff:
  "NewSignedCreateLogStatementFromBytes b = Inr scls \<longleftrightarrow>
     scls_ok scls \<and> (\<exists>t. b = SignedCreateLogStatement_Bytes scls @ t)"
  unfolding NewSignedCreateLogStatementFromBytes_def checked_read [OF zero_less_numeral]
  by (cases scls) (auto simp: go_simps NewCreateLogStatementFromBytes_iff scls_ok_def SignedCreateLogStatement_Bytes_def)

section \<open>Frames\<close>

lemma conn_WriteMessage_eq: "conn_WriteMessage t m = t # putBE32 (word_of_nat (length m)) @ m"
proof -
  have "5 = length (t # putBE32 w)" for w by simp
  then have "take 5 ((t # putBE32 w) @ z) = t # putBE32 w" "drop 5 ((t # putBE32 w) @ z) = z" for w z
    by (metis append_eq_conv_conj)+
  then show ?thesis by (simp add: conn_WriteMessage_def Let_def)
qed

lemma ReadNextMessage_Cons:
  "ReadNextMessage (x # b) =
     bind_go (readBE32 b) (\<lambda>(l, conn). bind_go (readFull (unat l) conn) (\<lambda>(m, conn). Inr ((x, m), conn)))"
proof -
  have "readFull 1 (x # b) = Inr ([x], b)" by (simp add: readFull_def)
  then show ?thesis
    by (cases "readFull 4 b") (auto simp: ReadNextMessage_def readBE32_def Let_def readFull_def word_gt_0)
qed

lemma ReadNextMessage_iff:
  "ReadNextMessage b = Inr ((t, m), r) \<longleftrightarrow> length m < 2 ^ 32 \<and> b = conn_WriteMessage t m @ r"
proof -
  have "ReadNextMessage b = Inr ((t, m), r) \<longleftrightarrow>
      (\<exists>b' w. b = t # b' \<and> readBE32 b' = Inr (w, m @ r) \<and> unat w = length m)"
  proof (cases b)
    case (Cons x b')
    then show ?thesis by (auto simp: ReadNextMessage_Cons go_simps readFull_iff)
  qed (simp add: ReadNextMessage_def readFull_def)
  also have "\<dots> \<longleftrightarrow> length m < 2 ^ 32 \<and> b = conn_WriteMessage t m @ r"
  proof -
    have "readBE32 b' = Inr (w, m @ r) \<longleftrightarrow> b' = putBE32 w @ m @ r" for b' w
      using readBE32_Inr [of b' w "m @ r"] by auto
    moreover have "(unat w = length m) = (w = word_of_nat (length m) \<and> length m < 2 ^ 32)" for w :: "32 word"
      using unat_word32 [of w] by (auto simp: unat_of_nat word_unat_eq_iff)
    ultimately show ?thesis by (auto simp: conn_WriteMessage_eq)
  qed
  finally show ?thesis .
qed

interpretation frames: canonical_codec "\<lambda>(t, m). conn_WriteMessage t m" ReadNextMessage "\<lambda>(t, m). length m < 2 ^ 32"
  by unfold_locales (auto simp: ReadNextMessage_iff)

section \<open>Commitments\<close>

definition hash_ok_opt :: "bytes option \<Rightarrow> bool" where
  "hash_ok_opt h \<longleftrightarrow> (case h of None \<Rightarrow> True | Some h \<Rightarrow> length h = 32 \<and> h \<noteq> zeros 32)"

definition proof_ok :: "MerkleProof \<Rightarrow> bool" where
  "proof_ok p \<longleftrightarrow> list_all (\<lambda>h. h \<noteq> None \<and> length (the h) = 32) (mp_Hashes p) \<and> 8 + 32 * length (mp_Hashes p) < 2 ^ 31"

definition cm_ok :: "Commitment_rec \<Rightarrow> bool" where
  "cm_ok c \<longleftrightarrow> length (cm_Commitment c) = 32 \<and> hash_ok_opt (cm_TxHash c) \<and> hash_ok_opt (cm_IncludedInBlock c)
     \<and> - (2 ^ 31) \<le> cm_TriggeredAtBlockHeight c \<and> cm_TriggeredAtBlockHeight c < 2 ^ 31 \<and> proof_ok (cm_MerkleProof c)"

definition cm_size :: "Commitment_rec \<Rightarrow> nat" where
  "cm_size c = 112 + 32 * length (mp_Hashes (cm_MerkleProof c)) + length (cm_RawTx c)"

lemma hash_or_null_ok [simp]:
  "hash_ok_opt h \<Longrightarrow> length (hash_or_null h) = 32" "hash_ok_opt h \<Longrightarrow> hash_unless_null (hash_or_null h) = h"
  by (auto simp: hash_ok_opt_def hash_or_null_def hash_unless_null_def split: option.splits)

lemma readBE32_into_put [simp]: "readBE32_into i (putBE32 w @ r) = (w, r)"
  by (simp add: readBE32_into_def)

lemma sint_int32: "- (2 ^ 31) \<le> t \<Longrightarrow> t < 2 ^ 31 \<Longrightarrow> sint (word_of_int t :: 32 word) = t"
  by (simp add: signed_of_int signed_take_bit_int_eq_self)

lemma sint_len32: "n < 2 ^ 31 \<Longrightarrow> sint (word_of_nat n :: 32 word) = int n"
  by (simp add: signed_of_nat signed_take_bit_int_eq_self)

lemma proof_bytes:
  assumes "proof_ok p"
  obtains b where "MerkleProof_Bytes p = Inr b" "NewMerkleProofFromBytes b = p"
    "length b = 8 + 32 * length (mp_Hashes p)" "length b < 2 ^ 31"
proof -
  define ss where "ss = map the (mp_Hashes p)"
  have h: "mp_Hashes p = map Some ss"
    using assms by (auto simp: proof_ok_def ss_def list_all_iff intro!: map_idI [symmetric])
  then have p: "p = \<lparr>mp_Position = mp_Position p, mp_Hashes = map Some ss\<rparr>" by simp
  have l: "list_all (\<lambda>x. length x = 32) ss" using assms by (auto simp: proof_ok_def ss_def list_all_iff)
  obtain b where b: "MerkleProof_Bytes p = Inr b" "NewMerkleProofFromBytes b = p"
    using MerkleProof_roundtrip [OF l, of "mp_Position p"] p by metis
  have "length (concat ss) = 32 * length ss" using l by (induction ss) auto
  moreover have "b = putBE64 (mp_Position p) @ concat ss"
    using b(1) by (simp add: MerkleProof_Bytes_def h write_hashes_Some)
  ultimately have "length b = 8 + 32 * length (mp_Hashes p)" by (simp add: h)
  with b that show ?thesis using assms by (simp add: proof_ok_def)
qed

lemma Commitment_roundtrip:
  assumes "cm_ok c"
  shows "\<exists>b. Commitment_Bytes c = Inr b \<and> CommitmentFromBytes b = Inr c \<and> length b = cm_size c"
proof -
  from assms have "proof_ok (cm_MerkleProof c)" by (simp add: cm_ok_def)
  then obtain p where p: "MerkleProof_Bytes (cm_MerkleProof c) = Inr p" "NewMerkleProofFromBytes p = cm_MerkleProof c"
      "length p = 8 + 32 * length (mp_Hashes (cm_MerkleProof c))" "length p < 2 ^ 31"
    by (rule proof_bytes)
  then show ?thesis
    using assms sint_len32 [OF p(4)]
    by (simp add: Commitment_Bytes_def CommitmentFromBytes_def cm_ok_def cm_size_def sint_int32)
qed

interpretation commitments: checked_codec write_commitment read_commitment "\<lambda>c. cm_ok c \<and> cm_size c < 2 ^ 31"
proof
  fix c assume ok: "cm_ok c \<and> cm_size c < 2 ^ 31"
  then obtain b where b: "Commitment_Bytes c = Inr b" "CommitmentFromBytes b = Inr c" "length b < 2 ^ 31"
    using Commitment_roundtrip [of c] by auto
  then show "\<exists>w. write_commitment c = Inr w \<and> (\<forall>r. read_commitment (w @ r) = Inr (c, r))"
    using sint_len32 [OF b(3)] by (simp add: write_commitment_def read_commitment_def)
qed

lemma history_roundtrip:
  assumes "list_all (\<lambda>c. cm_ok c \<and> cm_size c < 2 ^ 31) (Commitments m)" and "length (Commitments m) < 2 ^ 31"
  shows "\<exists>b. CommitmentHistoryMessage_Bytes m = Inr b \<and> NewCommitmentHistoryMessageFromBytes b = Inr m"
proof -
  obtain w where w: "write_all write_commitment (Commitments m) = Inr w"
      "dec_seq read_commitment (length (Commitments m)) (w @ []) = Inr (Commitments m, [])"
    using commitments.write_all_dec [OF assms(1)] by blast
  then show ?thesis
    using sint_len32 [OF assms(2)]
    by (simp add: CommitmentHistoryMessage_Bytes_def NewCommitmentHistoryMessageFromBytes_def)
qed

text \<open>A negative count or size in a message of the server makes the client panic.\<close>

lemma negative_sizes_panic:
  assumes "sint w < 0"
  shows "is_panic (NewCommitmentHistoryMessageFromBytes (putBE32 w @ r))"
    and "length a = 100 \<Longrightarrow> is_panic (CommitmentFromBytes (a @ putBE32 w @ r))"
proof -
  show "is_panic (NewCommitmentHistoryMessageFromBytes (putBE32 w @ r))"
    using assms by (simp add: NewCommitmentHistoryMessageFromBytes_def)
  assume "length a = 100"
  then obtain c t h i where a: "a = c @ t @ h @ i" "length c = 32" "length t = 32" "length h = 4" "length i = 32"
  proof -
    have "a = take 32 a @ take 32 (drop 32 a) @ take 4 (drop 64 a) @ drop 68 a"
      using append_take_drop_id [of 32 a] append_take_drop_id [of 32 "drop 32 a"] append_take_drop_id [of 4 "drop 64 a"]
      by simp
    then show ?thesis using \<open>length a = 100\<close> by (intro that) auto
  qed
  have "readBE32 (h @ q) = Inr (word_of_nat (of_be h), q)" for q using a(4) by (simp add: readBE32_def)
  then show "is_panic (CommitmentFromBytes (a @ putBE32 w @ r))"
    using assms a by (simp add: CommitmentFromBytes_def readBE32_into_def bufNext_int_def)
qed

section \<open>Requests and foreign statements\<close>

lemma read_logids_concat: "list_all (\<lambda>x. length x = 32) ids \<Longrightarrow> read_logids (concat ids) = ids"
proof (induction ids)
  case Nil
  show ?case by (simp add: read_logids.simps)
next
  case (Cons x ids)
  then show ?case by (subst read_logids.simps) auto
qed

lemma request_proof_roundtrip:
  "list_all (\<lambda>x. length x = 32) (LogIDs m) \<Longrightarrow> NewRequestProofMessageFromBytes (RequestProofMessage_Bytes m) = Inr m"
  by (simp add: NewRequestProofMessageFromBytes_def RequestProofMessage_Bytes_def read_logids_concat)

lemma request_commitment_roundtrip:
  "length c = 32 \<Longrightarrow> NewRequestCommitmentDetailsMessageFromBytes
      (RequestCommitmentDetailsMessage_Bytes (NewRequestCommitmentDetailsMessage c)) = Inr \<lparr>rcd_Commitment = c\<rparr>"
  "length c = 32 \<Longrightarrow> NewRequestCommitmentHistoryMessageFromBytes
      (RequestCommitmentHistoryMessage_Bytes (NewRequestCommitmentHistoryMessage c)) = Inr \<lparr>rch_SinceCommitment = c\<rparr>"
  by (simp_all add: NewRequestCommitmentDetailsMessageFromBytes_def RequestCommitmentDetailsMessage_Bytes_def
      NewRequestCommitmentDetailsMessage_def NewRequestCommitmentHistoryMessageFromBytes_def
      RequestCommitmentHistoryMessage_Bytes_def NewRequestCommitmentHistoryMessage_def)

definition fs_ok :: "ForeignStatement \<Rightarrow> bool" where
  "fs_ok f \<longleftrightarrow> length (fs_LogID f) = 32 \<and> length (fs_Signature f) = 64 \<and> length (fs_PubKey f) = 33
     \<and> length (fs_StatementPreimage f) < 2 ^ 32"

lemma unat_len32: "n < 2 ^ 32 \<Longrightarrow> unat (word_of_nat n :: 32 word) = n"
  by (simp add: unat_of_nat)

lemma bufNext_1: "bufNext (Suc 0) (x # r) = ([x], r)"
  by (simp add: bufNext_def)

lemma foreign_roundtrip:
  assumes ok: "fs_ok f"
    and pr: "\<And>p. fs_Proof f = Some p \<Longrightarrow> IsInterior (pm_root p) \<and> serial_ok (pm_root p) \<and> PartialMPT_ByteSize p < 2 ^ 32"
  shows "\<exists>f'. ForeignStatementFromBytes (ForeignStatement_Bytes f) = Inr f' \<and> f' \<lparr>fs_Proof := fs_Proof f\<rparr> = f
    \<and> rel_option (\<lambda>p p'. (\<forall>k. PartialMPT_Get p' k = PartialMPT_Get p k)
        \<and> (\<exists>p''. PartialMPT_Commitment p' = Inr (thash (pm_root p), p''))) (fs_Proof f) (fs_Proof f')"
proof (cases "fs_Proof f")
  case None
  then show ?thesis
    using ok unat_len32 [of "length (fs_StatementPreimage f)"] readBE32_into_put [of _ 0 "[]"]
    by (cases "fs_InitialStatement f")
      (simp_all add: ForeignStatementFromBytes_def ForeignStatement_Bytes_def fs_ok_def bufNext_1)
next
  case (Some p)
  note p = pr [OF Some]
  obtain p' where p': "DeserializeNewPartialMPT (PartialMPT_Bytes p @ []) = Inr (p', [])"
      "\<forall>k. PartialMPT_Get p' k = PartialMPT_Get p k" "\<exists>p''. PartialMPT_Commitment p' = Inr (thash (pm_root p), p'')"
    using DeserializeNewPartialMPT_Bytes p by blast
  have "PartialMPT_ByteSize p > 0" using p by (cases "pm_root p") (simp_all add: PartialMPT_ByteSize_def)
  then have "(0 :: 32 word) < word_of_nat (PartialMPT_ByteSize p)"
    using p unat_len32 [of "PartialMPT_ByteSize p"] by (simp add: word_less_nat_alt)
  then show ?thesis
    using ok p' Some unat_len32 [of "length (fs_StatementPreimage f)"]
    by (cases "fs_InitialStatement f")
      (simp_all add: ForeignStatementFromBytes_def ForeignStatement_Bytes_def fs_ok_def bufNext_1)
qed

section \<open>Properties\<close>


text \<open>
  C29. A commitment history written by the server is read back by the client unchanged: commitments
  whose hashes are absent or not all zero, with heights in 32 bits and complete merkle proofs.
\<close>

theorem commitment_history_roundtrip:
  assumes "list_all (\<lambda>c. cm_ok c \<and> cm_size c < 2 ^ 31) (Commitments m)" and "length (Commitments m) < 2 ^ 31"
  shows "\<exists>b. CommitmentHistoryMessage_Bytes m = Inr b \<and> NewCommitmentHistoryMessageFromBytes b = Inr m"
  using assms by (rule history_roundtrip)

theorem commitment_history_roundtrip_witness:
  "\<exists>b. CommitmentHistoryMessage_Bytes \<lparr>Commitments = [NewCommitment (zeros 32) None [1] 7]\<rparr> = Inr b
     \<and> NewCommitmentHistoryMessageFromBytes b = Inr \<lparr>Commitments = [NewCommitment (zeros 32) None [1] 7]\<rparr>"
  by (rule commitment_history_roundtrip)
    (simp_all add: NewCommitment_def cm_ok_def cm_size_def hash_ok_opt_def proof_ok_def)

text \<open>
  A connection keeps messages apart and in order: reading \<open>n\<close> messages from a stream succeeds
  exactly when the stream starts with the frames of \<open>n\<close> messages, and returns these.
\<close>

lemma connection_stream:
  "dec_seq ReadNextMessage n b = Inr (ms, r) \<longleftrightarrow>
     length ms = n \<and> list_all (\<lambda>(t, m). length m < 2 ^ 32) ms
     \<and> b = concat (map (\<lambda>(t, m). conn_WriteMessage t m) ms) @ r"
  by (rule frames.dec_seq_iff)

end
