(* ===== verification/Bv_Server.thy ===== *)
theory Bv_Server
  imports Bv_Wire Delta_MPT
begin

text \<open>
  \<open>server/server.go\<close> and \<open>server/logprocessor.go\<close>. The state of a server is one record; a
  connection's \<open>ServerLogProcessor\<close> is an entry of \<open>procs\<close> under a number, with the bytes
  written to its client. A call returns the \<open>error\<close> (or \<open>None\<close>) together with the new state,
  because the code keeps what it changed before an error; a panic ends the server.

  Parameters stand for the database (buntdb), the wallet and ECDSA: the record \<open>env\<close>. The state file
  holds the \<open>ServerState\<close> itself, since \<open>json.Unmarshal\<close> inverts \<open>json.Marshal\<close> on it.
  Logging is left out.

  One sharing of memory matters. \<open>Commitment\<close> returns the hash buffer of the root node, and a full
  server stores this very slice as the value of its own log (the log with the all-zero ID): the next
  time the root hash is computed it is copied into the buffer, and the stored value changes without a
  mark. The flag \<open>own_shared\<close> says that the value of the own log is that buffer, and
  \<open>refresh_own\<close> is the change.
\<close>

section \<open>State\<close>

record ServerState =
  LastCommitmentTree :: bytes
  LastConfirmedCommitmentTree :: "bytes option"

record ServerLogProcessor =
  lp_logIDMap :: "bytes set"
  lp_logIDs :: "bytes list"
  lp_autoUpdates :: bool
  lp_conn :: bytes

record ('db, 'w) Server =
  logIDToPubKey :: "bytes \<rightharpoonup> bytes"
  logIDIndex :: "bytes \<rightharpoonup> 64 word"
  fullmpt :: FullMPT
  own_shared :: bool
  LastCommitMpt :: "FullMPT option"
  LastConfirmedCommitMpt :: "FullMPT option"
  lastCommitment :: bytes
  lastDelta :: "DeltaMPT option"
  processors :: "nat list"
  procs :: "nat \<Rightarrow> ServerLogProcessor"
  wallet :: 'w
  commitmentDb :: 'db
  commitments :: "Commitment_rec list"
  state_file :: "ServerState option"
  isReady :: bool
  KeepCommitmentTree :: bool
  CommitEveryNBlocks :: int
  LastCommitHeight :: int
  Full :: bool
  CheckSignatures :: bool

record ('db, 'w) env =
  db_Set :: "'db \<Rightarrow> string \<Rightarrow> bytes \<Rightarrow> 'db go"
  db_AscendRange :: "'db \<Rightarrow> string \<Rightarrow> string \<Rightarrow> (string \<times> bytes) list"
  wallet_Commit :: "'w \<Rightarrow> bytes \<Rightarrow> (bytes \<times> bytes \<times> 'w) go"
  wallet_Height :: "'w \<Rightarrow> int"
  ecdsa_Verify :: ecdsa

definition new_processor :: ServerLogProcessor where
  "new_processor = \<lparr>lp_logIDMap = {}, lp_logIDs = [], lp_autoUpdates = False, lp_conn = []\<rparr>"

text \<open>The wallet and the database are opened when a full server runs; they are arguments here.\<close>

definition NewServer :: "'w \<Rightarrow> 'db \<Rightarrow> ('db, 'w) Server" where
  "NewServer w db =
     \<lparr>logIDToPubKey = Map.empty, logIDIndex = Map.empty, fullmpt = NewFullMPT, own_shared = False,
      LastCommitMpt = None, LastConfirmedCommitMpt = None, lastCommitment = zeros 32, lastDelta = None,
      processors = [], procs = (\<lambda>_. new_processor), wallet = w, commitmentDb = db, commitments = [],
      state_file = None, isReady = False, KeepCommitmentTree = True, CommitEveryNBlocks = 1,
      LastCommitHeight = 0, Full = False, CheckSignatures = True\<rparr>"

text \<open>\<open>catch_err\<close> handles a returned error; a panic passes.\<close>

definition catch_err :: "'a go \<Rightarrow> (string \<Rightarrow> 'b go) \<Rightarrow> ('a \<Rightarrow> 'b go) \<Rightarrow> 'b go" where
  "catch_err m h f =
     (case m of Inr x \<Rightarrow> f x | Inl (GoError e) \<Rightarrow> h e | Inl (GoPanic e) \<Rightarrow> Inl (GoPanic e))"

abbreviation null_id :: bytes where
  "null_id \<equiv> zeros 32"

text \<open>\<open>fmt.Sprintf("%d", n)\<close> and \<open>strconv.ParseUint\<close> on its output.\<close>

fun decimal :: "nat \<Rightarrow> string" where
  "decimal n = (if n < 10 then [char_of (48 + n)] else decimal (n div 10) @ [char_of (48 + n mod 10)])"

declare decimal.simps [simp del]

definition parse_decimal :: "string \<Rightarrow> nat" where
  "parse_decimal s = foldl (\<lambda>n c. 10 * n + (of_char c - 48)) 0 s"

definition string_bytes :: "string \<Rightarrow> bytes" where
  "string_bytes s = map of_char s"

definition bytes_string :: "bytes \<Rightarrow> string" where
  "bytes_string b = map (\<lambda>x. char_of (unat x)) b"

section \<open>Logs\<close>

definition RegisterLogID :: "('db, 'w) env \<Rightarrow> ('db, 'w) Server \<Rightarrow> bytes \<Rightarrow> bytes \<Rightarrow> (string option \<times> ('db, 'w) Server) go" where
  "RegisterLogID env srv logID controllingKey =
     (if logIDToPubKey srv logID \<noteq> None then Inr (Some ''Duplicate log ID created'', srv) else
      let srv = srv\<lparr>logIDToPubKey := (logIDToPubKey srv)(logID \<mapsto> controllingKey)\<rparr> in
      if Full srv then
        catch_err (db_Set env (commitmentDb srv) (''key-'' @ hex_EncodeToString logID) controllingKey)
          (\<lambda>e. Inr (Some e, srv)) (\<lambda>db. Inr (None, srv\<lparr>commitmentDb := db\<rparr>))
      else Inr (None, srv))"

definition GetPubKeyForLogID :: "('db, 'w) Server \<Rightarrow> bytes \<Rightarrow> bytes go" where
  "GetPubKeyForLogID srv logID =
     (case logIDToPubKey srv logID of None \<Rightarrow> Inl (GoError ''LogID not found'') | Some pk \<Rightarrow> Inr pk)"

definition GetNextLogIndex :: "('db, 'w) Server \<Rightarrow> bytes \<Rightarrow> 64 word" where
  "GetNextLogIndex srv logID = (case logIDIndex srv logID of None \<Rightarrow> 0 | Some idx \<Rightarrow> idx + 1)"

text \<open>
  \<open>shared\<close> says that the statement is the root's hash buffer. An existing leaf keeps the slice it
  is given unless the contents are equal; a new leaf copies it.
\<close>

definition own_shared_after :: "('db, 'w) Server \<Rightarrow> bytes \<Rightarrow> bytes \<Rightarrow> bool \<Rightarrow> bool" where
  "own_shared_after srv logID statement shared =
     (if logID \<noteq> null_id then own_shared srv
      else case Get (fullmpt srv) logID of
             Inr (Some v) \<Rightarrow> if v = statement then own_shared srv else shared
           | _ \<Rightarrow> False)"

definition RegisterLogStatement ::
  "('db, 'w) env \<Rightarrow> ('db, 'w) Server \<Rightarrow> bytes \<Rightarrow> 64 word \<Rightarrow> bytes \<Rightarrow> bool \<Rightarrow> (string option \<times> ('db, 'w) Server) go" where
  "RegisterLogStatement env srv logID index statement shared =
     (let ok = logIDIndex srv logID \<noteq> None; idx = the (logIDIndex srv logID) in
      if \<not> ok \<and> index \<noteq> 0 then Inr (Some ''Unexpected log index - expected 0'', srv)
      else if ok \<and> index \<noteq> idx + 1 then Inr (Some ''Unexpected log index'', srv)
      else
        let srv = srv\<lparr>logIDIndex := (logIDIndex srv)(logID \<mapsto> index)\<rparr> in
        catch_err
          (if Full srv then db_Set env (commitmentDb srv) (''idx-'' @ hex_EncodeToString logID) (string_bytes (decimal (unat index)))
           else Inr (commitmentDb srv))
          (\<lambda>e. Inr (Some e, srv))
          (\<lambda>db. bind_go (Insert (fullmpt srv) (copy_bytes (zeros 32) logID) statement) (\<lambda>fm.
             Inr (None, srv\<lparr>commitmentDb := db, fullmpt := fm,
               own_shared := own_shared_after srv logID statement shared\<rparr>))))"

section \<open>Processors\<close>

definition NewLogProcessor :: "nat \<Rightarrow> ('db, 'w) Server \<Rightarrow> ('db, 'w) Server" where
  "NewLogProcessor i srv = srv\<lparr>procs := (procs srv)(i := new_processor), processors := processors srv @ [i]\<rparr>"

text \<open>The last occurrence is removed; a processor is registered once.\<close>

definition last_index :: "nat list \<Rightarrow> nat \<Rightarrow> nat option" where
  "last_index ps p = (let is = filter (\<lambda>i. ps ! i = p) [0..<length ps] in if is = [] then None else Some (last is))"

definition unregisterProcessor :: "nat \<Rightarrow> ('db, 'w) Server \<Rightarrow> ('db, 'w) Server" where
  "unregisterProcessor p srv =
     (case last_index (processors srv) p of
        None \<Rightarrow> srv
      | Some removeIdx \<Rightarrow> srv\<lparr>processors := take removeIdx (processors srv) @ drop (removeIdx + 1) (processors srv)\<rparr>)"

definition lp_write :: "nat \<Rightarrow> MessageType \<Rightarrow> bytes \<Rightarrow> ('db, 'w) Server \<Rightarrow> ('db, 'w) Server" where
  "lp_write i t m srv =
     srv\<lparr>procs := (procs srv)(i := (procs srv i)\<lparr>lp_conn := lp_conn (procs srv i) @ conn_WriteMessage t m\<rparr>)\<rparr>"

text \<open>
  \<open>SendProofs\<close> runs once per processor, concurrently on different connections; the model takes them
  in turn. A returned error is dropped by the caller.
\<close>

definition SendProofs :: "nat \<Rightarrow> ('db, 'w) Server \<Rightarrow> ('db, 'w) Server go" where
  "SendProofs i srv =
     (if lp_autoUpdates (procs srv i) \<and> length (lp_logIDs (procs srv i)) > 0 then
        (case lastDelta srv of
           None \<Rightarrow> nil_deref
         | Some delta \<Rightarrow>
             catch_err (GetUpdatesForKeys delta (lp_logIDs (procs srv i))) (\<lambda>e. Inr srv)
               (\<lambda>(clientDelta, delta).
                 Inr (lp_write i MessageTypeProofUpdate (DeltaMPT_Bytes clientDelta) (srv\<lparr>lastDelta := Some delta\<rparr>))))
      else Inr srv)"

primrec send_all :: "nat list \<Rightarrow> ('db, 'w) Server \<Rightarrow> ('db, 'w) Server go" where
  "send_all [] srv = Inr srv"
| "send_all (i # is) srv = bind_go (SendProofs i srv) (send_all is)"

section \<open>Commitments\<close>

fun refresh_own :: "node \<Rightarrow> bytes \<Rightarrow> node" where
  "refresh_own (DictionaryLeafNode key value h ch rc) x =
     (if key = null_id then DictionaryLeafNode key x h ch rc else DictionaryLeafNode key value h ch rc)"
| "refresh_own (InteriorNode h rc ch l r) x = InteriorNode h rc ch (refresh_own l x) (refresh_own r x)"
| "refresh_own n x = n"

definition srv_Commitment :: "('db, 'w) Server \<Rightarrow> (bytes \<times> ('db, 'w) Server) go" where
  "srv_Commitment srv =
     bind_go (Commitment (fullmpt srv)) (\<lambda>(h, fm).
     Inr (h, srv\<lparr>fullmpt := (if own_shared srv then fm\<lparr>fm_root := refresh_own (fm_root fm) h\<rparr> else fm)\<rparr>))"

definition saveCommitment :: "('db, 'w) env \<Rightarrow> Commitment_rec \<Rightarrow> ('db, 'w) Server \<Rightarrow> ('db, 'w) Server go" where
  "saveCommitment env c srv =
     (let is = filter (\<lambda>i. cm_Commitment (commitments srv ! i) = cm_Commitment c) [0..<length (commitments srv)];
          srv = (if cm_TriggeredAtBlockHeight c > LastCommitHeight srv
                 then srv\<lparr>LastCommitHeight := cm_TriggeredAtBlockHeight c\<rparr> else srv);
          srv = (if is \<noteq> [] then srv\<lparr>commitments := (commitments srv)[last is := c]\<rparr>
                 else srv\<lparr>commitments := commitments srv @ [c]\<rparr>)
      in bind_go (Commitment_Bytes c) (\<lambda>b.
         catch_err (db_Set env (commitmentDb srv) (''commitment-'' @ hex_EncodeToString (cm_Commitment c)) b)
           (\<lambda>e. Inr srv) (\<lambda>db. Inr (srv\<lparr>commitmentDb := db\<rparr>))))"

definition getPendingCommitments :: "('db, 'w) Server \<Rightarrow> Commitment_rec list" where
  "getPendingCommitments srv = filter (\<lambda>c. cm_IncludedInBlock c = None) (commitments srv)"

definition commitState :: "('db, 'w) Server \<Rightarrow> ('db, 'w) Server go" where
  "commitState srv =
     (case LastCommitMpt srv of
        None \<Rightarrow> nil_deref
      | Some m \<Rightarrow> Inr (srv\<lparr>state_file := Some
          \<lparr>LastCommitmentTree = FullMPT_Bytes m,
           LastConfirmedCommitmentTree = map_option FullMPT_Bytes (LastConfirmedCommitMpt srv)\<rparr>\<rparr>))"

definition Commit :: "('db, 'w) env \<Rightarrow> ('db, 'w) Server \<Rightarrow> (string option \<times> ('db, 'w) Server) go" where
  "Commit env srv =
     bind_go (srv_Commitment srv) (\<lambda>(commitment, srv).
     if lastCommitment srv = commitment then Inr (None, srv) else
     let srv = srv\<lparr>lastCommitment := copy_bytes (lastCommitment srv) commitment\<rparr> in
     bind_go
       (if KeepCommitmentTree srv then
          bind_go (case LastCommitMpt srv of None \<Rightarrow> Inr () | Some m \<Rightarrow> bind_go (FullMPT_Dispose m) (\<lambda>_. Inr ())) (\<lambda>_.
          bind_go (FullMPT_Copy (fullmpt srv)) (\<lambda>c. Inr (srv\<lparr>LastCommitMpt := Some c\<rparr>)))
        else Inr srv) (\<lambda>srv.
     bind_go (case lastDelta srv of None \<Rightarrow> Inr () | Some d \<Rightarrow> bind_go (DeltaMPT_Dispose d) (\<lambda>_. Inr ())) (\<lambda>_.
     bind_go (NewDeltaMPT (fullmpt srv)) (\<lambda>(d, fm).
     bind_go (send_all (processors srv) (srv\<lparr>lastDelta := Some d, fullmpt := fm\<rparr>)) (\<lambda>srv.
     bind_go (Reset (fullmpt srv)) (\<lambda>fm.
     let srv = srv\<lparr>fullmpt := fm\<rparr> in
     if Full srv then
       catch_err (wallet_Commit env (wallet srv) commitment) (\<lambda>e. Inr (Some e, srv)) (\<lambda>(txID, rawTx, w).
       let c = NewCommitment (copy_bytes (zeros 32) commitment) (Some txID) rawTx (wallet_Height env w) in
       bind_go (saveCommitment env c (srv\<lparr>wallet := w\<rparr>)) (\<lambda>srv.
       bind_go (commitState srv) (\<lambda>srv.
       bind_go (RegisterLogStatement env srv null_id (GetNextLogIndex srv null_id) commitment True) (\<lambda>(_, srv).
       Inr (None, srv)))))
     else Inr (None, srv)))))))"

text \<open>The first commitment of a fresh server, from \<open>Run\<close>; an error of \<open>Commit\<close> is a panic.\<close>

definition maiden_statement :: bytes where
  "maiden_statement = string_bytes ''Maiden commitment for b_verify''"

definition maiden :: "('db, 'w) env \<Rightarrow> ('db, 'w) Server \<Rightarrow> ('db, 'w) Server go" where
  "maiden env srv =
     (if commitments srv \<noteq> [] then Inr (srv\<lparr>isReady := True\<rparr>) else
      bind_go (RegisterLogID env srv null_id (zeros 33)) (\<lambda>(_, srv).
      bind_go (Sum256_go maiden_statement) (\<lambda>logHash.
      bind_go (RegisterLogStatement env srv null_id 0 logHash False) (\<lambda>(_, srv).
      bind_go (Commit env srv) (\<lambda>(err, srv).
      case err of Some e \<Rightarrow> Inl (GoPanic e) | None \<Rightarrow> Inr (srv\<lparr>isReady := True\<rparr>))))))"

section \<open>Blocks\<close>

text \<open>
  The position of the transaction in the tree array; comparing with a nil entry before it is found
  dereferences nil. \<open>None\<close> is the -1 of a hash that is not there.
\<close>

fun find_hash :: "nat \<Rightarrow> bytes option list \<Rightarrow> bytes \<Rightarrow> nat option go" where
  "find_hash i [] x = Inr None"
| "find_hash i (None # hs) x = nil_deref"
| "find_hash i (Some h # hs) x = (if CloneBytes h = x then Inr (Some i) else find_hash (Suc i) hs x)"

text \<open>
  The part of the loop for one commitment, at position \<open>i\<close> of the list. The height loop of
  \<open>NewMerkleProof\<close> ends on every tree; a run that does not end is a panic here.
\<close>

definition include_commitment :: "('db, 'w) env \<Rightarrow> MsgBlock \<Rightarrow> nat \<Rightarrow> ('db, 'w) Server \<Rightarrow> ('db, 'w) Server go" where
  "include_commitment env blk i srv =
     (let c = commitments srv ! i;
          commitmentInBlock = list_ex (\<lambda>tx. IsEqual (Some (TxHash tx)) (cm_TxHash c)) (mb_Transactions blk)
      in if \<not> commitmentInBlock then Inr srv else
         let blockHash = BlockHash (mb_Header blk); merkleRoot = bh_MerkleRoot (mb_Header blk);
             txHash = the (cm_TxHash c)
         in bind_go (BuildMerkleTreeStore (mb_Transactions blk) False) (\<lambda>hashes.
            bind_go (find_hash 0 hashes txHash) (\<lambda>hashIdx.
            bind_go (case NewMerkleProof hashes (case hashIdx of Some j \<Rightarrow> word_of_nat j | None \<Rightarrow> - 1) of
                       Some p \<Rightarrow> p | None \<Rightarrow> Inl (GoPanic ''endless loop'')) (\<lambda>prf.
            bind_go (MerkleProof_Check prf txHash merkleRoot) (\<lambda>ok.
            if \<not> ok then Inl (GoPanic ''Merkle root doesn't match'') else
            let c = c\<lparr>cm_MerkleProof := prf, cm_IncludedInBlock := Some blockHash\<rparr>;
                srv = srv\<lparr>commitments := (commitments srv)[i := c]\<rparr>
            in bind_go
                 (if lastCommitment srv = cm_Commitment c then
                    (case LastCommitMpt srv of
                       None \<Rightarrow> nil_deref
                     | Some m \<Rightarrow> bind_go (FullMPT_Copy m) (\<lambda>m. commitState (srv\<lparr>LastConfirmedCommitMpt := Some m\<rparr>)))
                  else Inr srv) (\<lambda>srv.
               saveCommitment env c srv))))))"

primrec include_all :: "('db, 'w) env \<Rightarrow> MsgBlock \<Rightarrow> nat list \<Rightarrow> ('db, 'w) Server \<Rightarrow> ('db, 'w) Server go" where
  "include_all env blk [] srv = Inr srv"
| "include_all env blk (i # is) srv = bind_go (include_commitment env blk i srv) (include_all env blk is)"

definition processMerkleProofs :: "('db, 'w) env \<Rightarrow> MsgBlock \<Rightarrow> ('db, 'w) Server \<Rightarrow> ('db, 'w) Server go" where
  "processMerkleProofs env blk srv = include_all env blk [0..<length (commitments srv)] srv"

text \<open>One round of the loop of \<open>blockWatcher\<close>; an error of \<open>Commit\<close> is only logged.\<close>

definition blockWatcher_round :: "('db, 'w) env \<Rightarrow> MsgBlock \<Rightarrow> ('db, 'w) Server \<Rightarrow> ('db, 'w) Server go" where
  "blockWatcher_round env blk srv =
     bind_go (processMerkleProofs env blk srv) (\<lambda>srv.
     if wallet_Height env (wallet srv) - LastCommitHeight srv \<ge> CommitEveryNBlocks srv
        \<and> getPendingCommitments srv = [] \<and> isReady srv
     then bind_go (Commit env srv) (\<lambda>(_, srv). Inr srv)
     else Inr srv)"

section \<open>Restart\<close>

text \<open>A missing state file leaves the server as it is; the code returns the error to a caller that drops it.\<close>

definition loadState :: "('db, 'w) Server \<Rightarrow> (string option \<times> ('db, 'w) Server) go" where
  "loadState srv =
     (case state_file srv of
        None \<Rightarrow> Inr (Some ''no such file'', srv)
      | Some st \<Rightarrow>
          catch_err (DeserializeNewFullMPT (LastCommitmentTree st))
            (\<lambda>e. Inr (Some e, srv\<lparr>LastCommitMpt := None\<rparr>)) (\<lambda>(m, _).
          let srv = srv\<lparr>LastCommitMpt := Some m\<rparr> in
          catch_err (case LastConfirmedCommitmentTree st of
                       None \<Rightarrow> Inr (LastConfirmedCommitMpt srv)
                     | Some b \<Rightarrow> bind_go (DeserializeNewFullMPT b) (\<lambda>(m, _). Inr (Some m)))
            (\<lambda>e. Inr (Some e, srv\<lparr>LastConfirmedCommitMpt := None\<rparr>)) (\<lambda>cm.
          let srv = srv\<lparr>LastConfirmedCommitMpt := cm\<rparr> in
          bind_go (FullMPT_Copy m) (\<lambda>fm.
          bind_go (Commitment m) (\<lambda>(h, m).
          Inr (None, srv\<lparr>fullmpt := fm, own_shared := False, LastCommitMpt := Some m,
            lastCommitment := copy_bytes (lastCommitment srv) h\<rparr>))))))"

text \<open>The keys in the database are the hexadecimal log IDs that \<open>RegisterLogID\<close> wrote.\<close>

definition decode_id :: "string \<Rightarrow> bytes" where
  "decode_id s = copy_bytes (zeros 32) (case hex_Decode s of Inr b \<Rightarrow> b | Inl _ \<Rightarrow> [])"

definition loadLogs :: "('db, 'w) env \<Rightarrow> ('db, 'w) Server \<Rightarrow> ('db, 'w) Server" where
  "loadLogs env srv =
     srv\<lparr>logIDToPubKey := fold (\<lambda>(key, val) m. m(decode_id (drop 4 key) \<mapsto> copy_bytes (zeros 33) val))
           (db_AscendRange env (commitmentDb srv) ''key-'' ''key.'') (logIDToPubKey srv),
         logIDIndex := fold (\<lambda>(key, val) m. m(decode_id (drop 4 key) \<mapsto> word_of_nat (parse_decimal (bytes_string val))))
           (db_AscendRange env (commitmentDb srv) ''idx-'' ''idx.'') (logIDIndex srv)\<rparr>"

text \<open>
  The commitments are read in the order of the keys and put in order again: first the maiden
  commitment, then each one that spends the second output of its predecessor. The loop of the code
  runs until the lists are equally long; the list built is never longer.
\<close>

fun find_successor :: "Commitment_rec list \<Rightarrow> bytes option \<Rightarrow> Commitment_rec option go" where
  "find_successor [] h = Inr None"
| "find_successor (c # cs) h =
     (case tx_Deserialize (cm_RawTx c) of
        Inl (GoError e) \<Rightarrow> Inl (GoPanic (''Commitment has unparseable rawTX: '' @ e))
      | Inl (GoPanic e) \<Rightarrow> Inl (GoPanic e)
      | Inr (tx, _) \<Rightarrow>
          if tx_TxIn tx = [] then index_out_of_range
          else let op = ti_PreviousOutPoint (hd (tx_TxIn tx))
               in if op_Index op = 1 \<and> IsEqual (Some (op_Hash op)) h then Inr (Some c) else find_successor cs h)"

function order_commitments :: "Commitment_rec list \<Rightarrow> Commitment_rec list \<Rightarrow> Commitment_rec list go" where
  "order_commitments all acc =
     (if length acc < length all then
        bind_go (if acc = [] then Inr (find (\<lambda>c. cm_Commitment c = MaidenHash) all)
                 else find_successor all (cm_TxHash (last acc))) (\<lambda>next.
        case next of
          None \<Rightarrow> Inl (GoPanic ''Could not reconstruct commitment chain from disk'')
        | Some c \<Rightarrow> order_commitments all (acc @ [c]))
      else Inr acc)"
  by pat_completeness auto
termination by (relation "measure (\<lambda>(all, acc). length all - length acc)") auto

declare order_commitments.simps [simp del]

primrec parse_commitments :: "(string \<times> bytes) list \<Rightarrow> Commitment_rec list go" where
  "parse_commitments [] = Inr []"
| "parse_commitments (kv # kvs) =
     bind_go (CommitmentFromBytes (snd kv)) (\<lambda>c. bind_go (parse_commitments kvs) (\<lambda>cs. Inr (c # cs)))"

definition loadCommitments :: "('db, 'w) env \<Rightarrow> ('db, 'w) Server \<Rightarrow> ('db, 'w) Server go" where
  "loadCommitments env srv =
     bind_go (parse_commitments (db_AscendRange env (commitmentDb srv) ''commitment-'' ''commitmenu-'')) (\<lambda>all.
     bind_go (order_commitments all []) (\<lambda>cs.
     Inr (srv\<lparr>commitments := cs,
       LastCommitHeight := (if cs \<noteq> [] then cm_TriggeredAtBlockHeight (last cs) else LastCommitHeight srv)\<rparr>)))"

section \<open>Queries\<close>

definition GetProofForKeys :: "('db, 'w) Server \<Rightarrow> bytes list \<Rightarrow> (PartialMPT \<times> ('db, 'w) Server) go" where
  "GetProofForKeys srv keys =
     (if Full srv then
        (case LastConfirmedCommitMpt srv of
           None \<Rightarrow> Inl (GoError ''There has not yet been a confirmed commitment, please try again later'')
         | Some m \<Rightarrow> bind_go (NewPartialMPTIncludingKeys m keys) (\<lambda>(p, m).
                      Inr (p, srv\<lparr>LastConfirmedCommitMpt := Some m\<rparr>)))
      else
        (case LastCommitMpt srv of
           None \<Rightarrow> Inl (GoError ''There has not yet been a confirmed commitment, please try again later'')
         | Some m \<Rightarrow> bind_go (NewPartialMPTIncludingKeys m keys) (\<lambda>(p, m).
                      Inr (p, srv\<lparr>LastCommitMpt := Some m\<rparr>))))"

definition GetDeltaProofForKeys :: "('db, 'w) Server \<Rightarrow> bytes list \<Rightarrow> (DeltaMPT \<times> ('db, 'w) Server) go" where
  "GetDeltaProofForKeys srv keys =
     (case lastDelta srv of
        None \<Rightarrow> nil_deref
      | Some d \<Rightarrow> bind_go (GetUpdatesForKeys d keys) (\<lambda>(u, d). Inr (u, srv\<lparr>lastDelta := Some d\<rparr>)))"

definition GetCommitmentDetails :: "('db, 'w) Server \<Rightarrow> bytes \<Rightarrow> Commitment_rec go" where
  "GetCommitmentDetails srv commitment =
     (if zeros 32 = commitment then
        if commitments srv = [] then index_out_of_range else Inr (last (commitments srv))
      else case find (\<lambda>c. cm_Commitment c = commitment) (commitments srv) of
             Some c \<Rightarrow> bind_go (Commitment_Bytes c) CommitmentFromBytes
           | None \<Rightarrow> Inl (GoError ''Commitment not found''))"

primrec clone_mined :: "Commitment_rec list \<Rightarrow> Commitment_rec list go" where
  "clone_mined [] = Inr []"
| "clone_mined (c # cs) =
     bind_go (Commitment_Bytes c) (\<lambda>b. bind_go (CommitmentFromBytes b) (\<lambda>comm.
     bind_go (clone_mined cs) (\<lambda>r. Inr (if cm_IncludedInBlock comm \<noteq> None then comm # r else r))))"

definition GetCommitmentHistory :: "('db, 'w) Server \<Rightarrow> bytes \<Rightarrow> Commitment_rec list go" where
  "GetCommitmentHistory srv sinceCommitment =
     (let start = (if zeros 32 \<noteq> sinceCommitment then
             (case filter (\<lambda>i. cm_Commitment (commitments srv ! i) = sinceCommitment) [0..<length (commitments srv)] of
                [] \<Rightarrow> 0 | i # _ \<Rightarrow> i + 1) else 0)
      in clone_mined (drop start (commitments srv)))"

section \<open>Messages of a client (\<open>server/logprocessor.go\<close>)\<close>

definition SubscribeToLog :: "nat \<Rightarrow> bytes \<Rightarrow> ('db, 'w) Server \<Rightarrow> ('db, 'w) Server" where
  "SubscribeToLog i logID srv =
     (let lp = procs srv i in
      if logID \<in> lp_logIDMap lp then srv
      else srv\<lparr>procs := (procs srv)(i := lp\<lparr>lp_logIDMap := insert logID (lp_logIDMap lp), lp_logIDs := lp_logIDs lp @ [logID]\<rparr>)\<rparr>)"

definition ProcessCreateLog :: "('db, 'w) env \<Rightarrow> nat \<Rightarrow> SignedCreateLogStatement \<Rightarrow> ('db, 'w) Server \<Rightarrow> (string option \<times> ('db, 'w) Server) go" where
  "ProcessCreateLog env i scls srv =
     catch_err (if CheckSignatures srv then scls_VerifySignature (ecdsa_Verify env) scls else Inr ())
       (\<lambda>e. Inr (Some e, srv)) (\<lambda>_.
     bind_go (Sum256_go (CreateLogStatement_Bytes (CreateStatement scls))) (\<lambda>hash.
     bind_go (RegisterLogID env srv hash (ControllingKey (CreateStatement scls))) (\<lambda>(err, srv).
     if err \<noteq> None then Inr (err, srv) else
     bind_go (Sum256_go (SignedCreateLogStatement_Bytes scls)) (\<lambda>witness.
     bind_go (RegisterLogStatement env srv hash 0 witness False) (\<lambda>(_, srv).
     Inr (None, lp_write i MessageTypeAck [] (SubscribeToLog i hash srv)))))))"

definition VerifyAppendLog :: "('db, 'w) env \<Rightarrow> SignedLogStatement \<Rightarrow> ('db, 'w) Server \<Rightarrow> unit go" where
  "VerifyAppendLog env sls srv =
     bind_go (GetPubKeyForLogID srv (LogID (sls_Statement sls))) (\<lambda>pk. sls_VerifySignature (ecdsa_Verify env) sls pk)"

definition CommitAppendLog :: "('db, 'w) env \<Rightarrow> SignedLogStatement \<Rightarrow> ('db, 'w) Server \<Rightarrow> (string option \<times> ('db, 'w) Server) go" where
  "CommitAppendLog env sls srv =
     bind_go (Sum256_go (SignedLogStatement_Bytes sls)) (\<lambda>witness.
     RegisterLogStatement env srv (LogID (sls_Statement sls)) (Index (sls_Statement sls)) witness False)"

definition AckAppendLog :: "nat \<Rightarrow> SignedLogStatement \<Rightarrow> ('db, 'w) Server \<Rightarrow> ('db, 'w) Server" where
  "AckAppendLog i sls srv = lp_write i MessageTypeAck [] (SubscribeToLog i (LogID (sls_Statement sls)) srv)"

definition ProcessAppendLog :: "('db, 'w) env \<Rightarrow> nat \<Rightarrow> SignedLogStatement \<Rightarrow> ('db, 'w) Server \<Rightarrow> (string option \<times> ('db, 'w) Server) go" where
  "ProcessAppendLog env i sls srv =
     catch_err (if CheckSignatures srv then VerifyAppendLog env sls srv else Inr ())
       (\<lambda>e. Inr (Some e, srv)) (\<lambda>_.
     bind_go (CommitAppendLog env sls srv) (\<lambda>(err, srv).
     if err \<noteq> None then Inr (err, srv) else Inr (None, AckAppendLog i sls srv)))"

definition ProcessRequestProof :: "nat \<Rightarrow> RequestProofMessage \<Rightarrow> ('db, 'w) Server \<Rightarrow> (string option \<times> ('db, 'w) Server) go" where
  "ProcessRequestProof i msg srv =
     (let keys = (if LogIDs msg = [] then map (copy_bytes (zeros 32)) (lp_logIDs (procs srv i))
                  else map (copy_bytes (zeros 32)) (LogIDs msg))
      in catch_err (GetProofForKeys srv keys) (\<lambda>e. Inr (Some e, srv))
           (\<lambda>(prf, srv). Inr (None, lp_write i MessageTypeProof (PartialMPT_Bytes prf) srv)))"

definition ProcessRequestDeltaProof :: "nat \<Rightarrow> RequestProofMessage \<Rightarrow> ('db, 'w) Server \<Rightarrow> (string option \<times> ('db, 'w) Server) go" where
  "ProcessRequestDeltaProof i msg srv =
     (let keys = (if LogIDs msg = [] then lp_logIDs (procs srv i) else map (copy_bytes (zeros 32)) (LogIDs msg))
      in catch_err (GetDeltaProofForKeys srv keys) (\<lambda>e. Inr (Some e, srv))
           (\<lambda>(prf, srv). Inr (None, lp_write i MessageTypeDeltaProof (DeltaMPT_Bytes prf) srv)))"

definition ProcessRequestCommitmentDetails :: "nat \<Rightarrow> RequestCommitmentDetailsMessage \<Rightarrow> ('db, 'w) Server \<Rightarrow> (string option \<times> ('db, 'w) Server) go" where
  "ProcessRequestCommitmentDetails i pm srv =
     catch_err (GetCommitmentDetails srv (rcd_Commitment pm)) (\<lambda>e. Inr (Some e, srv)) (\<lambda>c.
     bind_go (CommitmentDetailsMessage_Bytes (NewCommitmentDetailsMessage c)) (\<lambda>b.
     Inr (None, lp_write i MessageTypeCommitmentDetails b srv)))"

definition ProcessRequestCommitmentHistory :: "nat \<Rightarrow> RequestCommitmentHistoryMessage \<Rightarrow> ('db, 'w) Server \<Rightarrow> (string option \<times> ('db, 'w) Server) go" where
  "ProcessRequestCommitmentHistory i pm srv =
     bind_go (GetCommitmentHistory srv (rch_SinceCommitment pm)) (\<lambda>c.
     bind_go (CommitmentHistoryMessage_Bytes (NewCommitmentHistoryMessage c)) (\<lambda>b.
     Inr (None, lp_write i MessageTypeCommitmentHistory b srv)))"

definition set_autoUpdates :: "nat \<Rightarrow> bool \<Rightarrow> ('db, 'w) Server \<Rightarrow> ('db, 'w) Server" where
  "set_autoUpdates i b srv = srv\<lparr>procs := (procs srv)(i := (procs srv i)\<lparr>lp_autoUpdates := b\<rparr>)\<rparr>"

definition ProcessMessage :: "('db, 'w) env \<Rightarrow> nat \<Rightarrow> MessageType \<Rightarrow> bytes \<Rightarrow> ('db, 'w) Server \<Rightarrow> (string option \<times> ('db, 'w) Server) go" where
  "ProcessMessage env i t m srv =
     (if t = MessageTypeCreateLog then
        catch_err (NewSignedCreateLogStatementFromBytes m) (\<lambda>e. Inr (Some e, srv)) (\<lambda>pm. ProcessCreateLog env i pm srv)
      else if t = MessageTypeAppendLog then
        catch_err (NewSignedLogStatementFromBytes m) (\<lambda>e. Inr (Some e, srv)) (\<lambda>pm. ProcessAppendLog env i pm srv)
      else if t = MessageTypeRequestProof then
        catch_err (NewRequestProofMessageFromBytes m) (\<lambda>e. Inr (Some e, srv)) (\<lambda>pm. ProcessRequestProof i pm srv)
      else if t = MessageTypeRequestDeltaProof then
        catch_err (NewRequestProofMessageFromBytes m) (\<lambda>e. Inr (Some e, srv)) (\<lambda>pm. ProcessRequestDeltaProof i pm srv)
      else if t = MessageTypeRequestCommitmentDetails then
        catch_err (NewRequestCommitmentDetailsMessageFromBytes m) (\<lambda>e. Inr (Some e, srv))
          (\<lambda>pm. ProcessRequestCommitmentDetails i pm srv)
      else if t = MessageTypeRequestCommitmentHistory then
        catch_err (NewRequestCommitmentHistoryMessageFromBytes m) (\<lambda>e. Inr (Some e, srv))
          (\<lambda>pm. ProcessRequestCommitmentHistory i pm srv)
      else if t = MessageTypeSubscribeProofUpdates then
        Inr (None, lp_write i MessageTypeAck [] (set_autoUpdates i True srv))
      else if t = MessageTypeUnsubscribeProofUpdates then
        Inr (None, lp_write i MessageTypeAck [] (set_autoUpdates i False srv))
      else Inr (Some ''Unrecognized message type received'', srv))"

text \<open>
  The loop of a connection over the bytes its client sends, when no other connection interferes: it
  ends when the stream does or at the first error.
\<close>

function Process :: "('db, 'w) env \<Rightarrow> nat \<Rightarrow> bytes \<Rightarrow> ('db, 'w) Server \<Rightarrow> ('db, 'w) Server go" where
  "Process env i conn srv =
     (case ReadNextMessage conn of
        Inl _ \<Rightarrow> Inr (unregisterProcessor i srv)
      | Inr ((t, m), conn') \<Rightarrow>
          bind_go (ProcessMessage env i t m srv) (\<lambda>(e, srv).
          case e of
            None \<Rightarrow> Process env i conn' srv
          | Some err \<Rightarrow> Inr (unregisterProcessor i (lp_write i MessageTypeError (string_bytes err) srv))))"
  by pat_completeness auto
termination
  by (relation "measure (\<lambda>(_, _, conn, _). length conn)") (auto simp: ReadNextMessage_iff conn_WriteMessage_eq)

declare Process.simps [simp del]

section \<open>Basic facts\<close>

lemma catch_err_simps [simp]:
  "catch_err (Inr x) h f = f x" "catch_err (Inl (GoError e)) h f = h e" "catch_err (Inl (GoPanic e)) h f = Inl (GoPanic e)"
  by (simp_all add: catch_err_def)

lemma catch_err_Inr [go_simps]:
  "catch_err m h f = Inr y \<longleftrightarrow> (\<exists>x. m = Inr x \<and> f x = Inr y) \<or> (\<exists>e. m = Inl (GoError e) \<and> h e = Inr y)"
  by (auto simp: catch_err_def split: sum.splits go_exn.splits)

lemma Dispose_ok: "complete n \<Longrightarrow> \<exists>m. Dispose n = Inr m"
  by (induction n) auto

text \<open>A delta of the server: the changes of some trie below a root whose hash may not be computed yet.\<close>

definition delta_inv :: "DeltaMPT \<Rightarrow> bool" where
  "delta_inv d \<longleftrightarrow> (\<exists>h rc ch l r. dm_root d = InteriorNode h rc ch (changes_of l) (changes_of r)
     \<and> hash_ok (dm_root d) \<and> wf_trie 32 [False] l \<and> wf_trie 32 [True] r)"

lemma Dispose_changes_of: "\<exists>m. Dispose (changes_of n) = Inr m"
  by (induction n) auto

lemma cached_changes_of [simp]: "cached (changes_of n) = changes_of n"
  by (cases n) simp_all

lemma DeltaMPT_Dispose_ok: "delta_inv d \<Longrightarrow> \<exists>d'. DeltaMPT_Dispose d = Inr d'"
proof -
  assume "delta_inv d"
  then obtain h rc ch l r where n: "dm_root d = InteriorNode h rc ch (changes_of l) (changes_of r)"
    by (auto simp: delta_inv_def)
  obtain a b where "Dispose (changes_of l) = Inr a" "Dispose (changes_of r) = Inr b"
    using Dispose_changes_of by blast
  then show ?thesis by (simp add: DeltaMPT_Dispose_def n)
qed

lemma NewDeltaMPT_inv:
  assumes "trie_inv 32 fm"
  shows "\<exists>d fm'. NewDeltaMPT fm = Inr (d, fm') \<and> delta_inv d \<and> trie_inv 32 fm' \<and> skel (fm_root fm') = skel (fm_root fm)"
proof -
  obtain h rc ch l r where n: "fm_root fm = InteriorNode h rc ch l r"
    using assms by (cases "fm_root fm") (auto simp: trie_inv_def)
  have "wf_trie 32 [False] l" "wf_trie 32 [True] r" using assms by (simp_all add: trie_inv_def n)
  then have "delta_inv \<lparr>dm_root = NewInteriorNode (changes_of l) (changes_of r)\<rparr>"
    unfolding delta_inv_def NewInteriorNode_def by auto
  then show ?thesis using NewDeltaMPT_ok [OF assms] by (auto simp: n)
qed

lemma GetUpdatesForKeys_ok:
  assumes d: "delta_inv d" and ks: "ks \<noteq> []" "\<forall>k \<in> set ks. length k = 32"
  shows "\<exists>u d'. GetUpdatesForKeys d ks = Inr (u, d') \<and> delta_inv d'"
proof -
  obtain h rc ch l r where n: "dm_root d = InteriorNode h rc ch (changes_of l) (changes_of r)"
    and ok: "hash_ok (dm_root d)" and wf: "wf_trie 32 [False] l" "wf_trie 32 [True] r"
    using d by (auto simp: delta_inv_def)
  have op: "\<forall>k \<in> set ks. on_path 32 [] k" using ks(2) by (simp add: on_path_def)
  have div: "divide_keys ks (-1) = Inr (filter (\<lambda>k. \<not> key_bits k ! 0) ks, filter (\<lambda>k. key_bits k ! 0) ks)"
    using divide_keys_ok [where path = "[]" and L = 32 and keys = ks] op by simp
  have "\<forall>k \<in> set (filter (\<lambda>k. \<not> key_bits k ! 0) ks). on_path 32 [False] k"
      "\<forall>k \<in> set (filter (\<lambda>k. key_bits k ! 0) ks). on_path 32 [True] k"
    using op on_path_step [where path = "[]" and L = 32] by auto
  note c = getUpdatesHelper_ok [OF wf(1) this(1)] getUpdatesHelper_ok [OF wf(2) this(2)]
  let ?n = "InteriorNode h rc ch (changes_of l) (changes_of r)"
  have g: "GetHash ?n = Inr (thash ?n, cached ?n)" using GetHash_ok [of ?n] ok by (simp add: n del: GetHash.simps)
  have "delta_inv (d\<lparr>dm_root := cached ?n\<rparr>)"
    using wf by (cases rc) (auto simp: delta_inv_def)
  with c show ?thesis
    using ks(1) div g
    by (subst GetUpdatesForKeys_def, subst getUpdatesHelper.simps)
      (simp add: n NewInteriorNodeWithCachedHash_def del: GetHash.simps cached.simps)
qed

end
