(* ===== verification/Bv_Server_Correct.thy ===== *)
theory Bv_Server_Correct
  imports Bv_Server
begin

text \<open>
  What a server keeps and what it promises. The abstract log service keeps a list of witnesses per log
  and the keys of the logs; only signed statements with the next index extend a list. A server that
  does not run on the chain refines it: every reachable state stands for a reachable state of the
  service.
\<close>

section \<open>The invariant\<close>

definition srv_inv :: "('db, 'w) Server \<Rightarrow> bool" where
  "srv_inv srv \<longleftrightarrow> trie_inv 32 (fullmpt srv) \<and> \<not> Full srv \<and> \<not> own_shared srv \<and> KeepCommitmentTree srv
     \<and> commitments srv = [] \<and> length (lastCommitment srv) = 32
     \<and> (\<forall>i. \<forall>k \<in> set (lp_logIDs (procs srv i)). length k = 32)
     \<and> (\<forall>m. LastCommitMpt srv = Some m \<longrightarrow> trie_inv 32 m \<and> thash (fm_root m) = lastCommitment srv)
     \<and> (\<forall>d. lastDelta srv = Some d \<longrightarrow> delta_inv d)"

text \<open>What the connections do not touch.\<close>

definition same_core :: "('db, 'w) Server \<Rightarrow> ('db, 'w) Server \<Rightarrow> bool" where
  "same_core s t \<longleftrightarrow> logIDToPubKey s = logIDToPubKey t \<and> logIDIndex s = logIDIndex t
     \<and> trie_map (fullmpt s) = trie_map (fullmpt t) \<and> map_option trie_map (LastCommitMpt s) = map_option trie_map (LastCommitMpt t)
     \<and> CheckSignatures s = CheckSignatures t \<and> lastCommitment s = lastCommitment t"

lemma same_core_refl [simp]: "same_core s s"
  by (simp add: same_core_def)

lemma same_core_trans: "same_core s t \<Longrightarrow> same_core t u \<Longrightarrow> same_core s u"
  by (simp add: same_core_def)

lemma lp_write_inv [simp]:
  "srv_inv (lp_write i t m srv) = srv_inv srv" "same_core (lp_write i t m srv) srv" "same_core srv (lp_write i t m srv)"
  by (auto simp: srv_inv_def lp_write_def same_core_def)

lemma set_autoUpdates_inv [simp]:
  "srv_inv (set_autoUpdates i b srv) = srv_inv srv" "same_core (set_autoUpdates i b srv) srv"
  by (auto simp: srv_inv_def set_autoUpdates_def same_core_def)

lemma SubscribeToLog_inv [simp]:
  "srv_inv srv \<Longrightarrow> length k = 32 \<Longrightarrow> srv_inv (SubscribeToLog i k srv)" "same_core (SubscribeToLog i k srv) srv"
  by (auto simp: srv_inv_def SubscribeToLog_def same_core_def Let_def)

lemma processors_inv [simp]:
  "srv_inv srv \<Longrightarrow> srv_inv (NewLogProcessor i srv)" "same_core (NewLogProcessor i srv) srv"
  "srv_inv srv \<Longrightarrow> srv_inv (unregisterProcessor i srv)" "same_core (unregisterProcessor i srv) srv"
  by (auto simp: srv_inv_def NewLogProcessor_def unregisterProcessor_def new_processor_def same_core_def split: option.splits)

section \<open>Registrations\<close>

lemma RegisterLogID_eq:
  assumes "srv_inv srv"
  shows "RegisterLogID env srv k key =
    (if logIDToPubKey srv k = None then Inr (None, srv\<lparr>logIDToPubKey := (logIDToPubKey srv)(k \<mapsto> key)\<rparr>)
     else Inr (Some ''Duplicate log ID created'', srv))"
  using assms by (simp add: RegisterLogID_def srv_inv_def)

definition next_index_ok :: "('db, 'w) Server \<Rightarrow> bytes \<Rightarrow> 64 word \<Rightarrow> bool" where
  "next_index_ok srv k idx \<longleftrightarrow> idx = GetNextLogIndex srv k"

lemma RegisterLogStatement_refused:
  assumes "\<not> next_index_ok srv k idx"
  shows "\<exists>e. RegisterLogStatement env srv k idx v sh = Inr (Some e, srv)"
  using assms by (auto simp: RegisterLogStatement_def next_index_ok_def GetNextLogIndex_def Let_def split: option.splits)

lemma RegisterLogStatement_ok:
  assumes inv: "srv_inv srv" and k: "length k = 32" and idx: "next_index_ok srv k idx"
  shows "\<exists>fm. RegisterLogStatement env srv k idx v False =
      Inr (None, srv\<lparr>logIDIndex := (logIDIndex srv)(k \<mapsto> idx), fullmpt := fm\<rparr>)
    \<and> trie_inv 32 fm \<and> trie_map fm = (trie_map (fullmpt srv))(k \<mapsto> v)"
proof -
  obtain fm where fm: "Insert (fullmpt srv) k v = Inr fm" "trie_inv 32 fm" "trie_map fm = (trie_map (fullmpt srv))(k \<mapsto> v)"
    using Insert_ok [of 32 "fullmpt srv" k v] inv k by (auto simp: srv_inv_def)
  have f: "\<not> Full srv" "\<not> own_shared srv" using inv by (simp_all add: srv_inv_def)
  have o: "\<not> own_shared_after (srv\<lparr>logIDIndex := m\<rparr>) k v False" for m
    using f by (auto simp: own_shared_after_def split: sum.splits option.splits)
  have "RegisterLogStatement env srv k idx v False =
      Inr (None, srv\<lparr>logIDIndex := (logIDIndex srv)(k \<mapsto> idx), commitmentDb := commitmentDb srv, fullmpt := fm, own_shared := False\<rparr>)"
    using idx k fm(1) f o
    by (auto simp: RegisterLogStatement_def next_index_ok_def GetNextLogIndex_def Let_def split: option.splits)
  moreover have "srv\<lparr>logIDIndex := m, commitmentDb := commitmentDb srv, fullmpt := fm, own_shared := False\<rparr>
      = srv\<lparr>logIDIndex := m, fullmpt := fm\<rparr>" for m
    using f(2) by (cases srv) simp
  ultimately show ?thesis using fm by (intro exI [of _ fm]) simp
qed

lemma registered_inv:
  assumes "srv_inv srv" and "trie_inv 32 fm"
  shows "srv_inv (srv\<lparr>logIDIndex := m, fullmpt := fm\<rparr>)" and "srv_inv (srv\<lparr>logIDToPubKey := p\<rparr>)"
  using assms by (simp_all add: srv_inv_def)

section \<open>Commitments\<close>

lemma SendProofs_ok:
  assumes "srv_inv srv" and "lastDelta srv \<noteq> None"
  shows "\<exists>srv'. SendProofs i srv = Inr srv' \<and> srv_inv srv' \<and> same_core srv' srv \<and> fullmpt srv' = fullmpt srv
    \<and> lastDelta srv' \<noteq> None \<and> lastCommitment srv' = lastCommitment srv \<and> LastCommitMpt srv' = LastCommitMpt srv"
proof -
  obtain d where d: "lastDelta srv = Some d" "delta_inv d" using assms by (auto simp: srv_inv_def)
  show ?thesis
  proof (cases "lp_autoUpdates (procs srv i) \<and> lp_logIDs (procs srv i) \<noteq> []")
    case True
    moreover have "\<forall>k \<in> set (lp_logIDs (procs srv i)). length k = 32" using assms(1) by (simp add: srv_inv_def)
    ultimately obtain u d' where u: "GetUpdatesForKeys d (lp_logIDs (procs srv i)) = Inr (u, d')" "delta_inv d'"
      using GetUpdatesForKeys_ok [OF d(2)] by blast
    let ?s = "lp_write i MessageTypeProofUpdate (DeltaMPT_Bytes u) (srv\<lparr>lastDelta := Some d'\<rparr>)"
    have "SendProofs i srv = Inr ?s" using True d u by (simp add: SendProofs_def)
    moreover have "srv_inv (srv\<lparr>lastDelta := Some d'\<rparr>)" using assms(1) u(2) by (simp add: srv_inv_def)
    ultimately show ?thesis by (auto simp: same_core_def lp_write_def srv_inv_def)
  next
    case False
    then have "SendProofs i srv = Inr srv" by (auto simp: SendProofs_def)
    then show ?thesis using assms by auto
  qed
qed

lemma send_all_ok:
  "srv_inv srv \<Longrightarrow> lastDelta srv \<noteq> None \<Longrightarrow>
   \<exists>srv'. send_all is srv = Inr srv' \<and> srv_inv srv' \<and> same_core srv' srv \<and> fullmpt srv' = fullmpt srv
    \<and> lastCommitment srv' = lastCommitment srv \<and> LastCommitMpt srv' = LastCommitMpt srv"
proof (induction "is" arbitrary: srv)
  case (Cons i "is")
  obtain s where s: "SendProofs i srv = Inr s" "srv_inv s" "same_core s srv" "fullmpt s = fullmpt srv"
    "lastDelta s \<noteq> None" "lastCommitment s = lastCommitment srv" "LastCommitMpt s = LastCommitMpt srv"
    using SendProofs_ok [OF Cons.prems] by blast
  obtain s' where "send_all is s = Inr s'" "srv_inv s'" "same_core s' s" "fullmpt s' = fullmpt s"
    "lastCommitment s' = lastCommitment s" "LastCommitMpt s' = LastCommitMpt s"
    using Cons.IH [OF s(2,5)] by blast
  with s show ?case by (auto intro: same_core_trans)
qed auto

lemma Dispose_trie: "trie_inv 32 m \<Longrightarrow> \<exists>m'. FullMPT_Dispose m = Inr m'"
  using Dispose_ok [of "fm_root m"] wf_trie_complete [of 32 "[]" "fm_root m"]
  by (auto simp: FullMPT_Dispose_def trie_inv_def)

lemma trie_map_skel: "skel (fm_root a) = skel (fm_root b) \<Longrightarrow> trie_map a = trie_map b"
  by (metis entries_skel)

definition commit_spec :: "('db, 'w) Server \<Rightarrow> ('db, 'w) Server \<Rightarrow> bool" where
  "commit_spec srv srv' \<longleftrightarrow> srv_inv srv' \<and> logIDToPubKey srv' = logIDToPubKey srv \<and> logIDIndex srv' = logIDIndex srv
     \<and> trie_map (fullmpt srv') = trie_map (fullmpt srv) \<and> CheckSignatures srv' = CheckSignatures srv
     \<and> lastCommitment srv' = thash (fm_root (fullmpt srv))
     \<and> (if lastCommitment srv = thash (fm_root (fullmpt srv)) then LastCommitMpt srv' = LastCommitMpt srv
        else map_option trie_map (LastCommitMpt srv') = Some (trie_map (fullmpt srv)))"

lemma Commit_ok:
  assumes inv: "srv_inv srv"
  shows "\<exists>srv'. Commit env srv = Inr (None, srv') \<and> commit_spec srv srv'"
proof -
  let ?h = "thash (fm_root (fullmpt srv))"
  have t: "trie_inv 32 (fullmpt srv)" and nf: "\<not> Full srv" "\<not> own_shared srv" "KeepCommitmentTree srv"
    and l32: "length (lastCommitment srv) = 32" using inv by (simp_all add: srv_inv_def)
  obtain fm1 where c: "Commitment (fullmpt srv) = Inr (?h, fm1)" "trie_inv 32 fm1"
      "skel (fm_root fm1) = skel (fm_root (fullmpt srv))" "all_cached (fm_root fm1)"
    using Commitment_ok [OF t] by blast
  let ?s1 = "srv\<lparr>fullmpt := fm1\<rparr>"
  have sc: "srv_Commitment srv = Inr (?h, ?s1)" using c(1) nf by (simp add: srv_Commitment_def)
  have m1: "trie_map fm1 = trie_map (fullmpt srv)" using trie_map_skel [OF c(3)] .
  show ?thesis
  proof (cases "lastCommitment srv = ?h")
    case True
    then have "Commit env srv = Inr (None, ?s1)" using sc by (simp add: Commit_def)
    moreover have "srv_inv ?s1" using inv c(2) by (simp add: srv_inv_def)
    ultimately show ?thesis using True m1 by (simp add: commit_spec_def)
  next
    case False
    obtain fm2 where k: "FullMPT_Copy fm1 = Inr fm2" "trie_inv 32 fm2" "skel (fm_root fm2) = skel (fm_root fm1)"
      using Copy_ok [OF c(2,4)] by blast
    have d1: "(case LastCommitMpt srv of None \<Rightarrow> Inr () | Some m \<Rightarrow> bind_go (FullMPT_Dispose m) (\<lambda>_. Inr ())) = Inr ()"
      using inv Dispose_trie by (fastforce simp: srv_inv_def split: option.splits)
    have d2: "(case lastDelta srv of None \<Rightarrow> Inr () | Some d \<Rightarrow> bind_go (DeltaMPT_Dispose d) (\<lambda>_. Inr ())) = Inr ()"
      using inv DeltaMPT_Dispose_ok by (fastforce simp: srv_inv_def split: option.splits)
    obtain d fm3 where d: "NewDeltaMPT fm1 = Inr (d, fm3)" "delta_inv d" "trie_inv 32 fm3" "skel (fm_root fm3) = skel (fm_root fm1)"
      using NewDeltaMPT_inv [OF c(2)] by blast
    let ?s2 = "srv\<lparr>lastCommitment := ?h, LastCommitMpt := Some fm2, lastDelta := Some d, fullmpt := fm3\<rparr>"
    have "length ?h = 32" using t length_thash wf_trie_complete by (auto simp: trie_inv_def)
    note l = this l32
    have th: "thash (fm_root fm2) = ?h" using k(3) c(3) by (metis skel_same(2))
    have s2: "srv_inv ?s2" using inv k(2) d th l by (simp add: srv_inv_def)
    obtain s3 where s3: "send_all (processors srv) ?s2 = Inr s3" "srv_inv s3" "same_core s3 ?s2" "fullmpt s3 = fm3"
        "lastCommitment s3 = ?h" "LastCommitMpt s3 = Some fm2"
      using send_all_ok [OF s2, of "processors srv"] by auto
    obtain fm4 where r: "Reset fm3 = Inr fm4" "trie_inv 32 fm4" "trie_map fm4 = trie_map fm3"
      using Reset_ok [OF d(3)] by blast
    have "Commit env srv = Inr (None, s3\<lparr>fullmpt := fm4\<rparr>)"
      using sc False k(1) d1 d2 d(1) s3 r(1) nf l
      by (simp add: Commit_def Let_def srv_inv_def)
    moreover have "srv_inv (s3\<lparr>fullmpt := fm4\<rparr>)" using s3(2) r(2) by (simp add: srv_inv_def)
    moreover have "trie_map fm3 = trie_map (fullmpt srv)" "trie_map fm2 = trie_map (fullmpt srv)"
      using m1 trie_map_skel [OF d(4)] trie_map_skel [OF k(3)] by simp_all
    ultimately show ?thesis using s3 r(3) False by (simp add: commit_spec_def same_core_def)
  qed
qed

section \<open>The abstract log service\<close>

text \<open>
  A log is created under the hash of its create statement, with the witness of the signed statement as
  its first entry; a statement is appended when it is signed with the key of the log and carries the
  next index, counted in 64 bits. With signatures switched off none is asked for. A commitment fixes
  the last entry of every log, unless the digest has not changed.
\<close>

record log_service =
  als_keys :: "bytes \<rightharpoonup> bytes"
  als_logs :: "bytes \<Rightarrow> bytes list"
  als_committed :: "(bytes \<rightharpoonup> bytes) option"

definition als_init :: log_service where
  "als_init = \<lparr>als_keys = Map.empty, als_logs = (\<lambda>_. []), als_committed = None\<rparr>"

definition als_current :: "log_service \<Rightarrow> bytes \<rightharpoonup> bytes" where
  "als_current a = (\<lambda>k. if als_logs a k = [] then None else Some (last (als_logs a k)))"

definition als_index :: "log_service \<Rightarrow> bytes \<rightharpoonup> 64 word" where
  "als_index a = (\<lambda>k. if als_logs a k = [] then None else Some (word_of_nat (length (als_logs a k) - 1)))"

definition als_digest :: "log_service \<Rightarrow> bytes" where
  "als_digest a = (case als_committed a of None \<Rightarrow> zeros 32 | Some m \<Rightarrow> map_digest 32 m)"

definition als_push :: "bytes \<Rightarrow> 64 word \<Rightarrow> bytes \<Rightarrow> log_service \<Rightarrow> log_service option" where
  "als_push k idx w a =
     (if idx = word_of_nat (length (als_logs a k)) then Some (a\<lparr>als_logs := (als_logs a)(k := als_logs a k @ [w])\<rparr>) else None)"

definition als_create :: "ecdsa \<Rightarrow> bool \<Rightarrow> SignedCreateLogStatement \<Rightarrow> log_service \<Rightarrow> log_service option" where
  "als_create ec chk scls a =
     (let k = Sum256 (CreateLogStatement_Bytes (CreateStatement scls));
          b = a\<lparr>als_keys := (als_keys a)(k \<mapsto> ControllingKey (CreateStatement scls))\<rparr>
      in if (chk \<longrightarrow> scls_VerifySignature ec scls = Inr ()) \<and> als_keys a k = None
         then Some (case als_push k 0 (Sum256 (SignedCreateLogStatement_Bytes scls)) b of None \<Rightarrow> b | Some c \<Rightarrow> c)
         else None)"

definition als_append :: "ecdsa \<Rightarrow> bool \<Rightarrow> SignedLogStatement \<Rightarrow> log_service \<Rightarrow> log_service option" where
  "als_append ec chk sls a =
     (let k = LogID (sls_Statement sls)
      in if chk \<longrightarrow> (\<exists>pk. als_keys a k = Some pk \<and> sls_VerifySignature ec sls pk = Inr ())
         then als_push k (Index (sls_Statement sls)) (Sum256 (SignedLogStatement_Bytes sls)) a
         else None)"

definition als_commit :: "log_service \<Rightarrow> log_service" where
  "als_commit a =
     (if als_digest a = map_digest 32 (als_current a) then a else a\<lparr>als_committed := Some (als_current a)\<rparr>)"

inductive als_reach :: "ecdsa \<Rightarrow> bool \<Rightarrow> log_service \<Rightarrow> bool" for ec chk where
  init: "als_reach ec chk als_init"
| create: "als_reach ec chk a \<Longrightarrow> als_create ec chk scls a = Some b \<Longrightarrow> als_reach ec chk b"
| append: "als_reach ec chk a \<Longrightarrow> als_append ec chk sls a = Some b \<Longrightarrow> als_reach ec chk b"
| commit: "als_reach ec chk a \<Longrightarrow> als_reach ec chk (als_commit a)"

section \<open>The server refines the service\<close>

definition implements :: "('db, 'w) Server \<Rightarrow> log_service \<Rightarrow> bool" where
  "implements srv a \<longleftrightarrow> srv_inv srv \<and> logIDToPubKey srv = als_keys a \<and> logIDIndex srv = als_index a
     \<and> trie_map (fullmpt srv) = als_current a \<and> map_option trie_map (LastCommitMpt srv) = als_committed a
     \<and> lastCommitment srv = als_digest a"

text \<open>The steps of a server: connections come and go, send messages, and blocks trigger commitments.\<close>

inductive srv_step :: "('db, 'w) env \<Rightarrow> ('db, 'w) Server \<Rightarrow> ('db, 'w) Server \<Rightarrow> bool" for env where
  connect: "srv_step env srv (NewLogProcessor i srv)"
| disconnect: "srv_step env srv (unregisterProcessor i srv)"
| message: "ProcessMessage env i t m srv = Inr (e, srv') \<Longrightarrow> srv_step env srv srv'"
| commit: "Commit env srv = Inr (e, srv') \<Longrightarrow> srv_step env srv srv'"

inductive srv_reach :: "('db, 'w) env \<Rightarrow> bool \<Rightarrow> ('db, 'w) Server \<Rightarrow> bool" for env chk where
  start: "srv_reach env chk (NewServer w db\<lparr>CheckSignatures := chk\<rparr>)"
| step: "srv_reach env chk srv \<Longrightarrow> srv_step env srv srv' \<Longrightarrow> srv_reach env chk srv'"

inductive_cases srv_stepE: "srv_step env srv srv'"

lemma implements_init: "implements (NewServer w db\<lparr>CheckSignatures := chk\<rparr>) als_init"
  by (simp add: implements_def srv_inv_def NewServer_def als_init_def als_index_def als_current_def als_digest_def fun_eq_iff
      new_processor_def trie_inv_NewFullMPT)

lemma implements_same_core:
  "implements srv a \<Longrightarrow> srv_inv srv' \<Longrightarrow> same_core srv' srv \<Longrightarrow> implements srv' a"
  by (simp add: implements_def same_core_def)

lemma next_index_length: "implements srv a \<Longrightarrow> next_index_ok srv k idx \<longleftrightarrow> idx = word_of_nat (length (als_logs a k))"
  by (cases "als_logs a k") (auto simp: implements_def next_index_ok_def GetNextLogIndex_def als_index_def)

lemma push_current:
  "als_current (a\<lparr>als_logs := (als_logs a)(k := als_logs a k @ [w])\<rparr>) = (als_current a)(k \<mapsto> w)"
  "als_index (a\<lparr>als_logs := (als_logs a)(k := als_logs a k @ [w])\<rparr>) = (als_index a)(k \<mapsto> word_of_nat (length (als_logs a k)))"
  by (auto simp: als_current_def als_index_def fun_eq_iff)

lemma RegisterLogStatement_refines:
  assumes i: "implements srv a" and k: "length k = 32"
  shows "\<exists>e srv'. RegisterLogStatement env srv k idx w False = Inr (e, srv')
    \<and> CheckSignatures srv' = CheckSignatures srv
    \<and> (case als_push k idx w a of None \<Rightarrow> e \<noteq> None \<and> srv' = srv | Some b \<Rightarrow> e = None \<and> implements srv' b)"
proof (cases "next_index_ok srv k idx")
  case True
  have inv: "srv_inv srv" using i by (simp add: implements_def)
  obtain fm where fm: "RegisterLogStatement env srv k idx w False =
      Inr (None, srv\<lparr>logIDIndex := (logIDIndex srv)(k \<mapsto> idx), fullmpt := fm\<rparr>)"
      "trie_inv 32 fm" "trie_map fm = (trie_map (fullmpt srv))(k \<mapsto> w)"
    using RegisterLogStatement_ok [OF inv k True] by blast
  have "idx = word_of_nat (length (als_logs a k))" using next_index_length [OF i] True by simp
  moreover from this have "implements (srv\<lparr>logIDIndex := (logIDIndex srv)(k \<mapsto> idx), fullmpt := fm\<rparr>)
      (a\<lparr>als_logs := (als_logs a)(k := als_logs a k @ [w])\<rparr>)"
    using i fm(3) registered_inv(1) [OF inv fm(2)] by (simp add: implements_def push_current als_digest_def)
  ultimately show ?thesis using fm(1) by (simp add: als_push_def)
next
  case False
  then obtain e where "RegisterLogStatement env srv k idx w False = Inr (Some e, srv)"
    using RegisterLogStatement_refused by blast
  then show ?thesis using False next_index_length [OF i, of k idx] by (simp add: als_push_def)
qed


lemma VerifySig_64:
  assumes "length sig = 64"
  shows "VerifySig ec b pk sig = Inr () \<or> (\<exists>e. VerifySig ec b pk sig = Inl (GoError e))"
proof -
  have "sig = take 32 sig @ drop 32 sig" "length (take 32 sig) = 32" "length (drop 32 sig) = 32" using assms by simp_all
  then have "\<not> is_panic (VerifySig ec b pk sig)" using VerifySig_halves(2) by (metis panic_free_def)
  then show ?thesis by (cases "VerifySig ec b pk sig") (auto split: go_exn.splits, metis go_exn.exhaust is_panic.simps(1))
qed

text \<open>An answer of the server stands for an answer of the service; \<open>None\<close> is a refusal.\<close>

definition answers :: "('db, 'w) Server \<Rightarrow> log_service \<Rightarrow> (string option \<times> ('db, 'w) Server) go \<Rightarrow> log_service option \<Rightarrow> bool" where
  "answers srv a r b \<longleftrightarrow> (\<exists>e srv'. r = Inr (e, srv') \<and> CheckSignatures srv' = CheckSignatures srv
     \<and> (case b of None \<Rightarrow> e \<noteq> None \<and> implements srv' a | Some b \<Rightarrow> e = None \<and> implements srv' b))"

lemma implements_ack:
  "implements srv a \<Longrightarrow> length k = 32 \<Longrightarrow> implements (lp_write i t m (SubscribeToLog i k srv)) a"
  "CheckSignatures (lp_write i t m (SubscribeToLog i k srv)) = CheckSignatures srv"
  using lp_write_inv(2) [of i t m "SubscribeToLog i k srv"] SubscribeToLog_inv(2) [of i k srv]
  by (auto simp: same_core_def implements_def)

lemma ProcessAppendLog_refines:
  assumes i: "implements srv a" and ok: "sls_ok sls"
  shows "answers srv a (ProcessAppendLog env n sls srv) (als_append (ecdsa_Verify env) (CheckSignatures srv) sls a)"
proof -
  let ?k = "LogID (sls_Statement sls)"
  have k: "length ?k = 32" "length (sls_Signature sls) = 64" using ok by (simp_all add: sls_ok_def ls_ok_def)
  have keys: "logIDToPubKey srv = als_keys a" using i by (simp add: implements_def)
  let ?v = "if CheckSignatures srv then VerifyAppendLog env sls srv else Inr ()"
  let ?ok = "CheckSignatures srv \<longrightarrow> (\<exists>pk. als_keys a ?k = Some pk \<and> sls_VerifySignature (ecdsa_Verify env) sls pk = Inr ())"
  have v: "if ?ok then ?v = Inr () else \<exists>e. ?v = Inl (GoError e)"
    using VerifySig_64 [OF k(2)] keys
    by (auto simp: VerifyAppendLog_def GetPubKeyForLogID_def sls_VerifySignature_def split: option.splits)
  show ?thesis
  proof (cases ?ok)
    case True
    obtain e srv' where r: "RegisterLogStatement env srv ?k (Index (sls_Statement sls)) (Sum256 (SignedLogStatement_Bytes sls)) False
        = Inr (e, srv')" "CheckSignatures srv' = CheckSignatures srv"
        "case als_push ?k (Index (sls_Statement sls)) (Sum256 (SignedLogStatement_Bytes sls)) a of
           None \<Rightarrow> e \<noteq> None \<and> srv' = srv | Some b \<Rightarrow> e = None \<and> implements srv' b"
      using RegisterLogStatement_refines [OF i k(1)] by blast
    have s: "?v = Inr ()" using True v by simp
    have a: "als_append (ecdsa_Verify env) (CheckSignatures srv) sls a =
        als_push ?k (Index (sls_Statement sls)) (Sum256 (SignedLogStatement_Bytes sls)) a"
      unfolding als_append_def Let_def using True by (rule if_P)
    show ?thesis
      unfolding ProcessAppendLog_def s a answers_def CommitAppendLog_def
      using r i k(1) by (auto simp: Sum256_go_eq AckAppendLog_def implements_ack split: option.splits)
  next
    case False
    then obtain e where s: "?v = Inl (GoError e)" using v unfolding if_not_P [OF False] by blast
    have a: "als_append (ecdsa_Verify env) (CheckSignatures srv) sls a = None"
      unfolding als_append_def Let_def using False by (rule if_not_P)
    show ?thesis unfolding ProcessAppendLog_def s a answers_def using i by simp
  qed
qed

lemma ProcessCreateLog_refines:
  assumes i: "implements srv a" and ok: "scls_ok scls"
  shows "answers srv a (ProcessCreateLog env n scls srv) (als_create (ecdsa_Verify env) (CheckSignatures srv) scls a)"
proof -
  let ?k = "Sum256 (CreateLogStatement_Bytes (CreateStatement scls))"
  let ?w = "Sum256 (SignedCreateLogStatement_Bytes scls)"
  let ?key = "ControllingKey (CreateStatement scls)"
  let ?b = "a\<lparr>als_keys := (als_keys a)(?k \<mapsto> ?key)\<rparr>"
  let ?s = "srv\<lparr>logIDToPubKey := (logIDToPubKey srv)(?k \<mapsto> ?key)\<rparr>"
  have inv: "srv_inv srv" and keys: "logIDToPubKey srv = als_keys a" using i by (simp_all add: implements_def)
  have sig: "length (scls_Signature scls) = 64" using ok by (simp add: scls_ok_def)
  let ?v = "if CheckSignatures srv then scls_VerifySignature (ecdsa_Verify env) scls else Inr ()"
  let ?ok = "CheckSignatures srv \<longrightarrow> scls_VerifySignature (ecdsa_Verify env) scls = Inr ()"
  have v: "if ?ok then ?v = Inr () else \<exists>e. ?v = Inl (GoError e)"
    using VerifySig_64 [OF sig] by (auto simp: scls_VerifySignature_def)
  have b: "implements ?s ?b"
    using i registered_inv(2) [OF inv] inv
    by (auto simp: implements_def als_current_def als_index_def als_digest_def srv_inv_def)
  obtain e srv' where r: "RegisterLogStatement env ?s ?k 0 ?w False = Inr (e, srv')" "CheckSignatures srv' = CheckSignatures srv"
      "case als_push ?k 0 ?w ?b of None \<Rightarrow> e \<noteq> None \<and> srv' = ?s | Some b \<Rightarrow> e = None \<and> implements srv' b"
    using RegisterLogStatement_refines [OF b, of ?k env 0 ?w] by auto
  consider "\<not> ?ok" | "?ok" "als_keys a ?k \<noteq> None" | "?ok" "als_keys a ?k = None" by blast
  then show ?thesis
  proof cases
    case 1
    then obtain e where s: "?v = Inl (GoError e)" using v by auto
    show ?thesis unfolding ProcessCreateLog_def s answers_def als_create_def Let_def using i 1 by simp
  next
    case 2
    then have s: "?v = Inr ()" using v by simp
    from 2 obtain pk where "als_keys a ?k = Some pk" by blast
    then show ?thesis unfolding ProcessCreateLog_def s answers_def als_create_def Let_def
      using i by (simp add: Sum256_go_eq RegisterLogID_eq [OF inv] keys)
  next
    case 3
    then have s: "?v = Inr ()" using v by simp
    show ?thesis unfolding ProcessCreateLog_def s answers_def als_create_def Let_def
      using r b 3 by (auto simp: Sum256_go_eq RegisterLogID_eq [OF inv] keys implements_ack split: option.splits)
  qed
qed

lemma Commit_refines:
  assumes i: "implements srv a"
  shows "\<exists>srv'. Commit env srv = Inr (None, srv') \<and> implements srv' (als_commit a) \<and> CheckSignatures srv' = CheckSignatures srv"
proof -
  have inv: "srv_inv srv" using i by (simp add: implements_def)
  obtain srv' where c: "Commit env srv = Inr (None, srv')" "commit_spec srv srv'" using Commit_ok [OF inv] by blast
  have "trie_inv 32 (fullmpt srv)" using inv by (simp add: srv_inv_def)
  then have h: "thash (fm_root (fullmpt srv)) = map_digest 32 (als_current a)"
    using map_digest_trie i by (auto simp: implements_def)
  have "implements srv' (als_commit a)"
  proof (cases "als_digest a = map_digest 32 (als_current a)")
    case True
    then show ?thesis using c(2) i h by (auto simp: commit_spec_def implements_def als_commit_def)
  next
    case False
    then show ?thesis using c(2) i h
      by (auto simp: commit_spec_def implements_def als_commit_def als_digest_def als_current_def als_index_def)
  qed
  then show ?thesis using c by (simp add: commit_spec_def)
qed


text \<open>The other messages leave what the service stands for.\<close>

lemma ProcessRequestProof_core:
  assumes inv: "srv_inv srv"
  shows "\<exists>e srv'. ProcessRequestProof i msg srv = Inr (e, srv') \<and> srv_inv srv' \<and> same_core srv' srv"
proof -
  let ?keys = "if LogIDs msg = [] then map (copy_bytes (zeros 32)) (lp_logIDs (procs srv i)) else map (copy_bytes (zeros 32)) (LogIDs msg)"
  have nf: "\<not> Full srv" using inv by (simp add: srv_inv_def)
  have ks: "\<forall>k \<in> set ?keys. length k = 32" by auto
  consider "LastCommitMpt srv = None" | m where "LastCommitMpt srv = Some m" "?keys = []" | m where "LastCommitMpt srv = Some m" "?keys \<noteq> []"
    by fastforce
  then show ?thesis
  proof cases
    case 3
    then have m: "trie_inv 32 m" "thash (fm_root m) = lastCommitment srv" using inv by (simp_all add: srv_inv_def)
    obtain pm fm' where p: "NewPartialMPTIncludingKeys m ?keys = Inr (pm, fm')" "trie_inv 32 fm'" "skel (fm_root fm') = skel (fm_root m)"
      using NewPartialMPTIncludingKeys_ok [OF m(1) 3(2) ks] by blast
    let ?s = "srv\<lparr>LastCommitMpt := Some fm'\<rparr>"
    have "srv_inv ?s" using inv m(2) p(2) skel_same(2) [OF p(3)] by (simp add: srv_inv_def)
    moreover have "same_core ?s srv" using 3(1) trie_map_skel [OF p(3)] by (simp add: same_core_def)
    moreover have "ProcessRequestProof i msg srv = Inr (None, lp_write i MessageTypeProof (PartialMPT_Bytes pm) ?s)"
      unfolding ProcessRequestProof_def Let_def GetProofForKeys_def using nf 3(1) p(1) by simp
    ultimately show ?thesis
      using same_core_trans [OF lp_write_inv(2) [of i MessageTypeProof "PartialMPT_Bytes pm" ?s]] by simp
  qed (use inv nf in \<open>auto simp: ProcessRequestProof_def GetProofForKeys_def NewPartialMPTIncludingKeys_def Let_def\<close>)
qed

lemma GetUpdates_none_panics: "delta_inv d \<Longrightarrow> is_panic (GetUpdatesForKeys d [])"
proof -
  assume "delta_inv d"
  then obtain h rc ch l r where n: "dm_root d = InteriorNode h rc ch (changes_of l) (changes_of r)" and ok: "hash_ok (dm_root d)"
    by (auto simp: delta_inv_def)
  then have "GetHash (dm_root d) = Inr (thash (dm_root d), cached (dm_root d))" by (intro GetHash_ok) simp_all
  then show ?thesis using n
    by (simp add: GetUpdatesForKeys_def getUpdatesHelper.simps [of _ "InteriorNode _ _ _ _ _"] del: GetHash.simps cached.simps)
qed

lemma ProcessRequestDeltaProof_core:
  assumes inv: "srv_inv srv" and r: "ProcessRequestDeltaProof i msg srv = Inr (e, srv')"
  shows "srv_inv srv' \<and> same_core srv' srv"
proof -
  define keys where "keys = (if LogIDs msg = [] then lp_logIDs (procs srv i) else map (copy_bytes (zeros 32)) (LogIDs msg))"
  have ks: "\<forall>k \<in> set keys. length k = 32" using inv by (auto simp: srv_inv_def keys_def)
  note r' = r [unfolded ProcessRequestDeltaProof_def GetDeltaProofForKeys_def Let_def, folded keys_def]
  obtain d where d: "lastDelta srv = Some d" using r' by (cases "lastDelta srv") simp_all
  then have di: "delta_inv d" using inv by (simp add: srv_inv_def)
  have "keys \<noteq> []"
  proof
    assume k: "keys = []"
    then obtain x where "GetUpdatesForKeys d [] = Inl (GoPanic x)"
      using GetUpdates_none_panics [OF di] by (metis is_panic.elims(2))
    then show False using r' d k by simp
  qed
  then obtain u d' where u: "GetUpdatesForKeys d keys = Inr (u, d')" "delta_inv d'" using GetUpdatesForKeys_ok [OF di _ ks] by blast
  then have s: "srv' = lp_write i MessageTypeDeltaProof (DeltaMPT_Bytes u) (srv\<lparr>lastDelta := Some d'\<rparr>)"
    using r' d by simp
  have "srv_inv (srv\<lparr>lastDelta := Some d'\<rparr>)" using inv u(2) by (simp add: srv_inv_def)
  then show ?thesis unfolding s by (auto simp: same_core_def lp_write_def srv_inv_def)
qed

lemma ProcessRequestCommitments_core:
  "ProcessRequestCommitmentDetails i pm srv = Inr (e, srv') \<Longrightarrow> \<exists>t m. srv' = srv \<or> srv' = lp_write i t m srv"
  "ProcessRequestCommitmentHistory i pm' srv = Inr (e, srv') \<Longrightarrow> \<exists>t m. srv' = lp_write i t m srv"
  by (auto simp: ProcessRequestCommitmentDetails_def ProcessRequestCommitmentHistory_def go_simps)

definition is_statement :: "MessageType \<Rightarrow> bool" where
  "is_statement t \<longleftrightarrow> t = MessageTypeCreateLog \<or> t = MessageTypeAppendLog"

lemma ProcessMessage_core:
  assumes inv: "srv_inv srv" and r: "ProcessMessage env i t m srv = Inr (e, srv')" and t: "\<not> is_statement t"
  shows "srv_inv srv' \<and> same_core srv' srv"
proof -
  note c = ProcessRequestProof_core [OF inv] ProcessRequestDeltaProof_core [OF inv] ProcessRequestCommitments_core
  have w: "srv_inv (lp_write i MessageTypeAck [] (set_autoUpdates i b srv)) \<and> same_core (lp_write i MessageTypeAck [] (set_autoUpdates i b srv)) srv" for b
    using inv same_core_trans [OF lp_write_inv(2) set_autoUpdates_inv(2)] by simp
  consider pm where "ProcessRequestProof i pm srv = Inr (e, srv')" | pm where "ProcessRequestDeltaProof i pm srv = Inr (e, srv')"
    | pm where "ProcessRequestCommitmentDetails i pm srv = Inr (e, srv')" | pm where "ProcessRequestCommitmentHistory i pm srv = Inr (e, srv')"
    | b where "srv' = lp_write i MessageTypeAck [] (set_autoUpdates i b srv)" | "srv' = srv"
    using r t unfolding ProcessMessage_def is_statement_def by (auto simp: go_simps split: if_splits)
  then show ?thesis
  proof cases
    case 1 then show ?thesis using c(1) [of i] by (metis Inr_inject Pair_inject)
  next
    case 2 then show ?thesis by (rule c(2))
  next
    case 3 then show ?thesis using c(3) inv by (metis lp_write_inv(1,2) same_core_refl)
  next
    case 4 then show ?thesis using c(4) inv by (metis lp_write_inv(1,2))
  next
    case 5 then show ?thesis using w by simp
  qed (use inv in simp)
qed


lemma ProcessMessage_statements:
  "ProcessMessage env i MessageTypeCreateLog m srv =
     catch_err (NewSignedCreateLogStatementFromBytes m) (\<lambda>e. Inr (Some e, srv)) (\<lambda>pm. ProcessCreateLog env i pm srv)"
  "ProcessMessage env i MessageTypeAppendLog m srv =
     catch_err (NewSignedLogStatementFromBytes m) (\<lambda>e. Inr (Some e, srv)) (\<lambda>pm. ProcessAppendLog env i pm srv)"
  by (simp_all add: ProcessMessage_def MessageTypeCreateLog_def MessageTypeAppendLog_def)

lemma ProcessMessage_statement:
  "scls_ok scls \<Longrightarrow> ProcessMessage env i MessageTypeCreateLog (SignedCreateLogStatement_Bytes scls @ t) srv = ProcessCreateLog env i scls srv"
  "sls_ok sls \<Longrightarrow> ProcessMessage env i MessageTypeAppendLog (SignedLogStatement_Bytes sls @ t) srv = ProcessAppendLog env i sls srv"
  using NewSignedCreateLogStatementFromBytes_iff [of "SignedCreateLogStatement_Bytes scls @ t" scls]
    NewSignedLogStatementFromBytes_iff [of "SignedLogStatement_Bytes sls @ t" sls]
  by (auto simp: ProcessMessage_statements)

definition answered :: "('db, 'w) Server \<Rightarrow> log_service \<Rightarrow> ('db, 'w) Server \<Rightarrow> bool" where
  "answered srv a srv' \<longleftrightarrow> CheckSignatures srv' = CheckSignatures srv \<and> implements srv' a"

lemma answers_Inr:
  "answers srv a (Inr (e, srv')) b \<Longrightarrow> answered srv (case b of None \<Rightarrow> a | Some b \<Rightarrow> b) srv'"
  by (auto simp: answers_def answered_def split: option.splits)

lemma ProcessMessage_refines:
  assumes i: "implements srv a" and r: "ProcessMessage env n t m srv = Inr (e, srv')"
  shows "answered srv a srv'
    \<or> (\<exists>scls b. als_create (ecdsa_Verify env) (CheckSignatures srv) scls a = Some b \<and> answered srv b srv')
    \<or> (\<exists>sls b. als_append (ecdsa_Verify env) (CheckSignatures srv) sls a = Some b \<and> answered srv b srv')"
proof -
  have inv: "srv_inv srv" using i by (simp add: implements_def)
  consider "\<not> is_statement t" | "srv' = srv"
    | scls where "scls_ok scls" "ProcessCreateLog env n scls srv = Inr (e, srv')"
    | sls where "sls_ok sls" "ProcessAppendLog env n sls srv = Inr (e, srv')"
    using r by (cases "is_statement t") (auto simp: ProcessMessage_statements is_statement_def go_simps
        NewSignedCreateLogStatementFromBytes_iff NewSignedLogStatementFromBytes_iff)
  then show ?thesis
  proof cases
    case 1
    then show ?thesis using ProcessMessage_core [OF inv r] i implements_same_core [OF i] by (simp add: answered_def same_core_def)
  next
    case 2
    then show ?thesis using i by (simp add: answered_def)
  next
    case 3
    have "answered srv (case als_create (ecdsa_Verify env) (CheckSignatures srv) scls a of None \<Rightarrow> a | Some b \<Rightarrow> b) srv'"
      using answers_Inr ProcessCreateLog_refines [OF i 3(1), of env n] by (simp add: 3(2))
    then show ?thesis by (cases "als_create (ecdsa_Verify env) (CheckSignatures srv) scls a") auto
  next
    case 4
    have "answered srv (case als_append (ecdsa_Verify env) (CheckSignatures srv) sls a of None \<Rightarrow> a | Some b \<Rightarrow> b) srv'"
      using answers_Inr ProcessAppendLog_refines [OF i 4(1), of env n] by (simp add: 4(2))
    then show ?thesis by (cases "als_append (ecdsa_Verify env) (CheckSignatures srv) sls a") auto
  qed
qed

lemma srv_step_refines:
  assumes i: "implements srv a" and a: "als_reach (ecdsa_Verify env) (CheckSignatures srv) a" and s: "srv_step env srv srv'"
  shows "CheckSignatures srv' = CheckSignatures srv \<and> (\<exists>b. als_reach (ecdsa_Verify env) (CheckSignatures srv) b \<and> implements srv' b)"
  using s
proof cases
  case (connect n)
  then show ?thesis using a implements_same_core [OF i] processors_inv(1,2) i by (auto simp: implements_def same_core_def)
next
  case (disconnect n)
  then show ?thesis using a implements_same_core [OF i] processors_inv(3,4) i by (auto simp: implements_def same_core_def)
next
  case (message n t m e)
  then show ?thesis using ProcessMessage_refines [OF i message] a by (auto simp: answered_def intro: als_reach.intros)
next
  case (commit e)
  then show ?thesis using Commit_refines [OF i, of env] a by (auto intro: als_reach.intros)
qed

lemma srv_reach_implements:
  "srv_reach env chk srv \<Longrightarrow> CheckSignatures srv = chk \<and> (\<exists>a. als_reach (ecdsa_Verify env) chk a \<and> implements srv a)"
proof (induction rule: srv_reach.induct)
  case (start w db)
  then show ?case using implements_init als_reach.init by (force simp: NewServer_def)
next
  case (step srv srv')
  then obtain a where "implements srv a" "als_reach (ecdsa_Verify env) (CheckSignatures srv) a" by auto
  from srv_step_refines [OF this step(2)] show ?case using step.IH by simp
qed

section \<open>Authenticity\<close>

text \<open>
  A genuine history of log \<open>k\<close>: a signed create statement whose hash is the log's ID, then
  signed statements for this log with the indices 1, 2 and so on, all under the controlling key.
\<close>

definition genuine :: "ecdsa \<Rightarrow> bytes \<Rightarrow> SignedCreateLogStatement \<Rightarrow> SignedLogStatement list \<Rightarrow> bool" where
  "genuine ec k scls slss \<longleftrightarrow>
     k = Sum256 (CreateLogStatement_Bytes (CreateStatement scls)) \<and> scls_VerifySignature ec scls = Inr ()
     \<and> (\<forall>j < length slss. LogID (sls_Statement (slss ! j)) = k \<and> Index (sls_Statement (slss ! j)) = word_of_nat (j + 1)
          \<and> sls_VerifySignature ec (slss ! j) (ControllingKey (CreateStatement scls)) = Inr ())"

definition history :: "SignedCreateLogStatement \<Rightarrow> SignedLogStatement list \<Rightarrow> bytes list" where
  "history scls slss = Sum256 (SignedCreateLogStatement_Bytes scls) # map (\<lambda>sls. Sum256 (SignedLogStatement_Bytes sls)) slss"

definition als_authentic :: "ecdsa \<Rightarrow> log_service \<Rightarrow> bool" where
  "als_authentic ec a \<longleftrightarrow>
     (\<forall>k. als_keys a k = None \<longrightarrow> als_logs a k = [])
     \<and> (\<forall>k pk. als_keys a k = Some pk \<longrightarrow>
          (\<exists>scls slss. genuine ec k scls slss \<and> pk = ControllingKey (CreateStatement scls) \<and> als_logs a k = history scls slss))
     \<and> (\<forall>m k v. als_committed a = Some m \<longrightarrow> m k = Some v \<longrightarrow> v \<in> set (als_logs a k))"

lemma genuine_snoc:
  "genuine ec k scls slss \<Longrightarrow> LogID (sls_Statement sls) = k \<Longrightarrow> Index (sls_Statement sls) = word_of_nat (length slss + 1) \<Longrightarrow>
   sls_VerifySignature ec sls (ControllingKey (CreateStatement scls)) = Inr () \<Longrightarrow> genuine ec k scls (slss @ [sls])"
  by (auto simp: genuine_def nth_append less_Suc_eq)

lemma history_snoc: "history scls (slss @ [sls]) = history scls slss @ [Sum256 (SignedLogStatement_Bytes sls)]"
  by (simp add: history_def)

lemma als_reach_authentic: "als_reach ec True a \<Longrightarrow> als_authentic ec a"
proof (induction rule: als_reach.induct)
  case init
  then show ?case by (simp add: als_authentic_def als_init_def)
next
  case (create a scls b)
  let ?k = "Sum256 (CreateLogStatement_Bytes (CreateStatement scls))"
  have k: "als_keys a ?k = None" "scls_VerifySignature ec scls = Inr ()" using create(2) by (auto simp: als_create_def Let_def split: if_splits)
  then have e: "als_logs a ?k = []" using create(3) by (simp add: als_authentic_def)
  have b: "b = a\<lparr>als_keys := (als_keys a)(?k \<mapsto> ControllingKey (CreateStatement scls)),
      als_logs := (als_logs a)(?k := history scls [])\<rparr>"
    using create(2) k e by (auto simp: als_create_def als_push_def Let_def history_def)
  have g: "genuine ec ?k scls []" using k by (simp add: genuine_def)
  have "v \<in> set (als_logs b k')" if "als_committed b = Some m" "m k' = Some v" for m k' v
  proof -
    have "v \<in> set (als_logs a k')" using create(3) that b by (auto simp: als_authentic_def)
    then show ?thesis using e b by (cases "k' = ?k") auto
  qed
  then show ?case using create(3) b g unfolding als_authentic_def by (auto split: if_splits)
next
  case (append a sls b)
  let ?k = "LogID (sls_Statement sls)"
  from append(2) obtain pk where pk: "als_keys a ?k = Some pk" "sls_VerifySignature ec sls pk = Inr ()"
    and idx: "Index (sls_Statement sls) = word_of_nat (length (als_logs a ?k))"
    and b: "b = a\<lparr>als_logs := (als_logs a)(?k := als_logs a ?k @ [Sum256 (SignedLogStatement_Bytes sls)])\<rparr>"
    by (auto simp: als_append_def als_push_def Let_def split: if_splits)
  obtain scls slss where g: "genuine ec ?k scls slss" "pk = ControllingKey (CreateStatement scls)" "als_logs a ?k = history scls slss"
    using append(3) pk(1) unfolding als_authentic_def by blast
  have g': "genuine ec ?k scls (slss @ [sls])"
    using g pk idx by (intro genuine_snoc) (simp_all add: history_def)
  have lb: "als_logs b ?k = history scls (slss @ [sls])" and ob: "\<And>k. k \<noteq> ?k \<Longrightarrow> als_logs b k = als_logs a k"
    and kb: "als_keys b = als_keys a" and cb: "als_committed b = als_committed a"
    using b g(3) by (simp_all add: history_snoc)
  show ?case unfolding als_authentic_def kb cb
  proof (intro conjI allI impI)
    fix k assume "als_keys a k = None"
    moreover from this have "k \<noteq> ?k" using pk(1) by auto
    ultimately show "als_logs b k = []" using append(3) ob by (simp add: als_authentic_def)
  next
    fix k pk' assume k: "als_keys a k = Some pk'"
    show "\<exists>scls slss. genuine ec k scls slss \<and> pk' = ControllingKey (CreateStatement scls) \<and> als_logs b k = history scls slss"
    proof (cases "k = ?k")
      case True
      then have "pk' = ControllingKey (CreateStatement scls)" using k pk(1) g(2) by simp
      then show ?thesis using True g' lb by blast
    next
      case False
      then show ?thesis using append(3) k unfolding als_authentic_def ob [OF False] by blast
    qed
  next
    fix m k v assume "als_committed a = Some m" "m k = Some v"
    then have "v \<in> set (als_logs a k)" using append(3) unfolding als_authentic_def by blast
    then show "v \<in> set (als_logs b k)" using lb ob g(3) by (cases "k = ?k") (simp_all add: history_snoc)
  qed
next
  case (commit a)
  have "v \<in> set (als_logs a k)" if "als_current a k = Some v" for k v
    using that by (auto simp: als_current_def split: if_splits)
  then show ?case using commit(2) by (auto simp: als_authentic_def als_commit_def)
qed

end
