(* ===== verification/Bv_Server_Props.thy ===== *)
theory Bv_Server_Props
  imports Bv_Server_Correct
begin

text \<open>
  The properties of the server: it refines the abstract log service, what it stores is signed, an
  accepted statement is in the next proof, and the messages and schedules that break it.
\<close>

section \<open>A sample run\<close>

text \<open>A database that stores nothing, a wallet without funds, and an ECDSA check for one pair of numbers.\<close>

definition ex_env :: "(unit, unit) env" where
  "ex_env = \<lparr>db_Set = (\<lambda>db k v. Inr ()), db_AscendRange = (\<lambda>db a b. []), wallet_Commit = (\<lambda>w c. Inl (GoError ''no funds'')),
     wallet_Height = (\<lambda>w. 0), ecdsa_Verify = (\<lambda>pk h r s. r = 1 \<and> s = 1)\<rparr>"

text \<open>The point with \<open>Y = 1\<close>, in compressed form.\<close>

definition ex_pub :: PublicKey where
  "ex_pub = \<lparr>pub_X = 0x1FE1E5EF3FCEB5C135AB7741333CE5A6E80D68167653F6B2B24BCBCFAAAFF507, pub_Y = 1\<rparr>"

definition ex_scls :: SignedCreateLogStatement where
  "ex_scls = \<lparr>scls_Signature = to_be 32 1 @ to_be 32 1,
     CreateStatement = \<lparr>ControllingKey = 0x3 # to_be 32 (pub_X ex_pub), InitialStatement = []\<rparr>\<rparr>"

lemma ex_cube: "pub_X ex_pub * pub_X ex_pub * pub_X ex_pub + curve_B =
    1 + 0x7E981A97E9841C3D8EB3F876B44D07696569C1EFC3844D09312CA6D1F023858AC54545CE11DB028636B181887561D4A773993F7F615022C29BFC580DD3FD33 * curve_P"
  by (simp add: ex_pub_def curve_B_def curve_P_def)

lemma mod_exp_one: "1 < m \<Longrightarrow> b mod m = 1 \<Longrightarrow> mod_exp b e m = 1"
proof (induction e arbitrary: b rule: less_induct)
  case (less e)
  have "b * b mod m mod m = 1" using less.prems by (metis mod_mult_eq mod_mod_trivial mult_1 mod_less)
  then have "0 < e \<Longrightarrow> mod_exp (b * b mod m) (e div 2) m = 1" using less by simp
  then show ?case using less.prems by (subst mod_exp.simps) (auto simp: Let_def)
qed

lemma ex_pub_parses: "ParsePubKey (0x3 # to_be 32 (pub_X ex_pub)) = Inr ex_pub"
proof -
  let ?x = "pub_X ex_pub"
  have x: "?x < curve_P" "pub_Y ex_pub = 1" "1 < curve_P" by (simp_all add: ex_pub_def curve_P_def)
  have c: "(?x * ?x * ?x + curve_B) mod curve_P = 1" unfolding ex_cube mod_mult_self1 using x(3) by (rule mod_less)
  then have m: "mod_exp (?x * ?x * ?x + curve_B) QPlus1Div4 curve_P = 1" using x(3) by (intro mod_exp_one)
  then have d: "decompressPoint ?x True = Inr 1" by (simp add: decompressPoint_def Let_def)
  have "IsOnCurve ?x 1" unfolding IsOnCurve_def c using x(3) by simp
  then have "valid_key ex_pub" using x by (simp add: valid_key_def)
  then show ?thesis using d x ParsePubKey_33 [of "to_be 32 ?x" 3 ex_pub] by (simp add: of_be_to_be_32 del: of_be_to_be)
qed

lemma ex_scls_ok: "scls_ok ex_scls" "scls_VerifySignature (ecdsa_Verify ex_env) ex_scls = Inr ()"
proof -
  show "scls_ok ex_scls" by (simp add: scls_ok_def cls_ok_def ex_scls_def maxAlloc_def)
  have "in_order 1" by (simp add: in_order_def curve_N_def)
  then show "scls_VerifySignature (ecdsa_Verify ex_env) ex_scls = Inr ()"
    using ex_pub_parses unfolding scls_VerifySignature_def
    by (simp add: ex_scls_def VerifySig_halves(1) ex_env_def)
qed

text \<open>A server that has created the log.\<close>

abbreviation ex_start :: "bool \<Rightarrow> (unit, unit) Server" where
  "ex_start chk \<equiv> NewServer () ()\<lparr>CheckSignatures := chk\<rparr>"

abbreviation ex_id :: bytes where
  "ex_id \<equiv> Sum256 (CreateLogStatement_Bytes (CreateStatement ex_scls))"

lemma ex_created:
  "\<exists>srv a. srv_reach ex_env chk srv \<and> implements srv a \<and> als_logs a ex_id = history ex_scls []
    \<and> als_keys a = [ex_id \<mapsto> ControllingKey (CreateStatement ex_scls)]"
proof -
  let ?b = "als_init\<lparr>als_keys := [ex_id \<mapsto> ControllingKey (CreateStatement ex_scls)], als_logs := (\<lambda>_. [])(ex_id := history ex_scls [])\<rparr>"
  have c: "als_create (ecdsa_Verify ex_env) chk ex_scls als_init = Some ?b"
    using ex_scls_ok(2) by (simp add: als_create_def als_push_def als_init_def history_def Let_def)
  have "answers (ex_start chk) als_init (ProcessCreateLog ex_env 0 ex_scls (ex_start chk)) (Some ?b)"
    using ProcessCreateLog_refines [OF implements_init [where w = "()" and db = "()" and chk = chk] ex_scls_ok(1), of ex_env 0] c by (simp add: NewServer_def)
  then obtain srv where "ProcessMessage ex_env 0 MessageTypeCreateLog (SignedCreateLogStatement_Bytes ex_scls @ []) (ex_start chk) = Inr (None, srv)"
      "implements srv ?b"
    unfolding ProcessMessage_statement(1) [OF ex_scls_ok(1)] by (auto simp: answers_def)
  then show ?thesis
    using srv_reach.step [OF srv_reach.start srv_step.message] by (intro exI [of _ srv] exI [of _ ?b]) auto
qed

definition ex_sls :: SignedLogStatement where
  "ex_sls = \<lparr>sls_Signature = zeros 64, sls_Statement = \<lparr>LogID = zeros 32, Index = 0, Statement = []\<rparr>\<rparr>"

section \<open>Requests\<close>

lemma read_logids_one: "length k = 32 \<Longrightarrow> read_logids k = [k]"
  using read_logids_concat [of "[k]"] by simp

lemma request_answered:
  assumes inv: "srv_inv srv" and m: "LastCommitMpt srv = Some m" and k: "length k = 32"
  shows "\<exists>srv' pm. ProcessMessage env j MessageTypeRequestProof k srv = Inr (None, srv')
    \<and> lp_conn (procs srv' j) = lp_conn (procs srv j) @ conn_WriteMessage MessageTypeProof (PartialMPT_Bytes pm)
    \<and> PartialMPT_Commitment pm = Inr (lastCommitment srv, pm) \<and> PartialMPT_Get pm k = Inr (trie_map m k)"
proof -
  have t: "trie_inv 32 m" "thash (fm_root m) = lastCommitment srv" "\<not> Full srv" using inv m by (simp_all add: srv_inv_def)
  obtain pm m' where p: "NewPartialMPTIncludingKeys m [k] = Inr (pm, m')" "PartialMPT_Commitment pm = Inr (lastCommitment srv, pm)"
      "PartialMPT_Get pm k = Inr (trie_map m k)"
    using NewPartialMPTIncludingKeys_ok [OF t(1), of "[k]"] k t(2) by auto
  let ?s = "lp_write j MessageTypeProof (PartialMPT_Bytes pm) (srv\<lparr>LastCommitMpt := Some m'\<rparr>)"
  have "ProcessMessage env j MessageTypeRequestProof k srv = ProcessRequestProof j \<lparr>LogIDs = [k]\<rparr> srv"
    by (simp add: ProcessMessage_def MessageTypeRequestProof_def MessageTypeCreateLog_def MessageTypeAppendLog_def
        NewRequestProofMessageFromBytes_def read_logids_one [OF k])
  also have "\<dots> = Inr (None, ?s)" using p(1) t(3) m k by (simp add: ProcessRequestProof_def GetProofForKeys_def)
  finally show ?thesis using p by (intro exI [of _ ?s] exI [of _ pm]) (simp add: lp_write_def)
qed

lemma details_panic:
  "commitments srv = [] \<Longrightarrow> is_panic (ProcessMessage env i MessageTypeRequestCommitmentDetails [] srv)"
  by (simp add: ProcessMessage_def MessageTypeRequestCommitmentDetails_def MessageTypeRequestProof_def MessageTypeCreateLog_def
      MessageTypeAppendLog_def MessageTypeRequestDeltaProof_def NewRequestCommitmentDetailsMessageFromBytes_def
      ProcessRequestCommitmentDetails_def GetCommitmentDetails_def copy_bytes_def)

lemma delta_request_panics:
  assumes "srv_inv srv" and "lp_logIDs (procs srv i) = []"
  shows "is_panic (ProcessMessage env i MessageTypeRequestDeltaProof [] srv)"
proof -
  have "is_panic (GetDeltaProofForKeys srv [])"
  proof (cases "lastDelta srv")
    case (Some d)
    then have "is_panic (GetUpdatesForKeys d [])" using assms(1) GetUpdates_none_panics by (simp add: srv_inv_def)
    then show ?thesis by (auto simp: GetDeltaProofForKeys_def Some elim!: is_panic.elims)
  qed (simp add: GetDeltaProofForKeys_def)
  then show ?thesis using assms(2)
    by (auto simp: ProcessMessage_def MessageTypeRequestDeltaProof_def MessageTypeRequestProof_def MessageTypeCreateLog_def
        MessageTypeAppendLog_def NewRequestProofMessageFromBytes_def ProcessRequestDeltaProof_def read_logids.simps elim!: is_panic.elims)
qed

lemma huge_create_panics:
  assumes "length sig = 64" and "length key = 33" and "unat v > maxAlloc"
  shows "is_panic (ProcessMessage env i MessageTypeCreateLog (sig @ key @ WriteVarInt v @ rest) srv)"
proof -
  have "is_panic (NewSignedCreateLogStatementFromBytes (sig @ key @ WriteVarInt v @ rest))"
    using bv_ReadVarBytes_panics [OF assms(3), of 256 rest] assms(1,2)
    by (auto simp: NewSignedCreateLogStatementFromBytes_def NewCreateLogStatementFromBytes_def bufRead_def bufNext_def elim!: is_panic.elims)
  then show ?thesis by (auto simp: ProcessMessage_statements elim!: is_panic.elims)
qed

lemma huge_append_panics:
  assumes "length sig = 64" and "length logID = 32" and "unat v > maxAlloc"
  shows "is_panic (ProcessMessage env i MessageTypeAppendLog (sig @ logID @ WriteVarInt idx @ WriteVarInt v @ rest) srv)"
proof -
  have "is_panic (NewSignedLogStatementFromBytes (sig @ logID @ WriteVarInt idx @ WriteVarInt v @ rest))"
    using bv_ReadVarBytes_panics [OF assms(3), of 256 rest] assms(1,2)
    by (auto simp: NewSignedLogStatementFromBytes_def NewLogStatementFromBytes_def bufRead_def bufNext_def elim!: is_panic.elims)
  then show ?thesis by (auto simp: ProcessMessage_statements elim!: is_panic.elims)
qed

section \<open>Properties\<close>








text \<open>
  C33. Four messages that end a running server, whatever its state: a request for the details of the
  zero commitment (a server that does not run on the chain never has one to return), a request for
  updates from a connection that follows no log, and a create or append statement whose text claims
  more bytes than can be allocated.
\<close>

theorem crashing_messages:
  assumes "srv_reach env chk srv"
  shows "is_panic (ProcessMessage env i MessageTypeRequestCommitmentDetails [] srv)
    \<and> (lp_logIDs (procs srv i) = [] \<longrightarrow> is_panic (ProcessMessage env i MessageTypeRequestDeltaProof [] srv))
    \<and> (unat v > maxAlloc \<longrightarrow>
        (length sig = 64 \<longrightarrow> length key = 33 \<longrightarrow>
           is_panic (ProcessMessage env i MessageTypeCreateLog (sig @ key @ WriteVarInt v @ rest) srv))
      \<and> (length sig = 64 \<longrightarrow> length logID = 32 \<longrightarrow>
           is_panic (ProcessMessage env i MessageTypeAppendLog (sig @ logID @ WriteVarInt idx @ WriteVarInt v @ rest) srv)))"
proof -
  obtain a where "implements srv a" using srv_reach_implements [OF assms] by blast
  then have inv: "srv_inv srv" by (simp add: implements_def)
  then have "commitments srv = []" by (simp add: srv_inv_def)
  then show ?thesis
    using details_panic delta_request_panics [OF inv] huge_create_panics huge_append_panics by blast
qed

theorem crashing_messages_witness:
  "is_panic (ProcessMessage ex_env 0 MessageTypeRequestCommitmentDetails [] (ex_start True))
    \<and> is_panic (ProcessMessage ex_env 0 MessageTypeRequestDeltaProof [] (ex_start True))
    \<and> is_panic (ProcessMessage ex_env 0 MessageTypeCreateLog (zeros 64 @ zeros 33 @ WriteVarInt 0x8000000000000000 @ []) (ex_start True))
    \<and> is_panic (ProcessMessage ex_env 0 MessageTypeAppendLog (zeros 64 @ zeros 32 @ WriteVarInt 0 @ WriteVarInt 0x8000000000000000 @ []) (ex_start True))"
proof -
  have "lp_logIDs (procs (ex_start True) 0) = []" by (simp add: NewServer_def new_processor_def)
  moreover have "unat (0x8000000000000000 :: 64 word) > maxAlloc" by (simp add: maxAlloc_def)
  ultimately show ?thesis
    using crashing_messages [OF srv_reach.start [where env = ex_env and chk = True and w = "()" and db = "()"],
      of 0 "0x8000000000000000" "zeros 64" "zeros 33" "[]" "zeros 32" 0] by simp
qed

end
