(* ===== verification/Bv_Server_Race.thy ===== *)
theory Bv_Server_Race
  imports Bv_Server_Props
begin

text \<open>
  Appends on several connections at once (\<open>ProcessAppendLog\<close> of \<open>server/logprocessor.go\<close> and
  \<open>RegisterLogStatement\<close> of \<open>server/server.go\<close>). A connection is a thread; what it does under one
  lock is one step. The index is checked and stored under separate acquisitions of
  \<open>logIDIndexLock\<close>, and the tree is changed under \<open>mptLock\<close>, so other threads can run in between.
\<close>

section \<open>Threads\<close>

datatype append_pc = VerifyKey | CheckIndex | StoreIndex | InsertTree | SendAck | Done | Failed string

definition append_step ::
  "('db, 'w) env \<Rightarrow> nat \<Rightarrow> SignedLogStatement \<Rightarrow> append_pc \<Rightarrow> ('db, 'w) Server \<Rightarrow> (append_pc \<times> ('db, 'w) Server) go" where
  "append_step env i sls pc srv =
     (let logID = LogID (sls_Statement sls); index = Index (sls_Statement sls) in
      case pc of
        VerifyKey \<Rightarrow>
          catch_err (if CheckSignatures srv then VerifyAppendLog env sls srv else Inr ())
            (\<lambda>e. Inr (Failed e, srv)) (\<lambda>_. Inr (CheckIndex, srv))
      | CheckIndex \<Rightarrow>
          (let ok = logIDIndex srv logID \<noteq> None; idx = the (logIDIndex srv logID) in
           if \<not> ok \<and> index \<noteq> 0 then Inr (Failed ''Unexpected log index - expected 0'', srv)
           else if ok \<and> index \<noteq> idx + 1 then Inr (Failed ''Unexpected log index'', srv)
           else Inr (StoreIndex, srv))
      | StoreIndex \<Rightarrow>
          (let srv = srv\<lparr>logIDIndex := (logIDIndex srv)(logID \<mapsto> index)\<rparr> in
           catch_err
             (if Full srv then db_Set env (commitmentDb srv) (''idx-'' @ hex_EncodeToString logID) (string_bytes (decimal (unat index)))
              else Inr (commitmentDb srv))
             (\<lambda>e. Inr (Failed e, srv)) (\<lambda>db. Inr (InsertTree, srv\<lparr>commitmentDb := db\<rparr>)))
      | InsertTree \<Rightarrow>
          bind_go (Sum256_go (SignedLogStatement_Bytes sls)) (\<lambda>witness.
          bind_go (Insert (fullmpt srv) (copy_bytes (zeros 32) logID) witness) (\<lambda>fm.
          Inr (SendAck, srv\<lparr>fullmpt := fm, own_shared := own_shared_after srv logID witness False\<rparr>)))
      | SendAck \<Rightarrow> Inr (Done, AckAppendLog i sls srv)
      | _ \<Rightarrow> Inr (pc, srv))"

text \<open>A schedule names the thread that takes the next step.\<close>

fun run_threads ::
  "('db, 'w) env \<Rightarrow> (nat \<Rightarrow> SignedLogStatement) \<Rightarrow> nat list \<Rightarrow> (nat \<Rightarrow> append_pc) \<Rightarrow> ('db, 'w) Server
    \<Rightarrow> ((nat \<Rightarrow> append_pc) \<times> ('db, 'w) Server) go" where
  "run_threads env stmt [] pcs srv = Inr (pcs, srv)"
| "run_threads env stmt (i # is) pcs srv =
     bind_go (append_step env i (stmt i) (pcs i) srv) (\<lambda>(pc, srv). run_threads env stmt is (pcs(i := pc)) srv)"

text \<open>Without interference the steps are \<open>ProcessAppendLog\<close>.\<close>

definition pc_of :: "string option \<Rightarrow> append_pc" where
  "pc_of e = (case e of None \<Rightarrow> Done | Some x \<Rightarrow> Failed x)"

lemma append_step_simps [simp]:
  "append_step env i sls Done srv = Inr (Done, srv)" "append_step env i sls (Failed e) srv = Inr (Failed e, srv)"
  "append_step env i sls SendAck srv = Inr (Done, AckAppendLog i sls srv)"
  by (simp_all add: append_step_def)

definition index_error :: "('db, 'w) Server \<Rightarrow> bytes \<Rightarrow> 64 word \<Rightarrow> string option" where
  "index_error srv k index =
     (let ok = logIDIndex srv k \<noteq> None; idx = the (logIDIndex srv k) in
      if \<not> ok \<and> index \<noteq> 0 then Some ''Unexpected log index - expected 0''
      else if ok \<and> index \<noteq> idx + 1 then Some ''Unexpected log index'' else None)"

definition index_db :: "('db, 'w) env \<Rightarrow> ('db, 'w) Server \<Rightarrow> bytes \<Rightarrow> 64 word \<Rightarrow> 'db go" where
  "index_db env srv k index =
     (if Full srv then db_Set env (commitmentDb srv) (''idx-'' @ hex_EncodeToString k) (string_bytes (decimal (unat index)))
      else Inr (commitmentDb srv))"

lemma append_step_index:
  "append_step env i sls CheckIndex srv =
     Inr (case index_error srv (LogID (sls_Statement sls)) (Index (sls_Statement sls)) of
            None \<Rightarrow> StoreIndex | Some e \<Rightarrow> Failed e, srv)"
  "append_step env i sls StoreIndex srv =
     (let s = srv\<lparr>logIDIndex := (logIDIndex srv)(LogID (sls_Statement sls) \<mapsto> Index (sls_Statement sls))\<rparr>
      in catch_err (index_db env srv (LogID (sls_Statement sls)) (Index (sls_Statement sls)))
           (\<lambda>e. Inr (Failed e, s)) (\<lambda>db. Inr (InsertTree, s\<lparr>commitmentDb := db\<rparr>)))"
  by (simp_all add: append_step_def index_error_def index_db_def Let_def)

lemma RegisterLogStatement_split:
  "RegisterLogStatement env srv k index w sh =
     (let s = srv\<lparr>logIDIndex := (logIDIndex srv)(k \<mapsto> index)\<rparr>
      in case index_error srv k index of
           Some e \<Rightarrow> Inr (Some e, srv)
         | None \<Rightarrow> catch_err (index_db env srv k index) (\<lambda>e. Inr (Some e, s))
             (\<lambda>db. bind_go (Insert (fullmpt srv) (copy_bytes (zeros 32) k) w) (\<lambda>fm.
               Inr (None, s\<lparr>commitmentDb := db, fullmpt := fm, own_shared := own_shared_after s k w sh\<rparr>))))"
  by (simp add: RegisterLogStatement_def index_error_def index_db_def Let_def)

lemma own_shared_after_db [simp]:
  "own_shared_after (s\<lparr>commitmentDb := db\<rparr>) k w sh = own_shared_after s k w sh"
  by (simp add: own_shared_after_def split: sum.splits option.splits)

lemma go_cases:
  obtains x where "m = Inl (GoPanic x)" | x where "m = Inl (GoError x)" | y where "m = Inr y"
  by (metis go_exn.exhaust sum.exhaust)

lemma sequential_append:
  "run_threads env stmt [i, i, i, i, i] (pcs(i := VerifyKey)) srv =
     bind_go (ProcessAppendLog env i (stmt i) srv) (\<lambda>(e, srv). Inr (pcs(i := pc_of e), srv))"
proof -
  let ?sls = "stmt i"
  let ?k = "LogID (sls_Statement ?sls)" and ?x = "Index (sls_Statement ?sls)"
  let ?v = "if CheckSignatures srv then VerifyAppendLog env ?sls srv else Inr ()"
  have vk: "append_step env i ?sls VerifyKey srv = catch_err ?v (\<lambda>e. Inr (Failed e, srv)) (\<lambda>_. Inr (CheckIndex, srv))"
    by (simp add: append_step_def)
  show ?thesis
  proof (cases ?v rule: go_cases)
    case 3
    note v = vk [unfolded 3 catch_err_simps]
    note p = ProcessAppendLog_def [of env i ?sls srv, unfolded 3 catch_err_simps CommitAppendLog_def Sum256_go_eq bind_go_Inr RegisterLogStatement_split]
    show ?thesis
    proof (cases "index_error srv ?k ?x")
      case (Some e)
      then show ?thesis by (simp add: v p append_step_index pc_of_def)
    next
      case None
      show ?thesis
      proof (cases "index_db env srv ?k ?x" rule: go_cases)
        case (3 db)
        show ?thesis
          by (cases "Insert (fullmpt srv) (copy_bytes (zeros 32) ?k) (Sum256 (SignedLogStatement_Bytes ?sls))")
            (simp_all add: v p append_step_index None 3 pc_of_def append_step_def [of _ _ _ InsertTree] Sum256_go_eq Let_def)
      qed (simp_all add: v p append_step_index None pc_of_def Let_def)
    qed
  qed (simp_all add: vk ProcessAppendLog_def pc_of_def)
qed


section \<open>Threads on different logs\<close>

abbreviation log_of :: "SignedLogStatement \<Rightarrow> bytes" where
  "log_of sls \<equiv> LogID (sls_Statement sls)"

abbreviation index_of :: "SignedLogStatement \<Rightarrow> 64 word" where
  "index_of sls \<equiv> Index (sls_Statement sls)"

abbreviation witness_of :: "SignedLogStatement \<Rightarrow> bytes" where
  "witness_of sls \<equiv> Sum256 (SignedLogStatement_Bytes sls)"

definition signed_ok :: "('db, 'w) env \<Rightarrow> ('db, 'w) Server \<Rightarrow> SignedLogStatement \<Rightarrow> bool" where
  "signed_ok env srv sls \<longleftrightarrow> CheckSignatures srv \<longrightarrow> VerifyAppendLog env sls srv = Inr ()"

definition acceptable :: "('db, 'w) env \<Rightarrow> ('db, 'w) Server \<Rightarrow> SignedLogStatement \<Rightarrow> bool" where
  "acceptable env srv sls \<longleftrightarrow> signed_ok env srv sls \<and> index_of sls = GetNextLogIndex srv (log_of sls)"

definition untouched :: "('db, 'w) Server \<Rightarrow> ('db, 'w) Server \<Rightarrow> bytes \<Rightarrow> bool" where
  "untouched srv0 srv k \<longleftrightarrow> logIDIndex srv k = logIDIndex srv0 k \<and> trie_map (fullmpt srv) k = trie_map (fullmpt srv0) k"

fun thread_ok :: "('db, 'w) env \<Rightarrow> ('db, 'w) Server \<Rightarrow> SignedLogStatement \<Rightarrow> append_pc \<Rightarrow> ('db, 'w) Server \<Rightarrow> bool" where
  "thread_ok env srv0 sls VerifyKey srv \<longleftrightarrow> untouched srv0 srv (log_of sls)"
| "thread_ok env srv0 sls CheckIndex srv \<longleftrightarrow> untouched srv0 srv (log_of sls) \<and> signed_ok env srv0 sls"
| "thread_ok env srv0 sls StoreIndex srv \<longleftrightarrow> untouched srv0 srv (log_of sls) \<and> acceptable env srv0 sls"
| "thread_ok env srv0 sls InsertTree srv \<longleftrightarrow> acceptable env srv0 sls \<and> logIDIndex srv (log_of sls) = Some (index_of sls)
     \<and> trie_map (fullmpt srv) (log_of sls) = trie_map (fullmpt srv0) (log_of sls)"
| "thread_ok env srv0 sls (Failed e) srv \<longleftrightarrow> untouched srv0 srv (log_of sls) \<and> \<not> acceptable env srv0 sls"
| "thread_ok env srv0 sls _ srv \<longleftrightarrow> acceptable env srv0 sls \<and> logIDIndex srv (log_of sls) = Some (index_of sls)
     \<and> trie_map (fullmpt srv) (log_of sls) = Some (witness_of sls)"

text \<open>What every step keeps: the keys, and the server's invariant.\<close>

definition keeps :: "('db, 'w) Server \<Rightarrow> ('db, 'w) Server \<Rightarrow> bool" where
  "keeps srv0 srv \<longleftrightarrow> srv_inv srv \<and> logIDToPubKey srv = logIDToPubKey srv0 \<and> CheckSignatures srv = CheckSignatures srv0"

lemma index_error_None: "index_error srv k x = None \<longleftrightarrow> x = GetNextLogIndex srv k"
  by (auto simp: index_error_def GetNextLogIndex_def Let_def split: option.splits)

lemma VerifyAppendLog_keeps: "keeps srv0 srv \<Longrightarrow> VerifyAppendLog env sls srv = VerifyAppendLog env sls srv0"
  by (simp add: VerifyAppendLog_def GetPubKeyForLogID_def keeps_def)

lemma signed_cases:
  assumes "sls_ok sls"
  shows "VerifyAppendLog env sls srv = Inr () \<or> (\<exists>e. VerifyAppendLog env sls srv = Inl (GoError e))"
  using assms VerifySig_64
  by (auto simp: VerifyAppendLog_def GetPubKeyForLogID_def sls_VerifySignature_def sls_ok_def split: option.splits)

lemma InsertTree_step:
  assumes "keeps srv0 srv" and "sls_ok sls"
  shows "\<exists>fm. append_step env i sls InsertTree srv = Inr (SendAck, srv\<lparr>fullmpt := fm\<rparr>) \<and> keeps srv0 (srv\<lparr>fullmpt := fm\<rparr>)
    \<and> trie_map fm = (trie_map (fullmpt srv))(log_of sls \<mapsto> witness_of sls)"
proof -
  have k: "length (log_of sls) = 32" using assms(2) by (simp add: sls_ok_def ls_ok_def)
  have inv: "srv_inv srv" "\<not> own_shared srv" using assms(1) by (simp_all add: keeps_def srv_inv_def)
  obtain fm where fm: "Insert (fullmpt srv) (log_of sls) (witness_of sls) = Inr fm" "trie_inv 32 fm"
      "trie_map fm = (trie_map (fullmpt srv))(log_of sls \<mapsto> witness_of sls)"
    using Insert_ok [of 32 "fullmpt srv" "log_of sls" "witness_of sls"] inv k by (auto simp: srv_inv_def)
  have o: "own_shared_after srv (log_of sls) (witness_of sls) False = own_shared srv"
    using inv(2) by (auto simp: own_shared_after_def split: sum.splits option.splits)
  have "append_step env i sls InsertTree srv = Inr (SendAck, srv\<lparr>fullmpt := fm, own_shared := own_shared srv\<rparr>)"
    using fm(1) k o by (simp add: append_step_def Sum256_go_eq Let_def)
  moreover have "srv\<lparr>fullmpt := fm, own_shared := own_shared srv\<rparr> = srv\<lparr>fullmpt := fm\<rparr>" by (cases srv) simp
  moreover have "keeps srv0 (srv\<lparr>fullmpt := fm\<rparr>)" using assms(1) fm(2) by (simp add: keeps_def srv_inv_def)
  ultimately show ?thesis using fm(3) by auto
qed

lemma AckAppendLog_keeps:
  assumes "keeps srv0 srv" and "sls_ok sls"
  shows "keeps srv0 (AckAppendLog i sls srv)" and "logIDIndex (AckAppendLog i sls srv) = logIDIndex srv"
    and "trie_map (fullmpt (AckAppendLog i sls srv)) = trie_map (fullmpt srv)"
proof -
  let ?s = "SubscribeToLog i (log_of sls) srv"
  have "length (log_of sls) = 32" using assms(2) by (simp add: sls_ok_def ls_ok_def)
  then have "srv_inv (AckAppendLog i sls srv)" using assms(1) by (simp add: keeps_def AckAppendLog_def)
  moreover have "same_core (AckAppendLog i sls srv) srv"
    unfolding AckAppendLog_def by (rule same_core_trans [OF lp_write_inv(2) SubscribeToLog_inv(2)])
  ultimately show "keeps srv0 (AckAppendLog i sls srv)" "logIDIndex (AckAppendLog i sls srv) = logIDIndex srv"
      "trie_map (fullmpt (AckAppendLog i sls srv)) = trie_map (fullmpt srv)"
    using assms(1) by (simp_all add: keeps_def same_core_def)
qed

lemma VerifyKey_step:
  "keeps srv0 srv \<Longrightarrow> signed_ok env srv0 sls \<Longrightarrow> append_step env i sls VerifyKey srv = Inr (CheckIndex, srv)"
  using VerifyAppendLog_keeps [of srv0 srv env sls] by (simp add: append_step_def signed_ok_def keeps_def)

lemma StoreIndex_step:
  "\<not> Full srv \<Longrightarrow> append_step env i sls StoreIndex srv =
     Inr (InsertTree, srv\<lparr>logIDIndex := (logIDIndex srv)(log_of sls \<mapsto> index_of sls)\<rparr>)"
  by (simp add: append_step_index index_db_def Let_def)

text \<open>A step of a thread keeps its own claim and does not touch another log.\<close>

lemma append_step_ok:
  assumes k: "keeps srv0 srv" and ok: "sls_ok sls" and t: "thread_ok env srv0 sls pc srv"
  shows "\<exists>pc' srv'. append_step env i sls pc srv = Inr (pc', srv') \<and> keeps srv0 srv' \<and> thread_ok env srv0 sls pc' srv'
    \<and> (\<forall>l. l \<noteq> log_of sls \<longrightarrow> untouched srv srv' l)"
proof (cases pc)
  case VerifyKey
  have c: "CheckSignatures srv = CheckSignatures srv0" using k by (simp add: keeps_def)
  show ?thesis using t k signed_cases [OF ok, of env srv0]
    by (auto simp: VerifyKey append_step_def c VerifyAppendLog_keeps [OF k] signed_ok_def acceptable_def untouched_def)
next
  case CheckIndex
  have "GetNextLogIndex srv (log_of sls) = GetNextLogIndex srv0 (log_of sls)" using t by (simp add: CheckIndex GetNextLogIndex_def untouched_def)
  then show ?thesis using t k index_error_None [of srv "log_of sls" "index_of sls"]
    by (auto simp: CheckIndex append_step_index acceptable_def untouched_def split: option.splits)
next
  case StoreIndex
  have "\<not> Full srv" using k by (simp add: keeps_def srv_inv_def)
  then show ?thesis using t k
    by (auto simp: StoreIndex append_step_index index_db_def Let_def untouched_def keeps_def srv_inv_def)
next
  case InsertTree
  obtain fm where "append_step env i sls InsertTree srv = Inr (SendAck, srv\<lparr>fullmpt := fm\<rparr>)" "keeps srv0 (srv\<lparr>fullmpt := fm\<rparr>)"
      "trie_map fm = (trie_map (fullmpt srv))(log_of sls \<mapsto> witness_of sls)"
    using InsertTree_step [OF k ok] by blast
  then show ?thesis using t by (auto simp: InsertTree untouched_def)
next
  case SendAck
  then show ?thesis using t AckAppendLog_keeps [OF k ok] by (simp add: untouched_def)
qed (use t k in \<open>auto simp: untouched_def\<close>)


definition threads_inv ::
  "('db, 'w) env \<Rightarrow> ('db, 'w) Server \<Rightarrow> (nat \<Rightarrow> SignedLogStatement) \<Rightarrow> nat set \<Rightarrow> (nat \<Rightarrow> append_pc) \<Rightarrow> ('db, 'w) Server \<Rightarrow> bool" where
  "threads_inv env srv0 stmt T pcs srv \<longleftrightarrow> keeps srv0 srv \<and> (\<forall>i \<in> T. thread_ok env srv0 (stmt i) (pcs i) srv)
     \<and> (\<forall>k. k \<notin> (\<lambda>i. log_of (stmt i)) ` T \<longrightarrow> untouched srv0 srv k)"

lemma thread_ok_untouched:
  "untouched srv srv' (log_of sls) \<Longrightarrow> thread_ok env srv0 sls pc srv \<Longrightarrow> thread_ok env srv0 sls pc srv'"
  by (cases pc) (simp_all add: untouched_def)

lemma threads_inv_step:
  assumes inv: "threads_inv env srv0 stmt T pcs srv" and i: "i \<in> T" and ok: "\<forall>i \<in> T. sls_ok (stmt i)"
    and inj: "inj_on (\<lambda>i. log_of (stmt i)) T"
  shows "\<exists>pc srv'. append_step env i (stmt i) (pcs i) srv = Inr (pc, srv') \<and> threads_inv env srv0 stmt T (pcs(i := pc)) srv'"
proof -
  obtain pc srv' where s: "append_step env i (stmt i) (pcs i) srv = Inr (pc, srv')" "keeps srv0 srv'"
      "thread_ok env srv0 (stmt i) pc srv'" "\<forall>l. l \<noteq> log_of (stmt i) \<longrightarrow> untouched srv srv' l"
    using append_step_ok [of srv0 srv "stmt i" env "pcs i" i] inv i ok by (auto simp: threads_inv_def)
  have "thread_ok env srv0 (stmt j) (pcs j) srv'" if "j \<in> T" "j \<noteq> i" for j
  proof -
    have "log_of (stmt j) \<noteq> log_of (stmt i)" using inj i that by (auto simp: inj_on_def)
    then show ?thesis using s(4) inv that(1) thread_ok_untouched by (metis threads_inv_def)
  qed
  moreover have "untouched srv0 srv' k" if k: "k \<notin> (\<lambda>i. log_of (stmt i)) ` T" for k
  proof -
    have "k \<noteq> log_of (stmt i)" "untouched srv0 srv k" using k i inv by (auto simp: threads_inv_def)
    then show ?thesis using s(4) by (simp add: untouched_def)
  qed
  ultimately show ?thesis using s(1-3) by (intro exI [of _ pc] exI [of _ srv']) (simp add: threads_inv_def)
qed

text \<open>The steps a thread has left.\<close>

fun steps_left :: "append_pc \<Rightarrow> nat" where
  "steps_left VerifyKey = 5"
| "steps_left CheckIndex = 4"
| "steps_left StoreIndex = 3"
| "steps_left InsertTree = 2"
| "steps_left SendAck = 1"
| "steps_left _ = 0"

lemma append_step_left: "append_step env i sls pc srv = Inr (pc', srv') \<Longrightarrow> steps_left pc' \<le> steps_left pc - 1"
  by (cases pc) (auto simp: append_step_def Let_def go_simps split: if_splits)

lemma run_threads_ok:
  assumes "\<forall>i \<in> T. sls_ok (stmt i)" and "inj_on (\<lambda>i. log_of (stmt i)) T"
  shows "threads_inv env srv0 stmt T pcs srv \<Longrightarrow> set is \<subseteq> T \<Longrightarrow>
    \<exists>pcs' srv'. run_threads env stmt is pcs srv = Inr (pcs', srv') \<and> threads_inv env srv0 stmt T pcs' srv'
      \<and> (\<forall>i. steps_left (pcs' i) \<le> steps_left (pcs i) - count_list is i)"
proof (induction "is" arbitrary: pcs srv)
  case (Cons i "is")
  obtain pc s where s: "append_step env i (stmt i) (pcs i) srv = Inr (pc, s)" "threads_inv env srv0 stmt T (pcs(i := pc)) s"
    using threads_inv_step [OF Cons.prems(1) _ assms, of i] Cons.prems(2) by (metis list.set_intros(1) subsetD)
  obtain pcs' s' where r: "run_threads env stmt is (pcs(i := pc)) s = Inr (pcs', s')" "threads_inv env srv0 stmt T pcs' s'"
      "\<forall>j. steps_left (pcs' j) \<le> steps_left ((pcs(i := pc)) j) - count_list is j"
    using Cons.IH [OF s(2)] Cons.prems(2) unfolding list.set insert_subset by blast
  have "steps_left (pcs' j) \<le> steps_left (pcs j) - count_list (i # is) j" for j
    using r(3) [rule_format, of j] append_step_left [OF s(1)] by (cases "i = j") auto
  then show ?case using s(1) r(1,2) by auto
qed auto

lemma steps_left_0: "steps_left pc = 0 \<Longrightarrow> pc = Done \<or> (\<exists>e. pc = Failed e)"
  by (cases pc) simp_all

definition ex_stmt :: "nat \<Rightarrow> SignedLogStatement" where
  "ex_stmt i = \<lparr>sls_Signature = zeros 64, sls_Statement = \<lparr>LogID = replicate 32 (word_of_nat i), Index = 0, Statement = []\<rparr>\<rparr>"

lemma ex_stmt_acceptable: "acceptable ex_env (ex_start False) (ex_stmt i)"
  by (simp add: acceptable_def signed_ok_def GetNextLogIndex_def NewServer_def ex_stmt_def)

section \<open>Properties\<close>

text \<open>
  C15. Appends to different logs may be interleaved in any way. When each connection has taken its five
  steps, every thread has ended; it has acknowledged its statement exactly when the statement was
  signed and carried the next index before any of them ran. The index and the value of each log are
  then those of its accepted statement, and nothing else has changed.
\<close>

theorem concurrent_appends:
  assumes "srv_inv srv" and "\<forall>i \<in> T. sls_ok (stmt i)" and "inj_on (\<lambda>i. log_of (stmt i)) T"
    and "set is \<subseteq> T" and "\<forall>i \<in> T. 5 \<le> count_list is i"
  shows "\<exists>pcs srv'. run_threads env stmt is (\<lambda>_. VerifyKey) srv = Inr (pcs, srv') \<and> srv_inv srv'
    \<and> logIDToPubKey srv' = logIDToPubKey srv
    \<and> (\<forall>i \<in> T. if acceptable env srv (stmt i)
         then pcs i = Done \<and> logIDIndex srv' (log_of (stmt i)) = Some (index_of (stmt i))
           \<and> trie_map (fullmpt srv') (log_of (stmt i)) = Some (witness_of (stmt i))
         else (\<exists>e. pcs i = Failed e) \<and> untouched srv srv' (log_of (stmt i)))
    \<and> (\<forall>k. k \<notin> (\<lambda>i. log_of (stmt i)) ` T \<longrightarrow> untouched srv srv' k)"
proof -
  have "threads_inv env srv stmt T (\<lambda>_. VerifyKey) srv" using assms(1) by (simp add: threads_inv_def keeps_def untouched_def)
  from run_threads_ok [OF assms(2,3) this assms(4)] obtain pcs srv' where
    r: "run_threads env stmt is (\<lambda>_. VerifyKey) srv = Inr (pcs, srv')" "threads_inv env srv stmt T pcs srv'"
      "\<And>i. steps_left (pcs i) \<le> 5 - count_list is i" by auto
  have "if acceptable env srv (stmt i)
      then pcs i = Done \<and> logIDIndex srv' (log_of (stmt i)) = Some (index_of (stmt i))
        \<and> trie_map (fullmpt srv') (log_of (stmt i)) = Some (witness_of (stmt i))
      else (\<exists>e. pcs i = Failed e) \<and> untouched srv srv' (log_of (stmt i))" if i: "i \<in> T" for i
  proof -
    have "steps_left (pcs i) = 0" using r(3) [of i] assms(5) i by auto
    moreover have "thread_ok env srv (stmt i) (pcs i) srv'" using r(2) i by (simp add: threads_inv_def)
    ultimately show ?thesis using steps_left_0 [of "pcs i"] by auto
  qed
  then show ?thesis using r(1,2) by (auto simp: threads_inv_def keeps_def)
qed

theorem concurrent_appends_witness:
  "\<exists>pcs srv'. run_threads ex_env ex_stmt [0, 1, 1, 0, 0, 0, 1, 1, 1, 0] (\<lambda>_. VerifyKey) (ex_start False) = Inr (pcs, srv')
    \<and> pcs 0 = Done \<and> pcs 1 = Done"
proof -
  have "srv_inv (ex_start False)" "\<forall>i \<in> {0, 1}. sls_ok (ex_stmt i)" "inj_on (\<lambda>i. log_of (ex_stmt i)) {0, 1}"
      "set [0, 1, 1, 0, 0, 0, 1, 1, 1, 0] \<subseteq> {0, 1 :: nat}" "\<forall>i \<in> {0, 1}. 5 \<le> count_list [0, 1, 1, 0, 0, 0, 1, 1, 1, 0] (i :: nat)"
    using implements_init [where w = "()" and db = "()" and chk = False]
    by (simp_all add: implements_def ex_stmt_def sls_ok_def ls_ok_def maxAlloc_def)
  from concurrent_appends [OF this, of ex_env] show ?thesis
    using ex_stmt_acceptable by (auto simp: less_Suc_eq)
qed

text \<open>
  C34. Appends to the same log are not ordered by the index. For two different statements that both carry
  the next index there is a schedule in which both connections are told that their statement was
  accepted, although one index was given away: the tree keeps the statement inserted last and the
  other one is lost.
\<close>

theorem append_race:
  assumes "srv_inv srv" and "sls_ok (stmt 0)" and "sls_ok (stmt 1)" and "log_of (stmt 1) = log_of (stmt 0)"
    and "acceptable env srv (stmt 0)" and "acceptable env srv (stmt 1)"
  shows "\<exists>pcs srv'. run_threads env stmt [0, 1, 0, 1, 0, 1, 0, 1, 0, 1] (\<lambda>_. VerifyKey) srv = Inr (pcs, srv')
      \<and> pcs 0 = Done \<and> pcs 1 = Done \<and> logIDIndex srv' (log_of (stmt 0)) = Some (index_of (stmt 0))
      \<and> trie_map (fullmpt srv') (log_of (stmt 0)) = Some (witness_of (stmt 1))"
proof -
  note a0 = conjunct1 [OF assms(5) [unfolded acceptable_def]] and a1 = conjunct1 [OF assms(6) [unfolded acceptable_def]]
  let ?k = "log_of (stmt 0)" and ?x = "index_of (stmt 0)"
  have x: "index_of (stmt 1) = ?x" "GetNextLogIndex srv ?k = ?x" using assms(4-6) by (simp_all add: acceptable_def)
  have nf: "\<not> Full srv" using assms(1) by (simp add: srv_inv_def)
  let ?s = "srv\<lparr>logIDIndex := (logIDIndex srv)(?k \<mapsto> ?x)\<rparr>"
  have k: "keeps srv srv" "keeps srv ?s" using assms(1) by (simp_all add: keeps_def srv_inv_def)
  note v = VerifyKey_step [OF k(1) a0] VerifyKey_step [OF k(1) a1]
  have c: "append_step env 0 (stmt 0) CheckIndex srv = Inr (StoreIndex, srv)" "append_step env 1 (stmt 1) CheckIndex srv = Inr (StoreIndex, srv)"
    using x assms(4) index_error_None [of srv ?k ?x] by (simp_all add: append_step_index)
  have st: "append_step env 0 (stmt 0) StoreIndex srv = Inr (InsertTree, ?s)" "append_step env 1 (stmt 1) StoreIndex ?s = Inr (InsertTree, ?s)"
    using nf x(1) assms(4) by (simp_all add: StoreIndex_step)
  obtain fm0 where f0: "append_step env 0 (stmt 0) InsertTree ?s = Inr (SendAck, ?s\<lparr>fullmpt := fm0\<rparr>)" "keeps srv (?s\<lparr>fullmpt := fm0\<rparr>)"
    using InsertTree_step [OF k(2) assms(2), of env 0] by blast
  obtain fm1 where f1: "append_step env 1 (stmt 1) InsertTree (?s\<lparr>fullmpt := fm0\<rparr>) = Inr (SendAck, ?s\<lparr>fullmpt := fm0\<rparr>\<lparr>fullmpt := fm1\<rparr>)"
      "keeps srv (?s\<lparr>fullmpt := fm0\<rparr>\<lparr>fullmpt := fm1\<rparr>)" "trie_map fm1 = (trie_map fm0)(?k \<mapsto> witness_of (stmt 1))"
    using InsertTree_step [OF f0(2) assms(3), of env 1] assms(4) by auto
  let ?t = "AckAppendLog 0 (stmt 0) (?s\<lparr>fullmpt := fm0\<rparr>\<lparr>fullmpt := fm1\<rparr>)"
  note ack = AckAppendLog_keeps [OF f1(2) assms(2), of 0]
  note ack' = AckAppendLog_keeps [OF ack(1) assms(3), of 1]
  show ?thesis
    using v c st f0(1) f1 ack(2,3) ack'(2,3) by simp
qed


theorem append_race_witness:
  "\<exists>pcs srv'. run_threads ex_env (\<lambda>i. ex_sls\<lparr>sls_Signature := replicate 64 (word_of_nat i)\<rparr>)
      [0, 1, 0, 1, 0, 1, 0, 1, 0, 1] (\<lambda>_. VerifyKey) (ex_start False) = Inr (pcs, srv') \<and> pcs 0 = Done \<and> pcs 1 = Done"
proof -
  let ?stmt = "\<lambda>i. ex_sls\<lparr>sls_Signature := replicate 64 (word_of_nat i)\<rparr>"
  have i: "srv_inv (ex_start False)" using implements_init [where w = "()" and db = "()" and chk = False] by (simp add: implements_def)
  have a: "sls_ok (?stmt i)" "acceptable ex_env (ex_start False) (?stmt i)" "log_of (?stmt i) = zeros 32" for i
    by (simp_all add: sls_ok_def ls_ok_def ex_sls_def maxAlloc_def acceptable_def signed_ok_def GetNextLogIndex_def NewServer_def)
  have "log_of (?stmt 1) = log_of (?stmt 0)" unfolding a(3) ..
  from append_race [where stmt = ?stmt, OF i a(1) a(1) this a(2) a(2)] show ?thesis by blast
qed

end
