(* ===== verification/Bv_Server_Full.thy ===== *)
theory Bv_Server_Full
  imports Bv_Server_Props
begin

text \<open>
  A server that runs on the chain: the start sequence of \<open>Run\<close> and the commitments that follow
  on a server without clients, followed through in every detail of the tree. The server's own log
  (the one with the all-zero ID) is the only leaf.
\<close>

section \<open>Starting\<close>

text \<open>
  \<open>Run\<close> from opening the database to accepting connections. \<open>trigger\<close> is the random value;
  the errors of \<open>loadState\<close> and \<open>RegisterLogStatement\<close> are dropped. Waiting for the
  wallet is left out.
\<close>

definition Run_start :: "('db, 'w) env \<Rightarrow> bytes \<Rightarrow> ('db, 'w) Server \<Rightarrow> ('db, 'w) Server go" where
  "Run_start env trigger srv =
     bind_go
       (if Full srv then
          bind_go (loadState srv) (\<lambda>(_, srv).
          bind_go (loadCommitments env srv) (\<lambda>srv.
          let srv = loadLogs env srv in
          bind_go (RegisterLogStatement env srv null_id (GetNextLogIndex srv null_id) trigger False) (\<lambda>(_, srv).
          Inr srv)))
        else Inr srv)
       (maiden env)"

section \<open>The tree of a server without clients\<close>

abbreviation own_tree :: "bytes \<Rightarrow> bool \<Rightarrow> bool \<Rightarrow> bytes \<Rightarrow> bytes \<Rightarrow> bool \<Rightarrow> bool \<Rightarrow> FullMPT" where
  "own_tree h rc ch v lh lch lrc \<equiv> \<lparr>fm_root = InteriorNode h rc ch (DictionaryLeafNode null_id v lh lch lrc) EmptyLeafNode\<rparr>"

definition own_digest :: "bytes \<Rightarrow> bytes" where
  "own_digest v = Sum256 (null_id @ v)"

definition root_digest :: "bytes \<Rightarrow> bytes" where
  "root_digest lh = Sum256 (lh @ zeros 32)"

lemma length_digests [simp]: "length (own_digest v) = 32" "length (root_digest v) = 32"
  by (simp_all add: own_digest_def root_digest_def)

lemma GetBit_null: "GetBit null_id 0 = Inr False"
  by (simp add: GetBit_def)

lemma Insert_own:
  "Insert NewFullMPT null_id v = Inr (own_tree (zeros 32) True True v (zeros 32) True True)"
  "Insert (own_tree h rc ch u lh lch lrc) null_id v =
     Inr (if u = v then own_tree h True True u lh lch lrc else own_tree h True True v lh True True)"
  by (simp_all add: Insert_def NewFullMPT_def NewInteriorNode_def NewDictionaryLeafNode_def GetBit_null
      insertHelper.simps [of _ _ _ "InteriorNode _ _ _ _ _"] insertHelper.simps [of _ _ _ "DictionaryLeafNode _ _ _ _ _"]
      insertHelper.simps [of _ _ _ EmptyLeafNode])

lemma Get_own:
  "Get NewFullMPT null_id = Inr None" "Get (own_tree h rc ch u lh lch lrc) null_id = Inr (Some u)"
  by (simp_all add: Get_def NewFullMPT_def NewInteriorNode_def GetBit_null
      getHelper.simps [of "InteriorNode _ _ _ _ _"] getHelper.simps [of "DictionaryLeafNode _ _ _ _ _"] getHelper.simps [of EmptyLeafNode])

lemma Commitment_own:
  assumes "length h = 32" and "length lh = 32"
  shows "Commitment (own_tree h True ch v lh lch True) =
      Inr (root_digest (own_digest v), own_tree (root_digest (own_digest v)) False ch v (own_digest v) lch False)"
    and "Commitment (own_tree h True ch v lh lch False) = Inr (root_digest lh, own_tree (root_digest lh) False ch v lh lch False)"
    and "Commitment (own_tree h False ch v lh lch lrc) = Inr (h, own_tree h False ch v lh lch lrc)"
  using assms by (simp_all add: Commitment_def WitnessKeyAndValue_go_eq Sum256_go_eq own_digest_def root_digest_def emptyLeafNodeHash_def Let_def)


lemma Copy_own:
  "length h = 32 \<Longrightarrow> length lh = 32 \<Longrightarrow> FullMPT_Copy (own_tree h rc ch v lh lch lrc) = Inr (own_tree h False True v lh True False)"
  by (simp add: FullMPT_Copy_def NewInteriorNodeWithCachedHash_def NewDictionaryLeafNodeCachedHash_def newFullMPTWithRoot_def)

lemma Reset_own: "Reset (own_tree h rc ch v lh lch lrc) = Inr (own_tree h rc False v lh False lrc)"
  by (cases lch) (simp_all add: Reset_def)

lemma NewDelta_own:
  assumes "length lh = 32"
  shows "\<exists>d d'. NewDeltaMPT (own_tree h rc ch v lh lch False) = Inr (d, own_tree h rc ch v lh lch False) \<and> DeltaMPT_Dispose d = Inr d'"
  using assms
  by (cases lch) (simp_all add: NewDeltaMPT_def copyChangesOnlyHelper.simps [of "DictionaryLeafNode _ _ _ _ _"]
      copyChangesOnlyHelper.simps [of EmptyLeafNode] DeltaMPT_Dispose_def NewInteriorNode_def NewStub_def
      NewDictionaryLeafNodeCachedHash_def Let_def)

section \<open>Commitments of a server without clients\<close>

text \<open>A database and a wallet that always succeed.\<close>

definition chain_ok :: "('db, 'w) env \<Rightarrow> bool" where
  "chain_ok env \<longleftrightarrow> (\<forall>db k v. \<exists>db'. db_Set env db k v = Inr db') \<and> (\<forall>w c. \<exists>t raw w'. wallet_Commit env w c = Inr (t, raw, w'))"

lemma chain_okD:
  "chain_ok env \<Longrightarrow> \<exists>db'. db_Set env db k v = Inr db'" "chain_ok env \<Longrightarrow> \<exists>t raw w'. wallet_Commit env w c = Inr (t, raw, w')"
  by (simp_all add: chain_ok_def)

definition quiet :: "('db, 'w) Server \<Rightarrow> bool" where
  "quiet srv \<longleftrightarrow> Full srv \<and> KeepCommitmentTree srv \<and> processors srv = [] \<and> length (lastCommitment srv) = 32
     \<and> (\<forall>m. LastCommitMpt srv = Some m \<longrightarrow> (\<exists>m'. FullMPT_Dispose m = Inr m'))
     \<and> (\<forall>d. lastDelta srv = Some d \<longrightarrow> (\<exists>d'. DeltaMPT_Dispose d = Inr d'))"

lemma RegisterLogStatement_own:
  assumes "chain_ok env" and "Full srv" and "fullmpt srv = own_tree h rc ch u lh lch lrc" and "length v = 32"
  shows "\<exists>srv' db. RegisterLogStatement env srv null_id (GetNextLogIndex srv null_id) v sh = Inr (None, srv')
    \<and> srv' = srv\<lparr>logIDIndex := (logIDIndex srv)(null_id \<mapsto> GetNextLogIndex srv null_id), commitmentDb := db,
        fullmpt := (if u = v then own_tree h True True u lh lch lrc else own_tree h True True v lh True True),
        own_shared := (if u = v then own_shared srv else sh)\<rparr>"
proof -
  obtain db where db: "db_Set env (commitmentDb srv) (''idx-'' @ hex_EncodeToString null_id)
      (string_bytes (decimal (unat (GetNextLogIndex srv null_id)))) = Inr db"
    using chain_okD(1) [OF assms(1)] by blast
  show ?thesis
    using assms(2-4) db Insert_own(2) [of h rc ch u lh lch lrc v]
    by (cases "logIDIndex srv null_id")
      (auto simp: RegisterLogStatement_def GetNextLogIndex_def Let_def own_shared_after_def Get_own)
qed

lemma saveCommitment_own:
  assumes "chain_ok env" and "Commitment_Bytes c = Inr b" and "cm_Commitment c \<notin> cm_Commitment ` set (commitments srv)"
  shows "\<exists>lh db. saveCommitment env c srv = Inr (srv\<lparr>LastCommitHeight := lh, commitments := commitments srv @ [c], commitmentDb := db\<rparr>)"
proof -
  have n: "filter (\<lambda>i. cm_Commitment (commitments srv ! i) = cm_Commitment c) [0..<length (commitments srv)] = []"
    using assms(3) by (auto simp: filter_empty_conv image_iff) (metis nth_mem)
  obtain db where db: "db_Set env (commitmentDb srv) (''commitment-'' @ hex_EncodeToString (cm_Commitment c)) b = Inr db"
    using chain_okD(1) [OF assms(1)] by blast
  let ?l = "if cm_TriggeredAtBlockHeight c > LastCommitHeight srv then cm_TriggeredAtBlockHeight c else LastCommitHeight srv"
  have "saveCommitment env c srv = Inr (srv\<lparr>LastCommitHeight := ?l, commitments := commitments srv @ [c], commitmentDb := db\<rparr>)"
    using n db assms(2) by (cases srv) (auto simp: saveCommitment_def Let_def)
  then show ?thesis by blast
qed

lemma NewCommitment_Bytes: "\<exists>b. Commitment_Bytes (NewCommitment c t raw h) = Inr b"
  by (simp add: Commitment_Bytes_def NewCommitment_def MerkleProof_Bytes_def)


definition own_after :: "bytes \<Rightarrow> bytes \<Rightarrow> bytes \<Rightarrow> bool \<Rightarrow> FullMPT \<times> bool" where
  "own_after c v lh sh =
     (if v = c then (own_tree c True True v lh False False, sh) else (own_tree c True True c lh True True, True))"

lemma Commit_own:
  assumes ok: "chain_ok env" and q: "quiet srv" and l: "length c = 32" "length lh = 32"
    and c: "srv_Commitment srv = Inr (c, srv\<lparr>fullmpt := own_tree c False ch v lh lch False\<rparr>)"
    and new: "lastCommitment srv \<noteq> c" "c \<notin> cm_Commitment ` set (commitments srv)"
  shows "\<exists>srv'. Commit env srv = Inr (None, srv') \<and> quiet srv' \<and> lastCommitment srv' = c
    \<and> map cm_Commitment (commitments srv') = map cm_Commitment (commitments srv) @ [c]
    \<and> (fullmpt srv', own_shared srv') = own_after c v lh (own_shared srv)"
proof -
  let ?t = "own_tree c False ch v lh lch False"
  obtain d d' where d: "NewDeltaMPT ?t = Inr (d, ?t)" "DeltaMPT_Dispose d = Inr d'" using NewDelta_own [OF l(2)] by blast
  have dis: "(case LastCommitMpt srv of None \<Rightarrow> Inr () | Some m \<Rightarrow> bind_go (FullMPT_Dispose m) (\<lambda>_. Inr ())) = Inr ()"
      "(case lastDelta srv of None \<Rightarrow> Inr () | Some d \<Rightarrow> bind_go (DeltaMPT_Dispose d) (\<lambda>_. Inr ())) = Inr ()"
    using q by (auto simp: quiet_def split: option.splits)
  obtain t raw w where w: "wallet_Commit env (wallet srv) c = Inr (t, raw, w)" using chain_okD(2) [OF ok] by blast
  let ?m = "own_tree c False True v lh True False"
  let ?c = "NewCommitment c (Some t) raw (wallet_Height env w)"
  let ?s = "srv\<lparr>lastCommitment := c, LastCommitMpt := Some ?m, lastDelta := Some d, fullmpt := own_tree c False False v lh False False, wallet := w\<rparr>"
  obtain b where b: "Commitment_Bytes ?c = Inr b" using NewCommitment_Bytes by blast
  obtain lch2 db where sv: "saveCommitment env ?c ?s = Inr (?s\<lparr>LastCommitHeight := lch2, commitments := commitments srv @ [?c], commitmentDb := db\<rparr>)"
    using saveCommitment_own [OF ok b, of ?s] new(2) by (auto simp: NewCommitment_def)
  let ?s2 = "?s\<lparr>LastCommitHeight := lch2, commitments := commitments srv @ [?c], commitmentDb := db,
      state_file := Some \<lparr>LastCommitmentTree = FullMPT_Bytes ?m, LastConfirmedCommitmentTree = map_option FullMPT_Bytes (LastConfirmedCommitMpt srv)\<rparr>\<rparr>"
  have cs: "commitState (?s\<lparr>LastCommitHeight := lch2, commitments := commitments srv @ [?c], commitmentDb := db\<rparr>) = Inr ?s2"
    by (simp add: commitState_def)
  obtain s3 db2 where r: "RegisterLogStatement env ?s2 null_id (GetNextLogIndex ?s2 null_id) c True = Inr (None, s3)"
      "s3 = ?s2\<lparr>logIDIndex := (logIDIndex ?s2)(null_id \<mapsto> GetNextLogIndex ?s2 null_id), commitmentDb := db2,
        fullmpt := (if v = c then own_tree c True True v lh False False else own_tree c True True c lh True True),
        own_shared := (if v = c then own_shared ?s2 else True)\<rparr>"
    using RegisterLogStatement_own [OF ok, of ?s2 c False False v lh False False c True] q l by (auto simp: quiet_def)
  have cp: "FullMPT_Copy ?t = Inr ?m" using Copy_own l by simp
  have "Commit env srv = Inr (None, s3)"
    unfolding Commit_def c bind_go_Inr prod.case
    using new(1) q l cp dis d(1) w sv cs r(1) by (simp add: Let_def quiet_def Reset_own)
  moreover have "quiet s3" using q l(1) d(2) unfolding r(2) by (simp add: quiet_def FullMPT_Dispose_def)
  moreover have "lastCommitment s3 = c" "map cm_Commitment (commitments s3) = map cm_Commitment (commitments srv) @ [c]"
      "(fullmpt s3, own_shared s3) = own_after c v lh (own_shared srv)"
    unfolding r(2) own_after_def by (simp_all add: NewCommitment_def)
  ultimately show ?thesis by blast
qed


section \<open>A fresh server\<close>

abbreviation fresh_server :: "'w \<Rightarrow> 'db \<Rightarrow> ('db, 'w) Server" where
  "fresh_server w db \<equiv> NewServer w db\<lparr>Full := True\<rparr>"

definition first_digest :: "bytes \<Rightarrow> bytes" where
  "first_digest v = root_digest (own_digest v)"

lemma length_first_digest [simp]: "length (first_digest v) = 32"
  by (simp add: first_digest_def)

lemma loads_nothing:
  assumes "\<And>a b. db_AscendRange env db a b = []"
  shows "loadState (fresh_server w db) = Inr (Some ''no such file'', fresh_server w db)"
    and "loadCommitments env (fresh_server w db) = Inr (fresh_server w db)"
    and "loadLogs env (fresh_server w db) = fresh_server w db"
  using assms by (simp_all add: loadState_def loadCommitments_def loadLogs_def NewServer_def order_commitments.simps)

lemma Run_start_fresh:
  assumes ok: "chain_ok env" and empty: "\<And>a b. db_AscendRange env db a b = []" and t: "length trigger = 32"
    and nz: "first_digest trigger \<noteq> zeros 32"
  shows "\<exists>srv. Run_start env trigger (fresh_server w db) = Inr srv \<and> quiet srv
    \<and> lastCommitment srv = first_digest trigger \<and> map cm_Commitment (commitments srv) = [first_digest trigger]
    \<and> (fullmpt srv, own_shared srv) = own_after (first_digest trigger) trigger (own_digest trigger) False"
proof -
  let ?f = "fresh_server w db"
  obtain db1 where db1: "db_Set env db (''idx-'' @ hex_EncodeToString null_id) (string_bytes (decimal (unat (0 :: 64 word)))) = Inr db1"
    using chain_okD(1) [OF ok] by blast
  let ?s1 = "?f\<lparr>logIDIndex := [null_id \<mapsto> 0], commitmentDb := db1, fullmpt := own_tree (zeros 32) True True trigger (zeros 32) True True, own_shared := False\<rparr>"
  have r1: "RegisterLogStatement env ?f null_id (GetNextLogIndex ?f null_id) trigger False = Inr (None, ?s1)"
    using db1 t by (simp add: RegisterLogStatement_def GetNextLogIndex_def Let_def own_shared_after_def Get_own Insert_own NewServer_def)
  obtain db2 where db2: "db_Set env db1 (''key-'' @ hex_EncodeToString null_id) (zeros 33) = Inr db2"
    using chain_okD(1) [OF ok] by blast
  let ?s2 = "?s1\<lparr>logIDToPubKey := [null_id \<mapsto> zeros 33], commitmentDb := db2\<rparr>"
  have r2: "RegisterLogID env ?s1 null_id (zeros 33) = Inr (None, ?s2)"
    using db2 by (simp add: RegisterLogID_def Let_def NewServer_def)
  have r3: "RegisterLogStatement env ?s2 null_id 0 x False = Inr (Some ''Unexpected log index'', ?s2)" for x
    by (simp add: RegisterLogStatement_def Let_def)
  have c: "srv_Commitment ?s2 = Inr (first_digest trigger,
      ?s2\<lparr>fullmpt := own_tree (first_digest trigger) False True trigger (own_digest trigger) True False\<rparr>)"
    using Commitment_own(1) [of "zeros 32" "zeros 32" True trigger True] by (simp add: srv_Commitment_def first_digest_def)
  have "quiet ?s2" by (simp add: quiet_def NewServer_def)
  from Commit_own [OF ok this _ _ c] obtain s3 where s3: "Commit env ?s2 = Inr (None, s3)" "quiet s3" "lastCommitment s3 = first_digest trigger"
      "map cm_Commitment (commitments s3) = [first_digest trigger]"
      "(fullmpt s3, own_shared s3) = own_after (first_digest trigger) trigger (own_digest trigger) False"
    using nz by (auto simp: NewServer_def)
  have "commitments ?s1 = []" by (simp add: NewServer_def)
  then have m: "maiden env ?s1 = Inr (s3\<lparr>isReady := True\<rparr>)"
    unfolding maiden_def r2 bind_go_Inr prod.case Sum256_go_eq r3 s3(1) option.case by (simp only: simp_thms if_False)
  have full: "Full ?f" by simp
  have "Run_start env trigger ?f = Inr (s3\<lparr>isReady := True\<rparr>)"
    unfolding Run_start_def if_P [OF full] loads_nothing(1) [OF empty] bind_go_Inr prod.case
      loads_nothing(2) [OF empty] loads_nothing(3) [OF empty] Let_def r1 m ..
  then show ?thesis using s3 by (auto simp: quiet_def)
qed

lemma order_panics:
  assumes "cs \<noteq> []" and "MaidenHash \<notin> cm_Commitment ` set cs"
  shows "is_panic (order_commitments cs [])"
proof -
  have "find (\<lambda>c. cm_Commitment c = MaidenHash) cs = None" using assms(2) by (fastforce simp: find_None_iff image_iff)
  then show ?thesis using assms(1) by (subst order_commitments.simps) simp
qed

text \<open>A chain on which every commitment succeeds.\<close>

definition ex_chain :: "(unit, unit) env" where
  "ex_chain = ex_env\<lparr>wallet_Commit := (\<lambda>w c. Inr (zeros 32, [], ()))\<rparr>"

lemma ex_chain_ok: "chain_ok ex_chain" "db_AscendRange ex_chain () a b = []"
  by (simp_all add: chain_ok_def ex_chain_def ex_env_def)

section \<open>Properties\<close>



text \<open>
  C35. Without client activity a server on the chain stops committing after two commitments, although it
  writes each commitment into its own log to force the next one. The slice it stores is the hash
  buffer of the root, which the second commitment overwrites after the leaf has been hashed; the new
  value then equals the stored one, the leaf is not marked, and the digest stays the same for ever.
\<close>

theorem full_server_stalls:
  assumes "chain_ok env" and "\<And>a b. db_AscendRange env db a b = []" and "length trigger = 32"
  shows "first_digest trigger \<in> {zeros 32, trigger} \<or> first_digest (first_digest trigger) = first_digest trigger
    \<or> (\<exists>s1 s2 s3. Run_start env trigger (NewServer w db\<lparr>Full := True\<rparr>) = Inr s1
    \<and> Commit env s1 = Inr (None, s2) \<and> Commit env s2 = Inr (None, s3) \<and> Commit env s3 = Inr (None, s3)
    \<and> map cm_Commitment (commitments s2) = [first_digest trigger, first_digest (first_digest trigger)]
    \<and> commitments s3 = commitments s2 \<and> lastCommitment s3 = lastCommitment s2)"
proof (cases "first_digest trigger \<in> {zeros 32, trigger} \<or> first_digest (first_digest trigger) = first_digest trigger")
  case False
  then have nz: "first_digest trigger \<noteq> zeros 32" "first_digest trigger \<noteq> trigger"
    "first_digest (first_digest trigger) \<noteq> first_digest trigger" by simp_all
  let ?a = "first_digest trigger" and ?b = "first_digest (first_digest trigger)"
  obtain s1 where s1: "Run_start env trigger (fresh_server w db) = Inr s1" "quiet s1" "lastCommitment s1 = ?a"
      "map cm_Commitment (commitments s1) = [?a]" "(fullmpt s1, own_shared s1) = own_after ?a trigger (own_digest trigger) False"
    using Run_start_fresh [OF assms(1-3) nz(1), of w] by (elim exE conjE)
  then have t1: "fullmpt s1 = own_tree ?a True True ?a (own_digest trigger) True True" "own_shared s1" using nz(2) by (simp_all add: own_after_def)
  have c1: "srv_Commitment s1 = Inr (?b, s1\<lparr>fullmpt := own_tree ?b False True ?b (own_digest ?a) True False\<rparr>)"
    using Commitment_own(1) [of ?a "own_digest trigger" True ?a True] t1 by (simp add: srv_Commitment_def first_digest_def)
  have "cm_Commitment ` set (commitments s1) = {?a}" using arg_cong [OF s1(4), of set] by simp
  with Commit_own [OF assms(1) s1(2) _ _ c1] obtain s2 where s2: "Commit env s1 = Inr (None, s2)" "quiet s2" "lastCommitment s2 = ?b"
      "map cm_Commitment (commitments s2) = [?a, ?b]" "(fullmpt s2, own_shared s2) = own_after ?b ?b (own_digest ?a) (own_shared s1)"
    using nz(3) s1(3,4) by auto
  then have t2: "fullmpt s2 = own_tree ?b True True ?b (own_digest ?a) False False" "own_shared s2" using t1(2) by (simp_all add: own_after_def)
  let ?s3 = "s2\<lparr>fullmpt := own_tree ?b False True ?b (own_digest ?a) False False\<rparr>"
  have "srv_Commitment s2 = Inr (?b, ?s3)" "srv_Commitment ?s3 = Inr (?b, ?s3)"
    using Commitment_own(2,3) [of ?b "own_digest ?a" True ?b False] t2 by (simp_all add: srv_Commitment_def first_digest_def)
  then have "Commit env s2 = Inr (None, ?s3)" "Commit env ?s3 = Inr (None, ?s3)" using s2(3) by (simp_all add: Commit_def)
  then show ?thesis using s1(1) s2 by (intro disjI2 exI [of _ s1] exI [of _ s2] exI [of _ ?s3]) simp
qed blast

theorem full_server_stalls_witness:
  "first_digest (zeros 32) \<in> {zeros 32, zeros 32} \<or> first_digest (first_digest (zeros 32)) = first_digest (zeros 32)
    \<or> (\<exists>s1 s2 s3. Run_start ex_chain (zeros 32) (NewServer () ()\<lparr>Full := True\<rparr>) = Inr s1
        \<and> Commit ex_chain s1 = Inr (None, s2) \<and> Commit ex_chain s2 = Inr (None, s3) \<and> Commit ex_chain s3 = Inr (None, s3))"
  using full_server_stalls [OF ex_chain_ok, of "zeros 32" "()"] by auto

end
