(* ===== verification/Chain_Diff.thy ===== *)
theory Chain_Diff
  imports Btc_Block Btcec_Sig "HOL-Library.Signed_Division"
begin

text \<open>
  \<open>bitcoin/blockchain/difficulty.go\<close> (of which \<open>bitcoin/coinparam/bits.go\<close> is a copy), the
  chain parameters of \<open>bitcoin/coinparam\<close> and the difficulty rule \<open>diffBitcoin\<close>. A
  \<open>big.Int\<close> is an integer; an \<open>int32\<close> is an integer that \<open>i32\<close> wraps after every
  operation of the code; a \<open>time.Duration\<close> counts nanoseconds.
\<close>

unbundle bit_operations_syntax

section \<open>Compact targets\<close>

definition CompactToBig :: "32 word \<Rightarrow> int" where
  "CompactToBig compact =
     (let mantissa = compact AND 0x007fffff;
          isNegative = (compact AND 0x00800000 \<noteq> 0);
          exponent = unat (drop_bit 24 compact);
          bn = (if exponent \<le> 3 then uint (drop_bit (8 * (3 - exponent)) mantissa)
                else push_bit (8 * (exponent - 3)) (uint mantissa))
      in if isNegative then - bn else bn)"

definition BigToCompact :: "int \<Rightarrow> 32 word" where
  "BigToCompact n =
     (if n = 0 then 0
      else let exponent = length (big_bytes (nat \<bar>n\<bar>));
               mantissa = (if exponent \<le> 3 then push_bit (8 * (3 - exponent)) (word_of_int \<bar>n\<bar>)
                           else word_of_int \<bar>drop_bit (8 * (exponent - 3)) n\<bar>) :: 32 word;
               (mantissa, exponent) =
                 (if mantissa AND 0x00800000 \<noteq> 0 then (drop_bit 8 mantissa, exponent + 1) else (mantissa, exponent));
               compact = push_bit 24 (word_of_nat exponent) OR mantissa
           in if n < 0 then compact OR 0x00800000 else compact)"

definition CalcWork :: "32 word \<Rightarrow> int" where
  "CalcWork bits =
     (let difficultyNum = CompactToBig bits
      in if difficultyNum \<le> 0 then 0 else 2 ^ 256 div (difficultyNum + 1))"

section \<open>Chain parameters\<close>

definition i32 :: "int \<Rightarrow> int" where
  "i32 x = sint (word_of_int x :: 32 word)"

text \<open>
  The fields the header chain uses. The two function fields are an extension, because
  \<open>DiffCalcFunction\<close> takes the parameters themselves.
\<close>

record ParamsData =
  pr_Name :: string
  GenesisHeader :: BlockHeader
  StartHeader :: bytes
  StartHeight :: int
  AssumeDiffBefore :: int
  MinHeaders :: int
  PowLimit :: int
  PowLimitBits :: "32 word"
  TargetTimespan :: int
  TargetTimePerBlock :: int
  RetargetAdjustmentFactor :: int
  ReduceMinDifficulty :: bool

record Params = ParamsData +
  PoWFunction :: "bytes \<Rightarrow> int \<Rightarrow> bytes"
  DiffCalcFunction :: "BlockHeader list \<Rightarrow> int \<Rightarrow> ParamsData \<Rightarrow> 32 word go"

abbreviation div_by_zero :: "'a go" where
  "div_by_zero \<equiv> Inl (GoPanic ''integer divide by zero'')"

definition seconds :: "int \<Rightarrow> int" where
  "seconds d = d sdiv 10 ^ 9"

section \<open>The difficulty rule\<close>

definition calcDiffAdjustBitcoin :: "BlockHeader \<Rightarrow> BlockHeader \<Rightarrow> ParamsData \<Rightarrow> 32 word go" where
  "calcDiffAdjustBitcoin start stop p =
     (let duration = bh_Timestamp stop - bh_Timestamp start;
          span = seconds (TargetTimespan p)
      in if RetargetAdjustmentFactor p = 0 \<or> span = 0 then div_by_zero
         else
           let minRetargetTimespan = span sdiv RetargetAdjustmentFactor p;
               maxRetargetTimespan = span * RetargetAdjustmentFactor p;
               duration = (if duration < minRetargetTimespan then minRetargetTimespan
                           else if duration > maxRetargetTimespan then maxRetargetTimespan else duration);
               newTarget = CompactToBig (bh_Bits stop) * duration div span;
               newTarget = (if newTarget > PowLimit p then PowLimit p else newTarget)
           in Inr (BigToCompact newTarget))"

definition header_at :: "BlockHeader list \<Rightarrow> int \<Rightarrow> BlockHeader go" where
  "header_at hs i = (if 0 \<le> i \<and> i < int (length hs) then Inr (hs ! nat i) else index_out_of_range)"

text \<open>The walk back over the blocks of minimal difficulty of a test network.\<close>

fun last_regular :: "BlockHeader list \<Rightarrow> 32 word \<Rightarrow> nat \<Rightarrow> int \<Rightarrow> BlockHeader go" where
  "last_regular headers limit arrIndex tempHeight =
     (if tempHeight smod 2016 \<noteq> 0 \<and> bh_Bits (headers ! arrIndex) = limit
      then (case arrIndex of 0 \<Rightarrow> index_out_of_range
            | Suc k \<Rightarrow> last_regular headers limit k (i32 (tempHeight - 1)))
      else Inr (headers ! arrIndex))"

declare last_regular.simps [simp del]

definition ltcmode :: "ParamsData \<Rightarrow> bool" where
  "ltcmode p \<longleftrightarrow> pr_Name p \<in> {''litetest4'', ''litereg'', ''vtcreg'', ''litecoin'', ''vtctest'', ''vtc''}"

definition diffBitcoin :: "BlockHeader list \<Rightarrow> int \<Rightarrow> ParamsData \<Rightarrow> 32 word go" where
  "diffBitcoin headers height p =
     (if length headers < 2 then Inl (GoError ''headers given to diffBitcoin, expect >2'')
      else
        let prev = headers ! (length headers - 2);
            cur = headers ! (length headers - 1)
        in if bh_Bits prev = 0 then Inl (GoError ''Got blocks with diff 0. Returning error'')
           else if TargetTimePerBlock p = 0 \<or> TargetTimespan p sdiv TargetTimePerBlock p = 0 then div_by_zero
           else
             let epochLength = TargetTimespan p sdiv TargetTimePerBlock p;
                 epochHeight = height smod epochLength;
                 maxHeader = int (length headers) - 1
             in if epochHeight > maxHeader \<and> maxHeader + 10 > epochHeight then Inr (PowLimitBits p)
                else if epochHeight > maxHeader then Inl (GoError ''diffBitcoin got insufficient headers'')
                else bind_go (header_at headers (maxHeader - epochHeight)) (\<lambda>_.
                  if epochHeight = 0 then
                    if maxHeader < epochLength then Inl (GoError ''diffBitcoin not enough headers'')
                    else bind_go (header_at headers
                                   (if ltcmode p \<and> height \<noteq> epochLength then maxHeader - (epochLength - 1)
                                    else maxHeader - epochLength))
                           (\<lambda>epochStart. calcDiffAdjustBitcoin epochStart prev p)
                  else if ReduceMinDifficulty p then
                    if bh_Timestamp cur * 10 ^ 9 > bh_Timestamp prev * 10 ^ 9 + TargetTimePerBlock p * 2
                    then Inr (PowLimitBits p)
                    else bind_go (last_regular headers (PowLimitBits p) (length headers - 1) height) (\<lambda>tempCur.
                           Inr (if bh_Bits tempCur \<noteq> 0 then bh_Bits tempCur else PowLimitBits p))
                  else Inr (bh_Bits prev)))"

section \<open>The networks\<close>

definition genesisMerkleRoot :: bytes where
  "genesisMerkleRoot =
     [0x3b, 0xa3, 0xed, 0xfd, 0x7a, 0x7b, 0x12, 0xb2, 0x7a, 0xc7, 0x2c, 0x3e, 0x67, 0x76, 0x8f, 0x61,
      0x7f, 0xc8, 0x1b, 0xc3, 0x88, 0x8a, 0x51, 0x32, 0x3a, 0x9f, 0xb8, 0xaa, 0x4b, 0x1e, 0x5e, 0x4a]"

definition genesis_header :: "int \<Rightarrow> 32 word \<Rightarrow> 32 word \<Rightarrow> BlockHeader" where
  "genesis_header timestamp bits nonce =
     \<lparr>bh_Version = 1, bh_PrevBlock = zeros 32, bh_MerkleRoot = genesisMerkleRoot, bh_Timestamp = timestamp,
      bh_Bits = bits, bh_Nonce = nonce\<rparr>"

definition network :: "string \<Rightarrow> BlockHeader \<Rightarrow> int \<Rightarrow> 32 word \<Rightarrow> bool \<Rightarrow> Params" where
  "network name genesis powLimit powLimitBits reduce =
     \<lparr>pr_Name = name, GenesisHeader = genesis, StartHeader = zeros 80, StartHeight = 0, AssumeDiffBefore = 0,
      MinHeaders = 0, PowLimit = powLimit, PowLimitBits = powLimitBits,
      TargetTimespan = 14 * 24 * 3600 * 10 ^ 9, TargetTimePerBlock = 10 * 60 * 10 ^ 9,
      RetargetAdjustmentFactor = 4, ReduceMinDifficulty = reduce,
      PoWFunction = (\<lambda>b height. DoubleHashH b), DiffCalcFunction = diffBitcoin\<rparr>"

definition BitcoinParams :: Params where
  "BitcoinParams =
     network ''bitcoin'' (genesis_header 0x495fab29 0x1d00ffff 0x7c2bac1d) (2 ^ 224 - 1) 0x1d00ffff False"

definition TestNet3Params :: Params where
  "TestNet3Params =
     network ''testnet3'' (genesis_header 1296688602 0x1d00ffff 0x18aea41a) (2 ^ 224 - 1) 0x1d00ffff True"

definition RegressionNetParams :: Params where
  "RegressionNetParams =
     network ''regtest'' (genesis_header 1296688602 0x207fffff 2) (2 ^ 255 - 1) 0x207fffff True"

definition networks :: "Params list" where
  "networks = [BitcoinParams, TestNet3Params, RegressionNetParams]"

section \<open>Packed targets\<close>

lemma bits_below: "m < 2 ^ k \<Longrightarrow> bit m n \<Longrightarrow> n < k" for m :: nat
  by (metis bit_take_bit_iff take_bit_nat_eq_self)

lemma unat24: "m < 2 ^ 24 \<Longrightarrow> unat (word_of_nat m :: 32 word) = m"
  by (simp add: unat_of_nat take_bit_nat_eq_self)

lemma compact_or: "m < 2 ^ 24 \<Longrightarrow> push_bit 24 (word_of_nat e) OR word_of_nat m = (word_of_nat (e * 2 ^ 24 + m) :: 32 word)"
proof -
  assume m: "m < 2 ^ 24"
  have "push_bit 24 (word_of_nat e :: 32 word) AND word_of_nat m = 0"
    by (auto simp: bit_eq_iff bit_simps dest!: bits_below [OF m])
  from disjunctive_add_eq_or [OF this, symmetric] show ?thesis
    by (simp add: push_bit_eq_mult)
qed

lemma sign_bit: "m < 2 ^ 24 \<Longrightarrow> (word_of_nat m :: 32 word) AND 0x00800000 \<noteq> 0 \<longleftrightarrow> 2 ^ 23 \<le> m"
proof -
  assume m: "m < 2 ^ 24"
  have "(word_of_nat m :: 32 word) AND 0x00800000 \<noteq> 0 \<longleftrightarrow> bit (word_of_nat m :: 32 word) 23"
    using and_exp_eq_0_iff_not_bit [of "word_of_nat m :: 32 word" 23] by simp
  also have "\<dots> \<longleftrightarrow> bit m 23"
    by (simp add: bit_simps)
  also have "\<dots> \<longleftrightarrow> odd (m div 2 ^ 23)"
    by (simp add: bit_iff_odd)
  also have "\<dots> \<longleftrightarrow> 2 ^ 23 \<le> m"
  proof (cases "2 ^ 23 \<le> m")
    case True
    then have "m div 2 ^ 23 = 1"
      using m by (intro div_nat_eqI) simp_all
    then show ?thesis using True by simp
  qed simp
  finally show ?thesis .
qed

lemma scale_low: "e \<le> k \<Longrightarrow> a * 256 ^ k div 256 ^ e = a * 256 ^ (k - e)" for a :: nat
  using power_add [of "256 :: nat" "k - e" e] by (simp flip: mult.assoc)

lemma scale_high: "k \<le> e \<Longrightarrow> a * 256 ^ k div 256 ^ e = a div 256 ^ (e - k)" for a :: nat
  using power_add [of "256 :: nat" k "e - k"] div_mult_mult2 [of "256 ^ k" a "256 ^ (e - k)"]
  by (simp add: mult.commute)

text \<open>The fields of a packed word.\<close>

lemma CompactToBig_fields:
  "CompactToBig c = (if bit c 23 then - 1 else 1) * int (unat c mod 2 ^ 23 * 256 ^ (unat c div 2 ^ 24) div 256 ^ 3)"
proof -
  define e m where "e = unat c div 2 ^ 24" and "m = unat c mod 2 ^ 23"
  have "m < 2 ^ 24"
    unfolding m_def by (rule less_trans [OF mod_less_divisor]) simp_all
  note m = unat24 [OF this]
  have "unat (take_bit 23 c) = m"
    by (subst unsigned_take_bit_eq) (simp only: m_def take_bit_eq_mod)
  then have "take_bit 23 c = word_of_nat m"
    by (simp only: word_unat_eq_iff m)
  then have "c AND mask 23 = word_of_nat m"
    by (simp only: take_bit_eq_mask)
  then have mant: "c AND 0x007fffff = word_of_nat m"
    by (simp add: mask_eq_exp_minus_1)
  have neg: "c AND 0x00800000 \<noteq> 0 \<longleftrightarrow> bit c 23"
    using and_exp_eq_0_iff_not_bit [of c 23] by simp
  have expo: "unat (drop_bit 24 c) = e"
    by (subst unat_drop_bit_eq) (simp only: e_def drop_bit_eq_div)
  have low: "m * 256 ^ e div 256 ^ 3 = drop_bit (8 * (3 - e)) m" if "e \<le> 3"
    by (simp only: scale_high [OF that] drop_bit_eq_div power_mult) simp
  have high: "m * 256 ^ e div 256 ^ 3 = push_bit (8 * (e - 3)) m" if "\<not> e \<le> 3"
    using scale_low [of 3 e m] that by (simp only: push_bit_eq_mult power_mult) simp
  have dr: "uint (drop_bit k (word_of_nat m :: 32 word)) = int (drop_bit k m)" for k
    by (simp only: uint_nat unat_drop_bit_eq m)
  have um: "uint (word_of_nat m :: 32 word) = int m"
    by (simp only: uint_nat m)
  have "CompactToBig c = (if bit c 23 then - 1 else 1) * int (if e \<le> 3 then drop_bit (8 * (3 - e)) m else push_bit (8 * (e - 3)) m)"
    by (simp add: CompactToBig_def Let_def mant neg expo dr um of_nat_push_bit)
  also have "(if e \<le> 3 then drop_bit (8 * (3 - e)) m else push_bit (8 * (e - 3)) m) = m * 256 ^ e div 256 ^ 3"
    using low high by presburger
  finally show ?thesis
    unfolding e_def m_def .
qed

lemma CompactToBig_parts:
  assumes "e < 256" "m < 2 ^ 23"
  shows "CompactToBig (word_of_nat (e * 2 ^ 24 + m)) = int (m * 256 ^ e div 256 ^ 3)"
proof -
  define n where "n = e * 2 ^ 24 + m"
  have n: "n < 2 ^ 32" "n div 2 ^ 24 = e"
    using assms by (simp_all add: n_def)
  have "n = m + 2 ^ 23 * (2 * e)"
    by (simp add: n_def)
  then have "n mod 2 ^ 23 = m mod 2 ^ 23" "n div 2 ^ 23 = 2 * e + m div 2 ^ 23"
    by (simp_all only: mod_mult_self2 div_mult_self2 power_not_zero zero_neq_numeral [symmetric] not_False_eq_True)
  then have "n mod 2 ^ 23 = m" "\<not> bit n 23"
    using assms(2) by (simp_all add: bit_iff_odd)
  moreover have "unat (word_of_nat n :: 32 word) = n"
    using n(1) by (simp add: unat_of_nat take_bit_nat_eq_self)
  moreover have "bit (word_of_nat n :: 32 word) 23 \<longleftrightarrow> bit n 23"
    by (simp add: bit_simps)
  ultimately show ?thesis
    unfolding n_def [symmetric] by (simp only: CompactToBig_fields n(2)) simp
qed

lemma big_bytes_bounds:
  assumes "0 < n"
  shows "n < 256 ^ length (big_bytes n)" "256 ^ (length (big_bytes n) - 1) \<le> n" "0 < length (big_bytes n)"
proof -
  obtain x b where b: "big_bytes n = x # b"
    using assms by (cases "big_bytes n") auto
  have "x \<noteq> 0"
    using last_big_bytes_le [of n] assms b by (simp add: big_bytes_def hd_rev [symmetric])
  then have "1 \<le> unat x"
    by (simp add: Suc_le_eq unat_gt_0)
  moreover have "n = unat x * 256 ^ length b + of_be b"
    using of_be_big_bytes [of n] b by (simp add: of_be_Cons)
  ultimately have "256 ^ length b \<le> n"
    using mult_le_mono1 [of 1 "unat x" "256 ^ length b"] by linarith
  then show "256 ^ (length (big_bytes n) - 1) \<le> n"
    using b by simp
  show "n < 256 ^ length (big_bytes n)"
    using of_be_bound [of "big_bytes n"] by simp
  show "0 < length (big_bytes n)" using b by simp
qed

lemma BigToCompact_parts:
  assumes "0 < n"
  obtains e where "BigToCompact (int n) = word_of_nat (e * 2 ^ 24 + n * 256 ^ 3 div 256 ^ e)"
    and "2 ^ 15 \<le> n * 256 ^ 3 div 256 ^ e" "n * 256 ^ 3 div 256 ^ e < 2 ^ 23"
proof -
  define l where "l = length (big_bytes n)"
  define m where "m = n * 256 ^ 3 div 256 ^ l"
  have l: "n < 256 ^ l" "256 ^ (l - 1) \<le> n" "0 < l"
    using big_bytes_bounds [OF assms] by (simp_all add: l_def)
  have m: "m < 2 ^ 24" "2 ^ 16 \<le> m"
  proof -
    have "n * 256 ^ 3 < 2 ^ 24 * 256 ^ l"
      using l(1) by simp
    then show "m < 2 ^ 24"
      unfolding m_def by (simp only: less_mult_imp_div_less)
    have "2 ^ 16 * 256 ^ l = (256 :: nat) ^ (l - 1) * 256 ^ 3"
      using l(3) by (cases l) simp_all
    also have "\<dots> \<le> n * 256 ^ 3"
      using l(2) by simp
    finally show "2 ^ 16 \<le> m"
      unfolding m_def by (simp add: less_eq_div_iff_mult_less_eq)
  qed
  have mant: "(if l \<le> 3 then push_bit (8 * (3 - l)) (word_of_int \<bar>int n\<bar>) else word_of_int \<bar>drop_bit (8 * (l - 3)) (int n)\<bar>)
      = (word_of_nat m :: 32 word)"
  proof (cases "l \<le> 3")
    case True
    then have "m = n * 256 ^ (3 - l)"
      unfolding m_def by (rule scale_low)
    then show ?thesis
      using True by (simp add: push_bit_eq_mult power_mult)
  next
    case False
    then have "m = n div 256 ^ (l - 3)"
      unfolding m_def by (intro scale_high) simp
    then have "drop_bit (8 * (l - 3)) (int n) = int m"
      by (simp add: drop_bit_eq_div power_mult zdiv_int)
    then show ?thesis
      using False by simp
  qed
  have shift: "drop_bit 8 (word_of_nat m :: 32 word) = word_of_nat (m div 256)"
  proof -
    have "unat (drop_bit 8 (word_of_nat m :: 32 word)) = drop_bit 8 m"
      by (simp only: unat_drop_bit_eq unat24 [OF m(1)])
    then have "unat (drop_bit 8 (word_of_nat m :: 32 word)) = m div 256"
      by (simp add: drop_bit_eq_div [of 8 m])
    then show ?thesis
      using m(1) by (simp only: word_unat_eq_iff unat24 [of "m div 256"] div_less_iff_less_mult)
  qed
  have "m div 256 < 2 ^ 24"
    using m(1) by (simp add: div_less_iff_less_mult)
  note pack = compact_or [OF m(1)] compact_or [OF this]
  have abs: "nat \<bar>int n\<bar> = n" "int n = 0 \<longleftrightarrow> False" "int n < 0 \<longleftrightarrow> False"
    using assms by simp_all
  have enc: "BigToCompact (int n) = (if 2 ^ 23 \<le> m then word_of_nat ((l + 1) * 2 ^ 24 + m div 256) else word_of_nat (l * 2 ^ 24 + m))"
    unfolding BigToCompact_def Let_def abs l_def [symmetric] mant sign_bit [OF m(1)] shift
    by (cases "2 ^ 23 \<le> m") (simp_all only: if_True if_False prod.case pack)
  show ?thesis
  proof (cases "2 ^ 23 \<le> m")
    case True
    have eq: "n * 256 ^ 3 div 256 ^ (l + 1) = m div 256"
      by (simp add: m_def div_mult2_eq [symmetric] mult.commute)
    show ?thesis
      using True m(1) by (intro that [of "l + 1"], unfold eq enc)
        (simp_all only: if_True less_eq_div_iff_mult_less_eq div_less_iff_less_mult zero_less_numeral, simp_all)
  next
    case False
    then show ?thesis
      using m(2) by (intro that [of l], unfold enc m_def [symmetric]) simp_all
  qed
qed

lemma compact_unique:
  fixes n :: nat
  assumes "2 ^ 15 \<le> n * 256 ^ 3 div 256 ^ e" "n * 256 ^ 3 div 256 ^ d < 2 ^ 23"
  shows "e \<le> d"
proof (rule ccontr)
  assume "\<not> e \<le> d"
  then have "256 ^ Suc d \<le> (256 :: nat) ^ e"
    by (intro power_increasing) simp_all
  then have "2 ^ 23 * 256 ^ d \<le> 2 ^ 15 * (256 :: nat) ^ e"
    by simp
  moreover have "2 ^ 15 * 256 ^ e \<le> n * 256 ^ 3" "n * 256 ^ 3 < 2 ^ 23 * 256 ^ d"
    using assms by (simp_all add: less_eq_div_iff_mult_less_eq div_less_iff_less_mult)
  ultimately show False by simp
qed

text \<open>
  The number a packed word stands for: the mantissa is the top of the number, and the exponent is the
  only one that leaves a mantissa of 15 to 23 bits.
\<close>

lemma BigToCompact_eqI:
  assumes "2 ^ 15 \<le> n * 256 ^ 3 div 256 ^ e" "n * 256 ^ 3 div 256 ^ e < 2 ^ 23"
  shows "BigToCompact (int n) = word_of_nat (e * 2 ^ 24 + n * 256 ^ 3 div 256 ^ e)"
proof -
  have "0 < n" using assms(1) by (cases n) simp_all
  then obtain d where d: "BigToCompact (int n) = word_of_nat (d * 2 ^ 24 + n * 256 ^ 3 div 256 ^ d)"
      "2 ^ 15 \<le> n * 256 ^ 3 div 256 ^ d" "n * 256 ^ 3 div 256 ^ d < 2 ^ 23"
    by (rule BigToCompact_parts)
  have "d = e"
    using compact_unique [OF d(2) assms(2)] compact_unique [OF assms(1) d(3)] by simp
  then show ?thesis using d(1) by simp
qed

lemma unpack:
  "n * 256 ^ 3 div 256 ^ e * 256 ^ e div 256 ^ 3 = n - n mod 256 ^ (e - 3)" for n :: nat
proof (cases "e \<le> 3")
  case True
  then show ?thesis by (simp only: scale_low scale_high) simp
next
  case False
  then have "3 \<le> e" by simp
  then show ?thesis
    by (simp only: scale_low scale_high minus_mod_eq_div_mult)
qed

lemma CompactToBig_BigToCompact:
  assumes "n * 256 ^ 3 div 256 ^ e < 2 ^ 23" "2 ^ 15 \<le> n * 256 ^ 3 div 256 ^ e" "e < 256"
  shows "CompactToBig (BigToCompact (int n)) = int (n - n mod 256 ^ (e - 3))"
  by (simp only: BigToCompact_eqI [OF assms(2,1)] CompactToBig_parts [OF assms(3,1)] unpack)

lemma rounding:
  fixes n :: nat
  assumes "2 ^ 15 \<le> n * 256 ^ 3 div 256 ^ e"
  shows "(n mod 256 ^ (e - 3)) * 2 ^ 15 \<le> n"
proof (cases "3 \<le> e")
  case True
  have "2 ^ 15 \<le> n div 256 ^ (e - 3)"
    using assms unfolding scale_high [OF True] .
  then have "256 ^ (e - 3) * 2 ^ 15 \<le> n"
    by (simp add: less_eq_div_iff_mult_less_eq)
  moreover have "(n mod 256 ^ (e - 3)) * 2 ^ 15 \<le> 256 ^ (e - 3) * 2 ^ 15"
    by (intro mult_le_mono1) (simp add: order_less_imp_le)
  ultimately show ?thesis
    by (rule order_trans [rotated])
qed simp

lemma repack: "(n - n mod 256 ^ (e - 3)) * 256 ^ 3 div 256 ^ e = n * 256 ^ 3 div 256 ^ e" for n :: nat
proof (cases "3 \<le> e")
  case True
  then show ?thesis
    by (simp only: scale_high minus_mod_eq_div_mult) simp
qed simp

text \<open>What a packed word stands for is exactly representable.\<close>

lemma CompactToBig_exact:
  assumes "0 \<le> CompactToBig c"
  shows "CompactToBig (BigToCompact (CompactToBig c)) = CompactToBig c"
proof -
  define e m n where "e = unat c div 2 ^ 24" and "m = unat c mod 2 ^ 23" and "n = m * 256 ^ e div 256 ^ 3"
  have c: "CompactToBig c = int n"
    using assms CompactToBig_fields [of c] unfolding e_def m_def n_def by (auto split: if_splits)
  show ?thesis
  proof (cases "n = 0")
    case True
    then show ?thesis unfolding c by (simp add: BigToCompact_def CompactToBig_def)
  next
    case False
    have "unat c < 2 ^ 32"
      using unsigned_less [of c] by simp
    then have em: "e < 256" "m < 2 ^ 23"
      by (simp_all add: e_def m_def div_less_iff_less_mult)
    obtain d where d: "2 ^ 15 \<le> n * 256 ^ 3 div 256 ^ d" "n * 256 ^ 3 div 256 ^ d < 2 ^ 23"
      using False BigToCompact_parts [of n] by blast
    have "n mod 256 ^ (d - 3) = 0 \<and> d < 256"
    proof (cases "e \<le> 3")
      case True
      then have "n \<le> m"
        unfolding n_def by (simp only: scale_high div_le_dividend)
      then have "n * 256 ^ 3 div 256 ^ 3 < 2 ^ 23"
        using em(2) by simp
      from compact_unique [OF d(1) this] show ?thesis by simp
    next
      case False
      then have n: "n = m * 256 ^ (e - 3)"
        unfolding n_def by (intro scale_low) simp
      have "n * 256 ^ 3 = m * 256 ^ e"
        using False power_add [of "256 :: nat" "e - 3" 3] by (simp add: n)
      then have "n * 256 ^ 3 div 256 ^ e < 2 ^ 23"
        using em(2) by simp
      from compact_unique [OF d(1) this] have "d \<le> e" .
      then have "256 ^ (d - 3) dvd n"
        unfolding n by (intro dvd_mult le_imp_power_dvd) simp
      then show ?thesis using \<open>d \<le> e\<close> em(1) by simp
    qed
    then show ?thesis
      unfolding c by (simp add: CompactToBig_BigToCompact [OF d(2,1)])
  qed
qed

lemma compact_rounding:
  assumes "0 \<le> n" "n < 2 ^ 2039"
  shows "CompactToBig (BigToCompact n) \<le> n" "(n - CompactToBig (BigToCompact n)) * 2 ^ 15 \<le> n"
    "BigToCompact (CompactToBig (BigToCompact n)) = BigToCompact n"
proof -
  have "CompactToBig (BigToCompact n) \<le> n \<and> (n - CompactToBig (BigToCompact n)) * 2 ^ 15 \<le> n
      \<and> BigToCompact (CompactToBig (BigToCompact n)) = BigToCompact n"
  proof (cases "n = 0")
    case True
    then show ?thesis by (simp add: BigToCompact_def CompactToBig_def)
  next
    case False
    then obtain k where k: "n = int k" "0 < k" "k < 2 ^ 2039"
      using assms by (cases n) auto
    obtain e where e: "2 ^ 15 \<le> k * 256 ^ 3 div 256 ^ e" "k * 256 ^ 3 div 256 ^ e < 2 ^ 23"
      using BigToCompact_parts [OF k(2)] by blast
    have "k * 256 ^ 3 < 2 ^ 23 * (256 ^ 252 * 256 ^ 3)"
      using k(3) by simp
    then have "k * 256 ^ 3 div 256 ^ 255 < 2 ^ 23"
      by (simp add: div_less_iff_less_mult)
    from compact_unique [OF e(1) this] have "e < 256" by simp
    note dec = CompactToBig_BigToCompact [OF e(2,1) this]
    have "CompactToBig (BigToCompact n) \<le> n" "(n - CompactToBig (BigToCompact n)) * 2 ^ 15 \<le> n"
      using rounding [OF e(1)] unfolding k(1) dec by (simp_all add: of_nat_diff)
    moreover have "BigToCompact (CompactToBig (BigToCompact n)) = BigToCompact n"
      using BigToCompact_eqI [of "k - k mod 256 ^ (e - 3)" e] BigToCompact_eqI [OF e] e
      unfolding k(1) dec repack by simp
    ultimately show ?thesis by simp
  qed
  then show "CompactToBig (BigToCompact n) \<le> n" "(n - CompactToBig (BigToCompact n)) * 2 ^ 15 \<le> n"
    "BigToCompact (CompactToBig (BigToCompact n)) = BigToCompact n"
    by blast+
qed

text \<open>
  C30. Packing a target into 32 bits and reading it back never raises it, loses at most one part in
  2^15, and packing what was read gives the same word; reading a packed word and packing it again keeps
  the number, for every word that stands for one.
\<close>

theorem compact_targets:
  assumes "0 \<le> n" "n < 2 ^ 2039"
  shows "CompactToBig (BigToCompact n) \<le> n \<and> (n - CompactToBig (BigToCompact n)) * 2 ^ 15 \<le> n
    \<and> BigToCompact (CompactToBig (BigToCompact n)) = BigToCompact n
    \<and> (0 \<le> CompactToBig c \<longrightarrow> CompactToBig (BigToCompact (CompactToBig c)) = CompactToBig c)"
  using compact_rounding [OF assms] CompactToBig_exact [of c] by blast

theorem compact_targets_witness:
  "CompactToBig (BigToCompact (2 ^ 224 - 1)) \<le> 2 ^ 224 - 1
    \<and> (2 ^ 224 - 1 - CompactToBig (BigToCompact (2 ^ 224 - 1))) * 2 ^ 15 \<le> 2 ^ 224 - 1
    \<and> BigToCompact (CompactToBig (BigToCompact (2 ^ 224 - 1))) = BigToCompact (2 ^ 224 - 1)
    \<and> 0 \<le> CompactToBig 0x1d00ffff
    \<and> CompactToBig (BigToCompact (CompactToBig 0x1d00ffff)) = CompactToBig 0x1d00ffff"
proof -
  have "0 \<le> CompactToBig 0x1d00ffff"
    by (simp add: CompactToBig_def Let_def)
  moreover have "(2 ^ 224 - 1 :: int) < 2 ^ 2039"
    by (rule less_trans [of _ "2 ^ 224"]) (simp_all add: power_strict_increasing)
  ultimately show ?thesis
    using compact_targets [of "2 ^ 224 - 1" "0x1d00ffff"] by auto
qed

section \<open>Bounds of the difficulty rule\<close>

lemma i32_id: "- (2 ^ 31) \<le> x \<Longrightarrow> x < 2 ^ 31 \<Longrightarrow> i32 x = x"
  by (simp add: i32_def sint_sbintrunc' signed_take_bit_int_eq_self)

lemma smod_nonneg: "0 \<le> a \<Longrightarrow> a smod 2016 = a mod 2016" for a :: int
  by (simp add: signed_modulo_int_def signed_divide_int_def minus_mult_div_eq_mod sgn_if abs_if)

lemma last_regular_ok:
  assumes "0 \<le> height" "height < 2 ^ 31" "height mod 2016 \<le> int n"
  shows "\<exists>k\<le>n. last_regular hs limit n height = Inr (hs ! k)"
  using assms
proof (induction n arbitrary: height)
  case 0
  then have "height mod 2016 = 0" by (simp add: antisym)
  then show ?case
    using 0 by (subst last_regular.simps) (simp add: smod_nonneg)
next
  case (Suc n)
  show ?case
  proof (cases "height mod 2016 \<noteq> 0 \<and> bh_Bits (hs ! Suc n) = limit")
    case True
    define q r where "q = height div 2016" and "r = height mod 2016"
    have h: "height = r + 2016 * q" "0 \<le> r" "r < 2016"
      by (simp_all add: q_def r_def)
    have "r \<noteq> 0" using True by (simp add: r_def)
    then have "0 < height"
      using Suc.prems(1) by (cases "height = 0") (simp_all add: r_def)
    have "height - 1 = (r - 1) + 2016 * q"
      using h(1) by simp
    then have "(height - 1) mod 2016 = (r - 1) mod 2016"
      by (simp only: mod_mult_self2)
    also have "\<dots> = r - 1"
      using h(2,3) \<open>r \<noteq> 0\<close> by (intro mod_pos_pos_trivial) linarith+
    finally have "(height - 1) mod 2016 = height mod 2016 - 1"
      by (simp only: r_def)
    with Suc.IH [of "height - 1"] Suc.prems \<open>0 < height\<close>
    obtain k where "k \<le> n" "last_regular hs limit n (height - 1) = Inr (hs ! k)"
      by auto
    then show ?thesis
      using True Suc.prems \<open>0 < height\<close>
      by (subst last_regular.simps) (auto simp: smod_nonneg i32_id intro: exI [of _ k])
  next
    case False
    then show ?thesis
      using Suc.prems by (subst last_regular.simps) (auto simp: smod_nonneg)
  qed
qed

lemma networks_facts:
  assumes "p \<in> set networks"
  shows "StartHeight p = 0" "AssumeDiffBefore p = 0" "MinHeaders p = 0"
    "TargetTimePerBlock p = 600000000000" "TargetTimespan p = 1209600000000000"
    "RetargetAdjustmentFactor p = 4" "0 < PowLimit p" "PowLimit p < 2 ^ 255"
    "\<not> ltcmode (ParamsData.truncate p)" "DiffCalcFunction p = diffBitcoin" "header_ok (GenesisHeader p)"
  using assms
  by (auto simp: networks_def BitcoinParams_def TestNet3Params_def RegressionNetParams_def network_def ltcmode_def
      ParamsData.truncate_def header_ok_def genesis_header_def genesisMerkleRoot_def)

lemma truncate_fields [simp]:
  "TargetTimePerBlock (ParamsData.truncate p) = TargetTimePerBlock p"
  "TargetTimespan (ParamsData.truncate p) = TargetTimespan p"
  "RetargetAdjustmentFactor (ParamsData.truncate p) = RetargetAdjustmentFactor p"
  "PowLimit (ParamsData.truncate p) = PowLimit p"
  "PowLimitBits (ParamsData.truncate p) = PowLimitBits p"
  "ReduceMinDifficulty (ParamsData.truncate p) = ReduceMinDifficulty p"
  by (simp_all add: ParamsData.truncate_def)

definition retarget_ok :: "int \<Rightarrow> int \<Rightarrow> int \<Rightarrow> bool" where
  "retarget_ok limit old new \<longleftrightarrow> new \<le> limit \<and> new \<le> 4 * old \<and> min (old div 4) limit * (2 ^ 15 - 1) \<le> new * 2 ^ 15"

lemma loss_bound: "a \<le> n \<Longrightarrow> (n - c) * 2 ^ 15 \<le> n \<Longrightarrow> a * (2 ^ 15 - 1) \<le> c * 2 ^ 15" for a n c :: int
  by simp

lemma calcDiff_ok:
  assumes "p \<in> set networks"
  shows "\<exists>bits. calcDiffAdjustBitcoin start stop (ParamsData.truncate p) = Inr bits
     \<and> (0 \<le> CompactToBig (bh_Bits stop) \<longrightarrow> retarget_ok (PowLimit p) (CompactToBig (bh_Bits stop)) (CompactToBig bits))"
proof -
  note p = networks_facts [OF assms]
  define t d where "t = CompactToBig (bh_Bits stop)"
    and "d = max 302400 (min 4838400 (bh_Timestamp stop - bh_Timestamp start))"
  define n where "n = min (t * d div 1209600) (PowLimit p)"
  have calc: "calcDiffAdjustBitcoin start stop (ParamsData.truncate p) = Inr (BigToCompact n)"
    by (simp add: calcDiffAdjustBitcoin_def Let_def seconds_def p n_def t_def d_def signed_divide_int_def min_def max_def)
  have "retarget_ok (PowLimit p) t (CompactToBig (BigToCompact n))" if t: "0 \<le> t"
  proof -
    have d: "302400 \<le> d" "d \<le> 4838400"
      by (simp_all add: d_def)
    have "t * d div 1209600 \<le> (4 * t) * 1209600 div 1209600"
      using mult_left_mono [OF d(2) t] by (intro zdiv_mono1) simp_all
    then have le: "t * d div 1209600 \<le> 4 * t"
      by (simp only: nonzero_mult_div_cancel_right zero_neq_numeral [symmetric] not_False_eq_True)
    have "t * 302400 div (4 * 302400) \<le> t * d div (4 * 302400)"
      using mult_left_mono [OF d(1) t] by (intro zdiv_mono1) simp_all
    moreover have "t * 302400 div (4 * 302400) = t div 4"
      by (rule div_mult_mult2) simp
    ultimately have ge: "t div 4 \<le> t * d div 1209600"
      by (simp only: mult_num_simps arith_simps)
    have "0 \<le> t div 4"
      using t by simp
    then have "0 \<le> t * d div 1209600"
      using ge by (rule order_trans)
    then have "0 \<le> n"
      unfolding n_def using p(7) by (intro min.boundedI) simp_all
    moreover have "n \<le> PowLimit p"
      unfolding n_def by (rule min.cobounded2)
    moreover have "(2 :: int) ^ 255 < 2 ^ 2039"
      by (rule power_strict_increasing) simp_all
    ultimately have r: "CompactToBig (BigToCompact n) \<le> n" "(n - CompactToBig (BigToCompact n)) * 2 ^ 15 \<le> n"
      using compact_rounding(1,2) [of n] p(8) by linarith+
    have n: "min (t div 4) (PowLimit p) \<le> n" "n \<le> 4 * t" "n \<le> PowLimit p"
      unfolding n_def by (rule min.mono [OF ge order_refl] min.coboundedI1 [OF le] min.cobounded2)+
    show ?thesis
      unfolding retarget_ok_def
      by (intro conjI order_trans [OF r(1)] n loss_bound [OF n(1) r(2)])
  qed
  then show ?thesis
    using calc by (simp add: t_def)
qed

lemma diffBitcoin_bits:
  assumes "p \<in> set networks" "0 \<le> height" "height < 2 ^ 31"
  shows "\<not> is_panic (diffBitcoin hs height (ParamsData.truncate p))
    \<and> (\<forall>bits. diffBitcoin hs height (ParamsData.truncate p) = Inr bits \<longrightarrow>
         bits = PowLimitBits p \<or> bits \<in> bh_Bits ` set hs
         \<or> height mod 2016 = 0 \<and> (let t = CompactToBig (bh_Bits (hs ! (length hs - 2)))
                                   in 0 \<le> t \<longrightarrow> retarget_ok (PowLimit p) t (CompactToBig bits)))"
proof -
  note p = networks_facts [OF assms(1)]
  show ?thesis
  proof (cases "length hs < 2 \<or> bh_Bits (hs ! (length hs - 2)) = 0 \<or> height mod 2016 > int (length hs) - 1")
    case True
    then show ?thesis
      using assms(2) by (auto simp: diffBitcoin_def Let_def p(4,5) signed_divide_int_def smod_nonneg)
  next
    case False
    then have hs: "2 \<le> length hs" "height mod 2016 < int (length hs)"
      by auto
    have "hs ! (length hs - 2) \<in> set hs"
      using hs(1) by simp
    have "height mod 2016 \<le> int (length hs - 1)"
      using hs by (simp add: of_nat_diff)
    then obtain k where "k \<le> length hs - 1"
        and regular: "last_regular hs (PowLimitBits p) (length hs - 1) height = Inr (hs ! k)"
      using last_regular_ok [OF assms(2,3)] by blast
    then have k: "hs ! k \<in> set hs"
      using hs(1) by simp
    obtain bits where bits: "calcDiffAdjustBitcoin (hs ! (length hs - 1 - 2016)) (hs ! (length hs - 2)) (ParamsData.truncate p) = Inr bits"
      "0 \<le> CompactToBig (bh_Bits (hs ! (length hs - 2)))
        \<longrightarrow> retarget_ok (PowLimit p) (CompactToBig (bh_Bits (hs ! (length hs - 2)))) (CompactToBig bits)"
      using calcDiff_ok [OF assms(1)] by blast
    have at: "header_at hs (int (length hs) - 1 - height mod 2016) = Inr (hs ! nat (int (length hs) - 1 - height mod 2016))"
      using hs by (simp add: header_at_def)
    have start: "header_at hs (int (length hs) - 1 - 2016) = Inr (hs ! (length hs - 1 - 2016))" if "2016 \<le> int (length hs) - 1"
    proof -
      have "nat (int (length hs) - 1 - 2016) = length hs - 1 - 2016" using that by simp
      then show ?thesis using that by (simp add: header_at_def)
    qed
    have epoch: "(1209600000000000 :: int) sdiv 600000000000 = 2016"
      by (simp add: signed_divide_int_def)
    have nz: "(600000000000 :: int) \<noteq> 0" "(2016 :: int) \<noteq> 0" by simp_all
    show ?thesis
    proof (cases "height mod 2016 = 0")
      case True
      then have "diffBitcoin hs height (ParamsData.truncate p)
          = (if int (length hs) - 1 < 2016 then Inl (GoError ''diffBitcoin not enough headers'') else Inr bits)"
        using False assms(2) start bits(1) at
        by (simp add: diffBitcoin_def Let_def p(4,5,9) epoch smod_nonneg)
      then show ?thesis
        using bits(2) True by (simp add: Let_def)
    next
      case mid: False
      have "diffBitcoin hs height (ParamsData.truncate p)
          = Inr (if ReduceMinDifficulty p then
                   if bh_Timestamp (hs ! (length hs - 1)) * 10 ^ 9 > bh_Timestamp (hs ! (length hs - 2)) * 10 ^ 9 + 1200000000000
                     \<or> bh_Bits (hs ! k) = 0
                   then PowLimitBits p else bh_Bits (hs ! k)
                 else bh_Bits (hs ! (length hs - 2)))"
        using False mid assms(2) regular at
        by (simp add: diffBitcoin_def Let_def p(4,5,9) epoch smod_nonneg)
      then show ?thesis
        using k \<open>hs ! (length hs - 2) \<in> set hs\<close> by simp
    qed
  qed
qed

lemmas diffBitcoin_no_panic = diffBitcoin_bits [THEN conjunct1]



end
