(* ===== verification/Spv_Chain.thy ===== *)
theory Spv_Chain
  imports Chain_Diff Bv_Server
begin

text \<open>
  \<open>client/uspv\<close>: the header chain of a client. \<open>header.go\<close> and \<open>eight333.go\<close> read and
  write one file of 80-byte headers through its file offset; the offset is part of the state, because
  \<open>IngestHeaders\<close> writes where the last read left it. The package variable \<open>headerIndex\<close> is a
  field here. System calls on the open file fail only for a negative offset or size; logging and the
  mutex are left out, and so are the numbers and hashes that are formatted into the texts of errors.
\<close>

section \<open>The header file\<close>

record hfile =
  hf_data :: bytes
  hf_off :: nat

abbreviation EINVAL :: go_exn where
  "EINVAL \<equiv> GoError ''invalid argument''"

definition seek_to :: "int \<Rightarrow> hfile \<Rightarrow> hfile go" where
  "seek_to off f = (if off < 0 then Inl EINVAL else Inr (f\<lparr>hf_off := nat off\<rparr>))"

definition seek_end :: "int \<Rightarrow> hfile \<Rightarrow> hfile go" where
  "seek_end d f = seek_to (int (length (hf_data f)) + d) f"

definition read_header :: "hfile \<Rightarrow> BlockHeader go \<times> hfile" where
  "read_header f =
     (case readBlockHeader (drop (hf_off f) (hf_data f)) of
        Inr (h, r) \<Rightarrow> (Inr h, f\<lparr>hf_off := length (hf_data f) - length r\<rparr>)
      | Inl e \<Rightarrow> (Inl e, f\<lparr>hf_off := max (hf_off f) (length (hf_data f))\<rparr>))"

definition write_bytes :: "bytes \<Rightarrow> hfile \<Rightarrow> hfile" where
  "write_bytes b f =
     f\<lparr>hf_data := take (hf_off f) (hf_data f) @ zeros (hf_off f - length (hf_data f)) @ b
                    @ drop (hf_off f + length b) (hf_data f),
       hf_off := hf_off f + length b\<rparr>"

definition truncate_file :: "int \<Rightarrow> hfile \<Rightarrow> hfile go" where
  "truncate_file n f =
     (if n < 0 then Inl EINVAL
      else Inr (f\<lparr>hf_data := take (nat n) (hf_data f) @ zeros (nat n - length (hf_data f))\<rparr>))"

primrec read_headers :: "nat \<Rightarrow> hfile \<Rightarrow> BlockHeader list go \<times> hfile" where
  "read_headers 0 f = (Inr [], f)"
| "read_headers (Suc n) f =
     (case read_header f of
        (Inl e, f) \<Rightarrow> (Inl e, f)
      | (Inr h, f) \<Rightarrow> (case read_headers n f of (Inl e, f) \<Rightarrow> (Inl e, f) | (Inr hs, f) \<Rightarrow> (Inr (h # hs), f)))"

section \<open>Checks on headers\<close>

text \<open>
  \<open>fork_point\<close> is the loop that looks for the last position where both chains continue the same
  header. The first sum adds the work of \<open>a1[0]\<close> once per header of \<open>a1\<close>, as the code does.
\<close>

fun fork_point :: "BlockHeader list \<Rightarrow> BlockHeader list \<Rightarrow> nat \<Rightarrow> nat option" where
  "fork_point a b 0 = None"
| "fork_point a b (Suc i) =
     (let hash = BlockHash (a ! i)
      in if bh_PrevBlock (a ! Suc i) = hash \<and> bh_PrevBlock (b ! Suc i) = hash then Some (Suc i)
         else fork_point a b i)"

definition moreWork :: "BlockHeader list \<Rightarrow> BlockHeader list \<Rightarrow> bool" where
  "moreWork a b =
     (if length a = 0 \<or> length b = 0 then False
      else case fork_point a b (min (length a) (length b) - 1) of
             None \<Rightarrow> False
           | Some pos \<Rightarrow>
               let a1 = drop pos a; b1 = drop pos b;
                   workA = sum_list (map (\<lambda>_. CalcWork (bh_Bits (a1 ! 0))) a1);
                   workB = sum_list (map (\<lambda>h. CalcWork (bh_Bits h)) b1)
               in workA > workB)"

definition checkProofOfWork :: "BlockHeader \<Rightarrow> Params \<Rightarrow> int \<Rightarrow> bool" where
  "checkProofOfWork header p height =
     (let target = CompactToBig (bh_Bits header)
      in if target \<le> 0 then False
         else if target > PowLimit p then False
         else let buf = (case writeBlockHeader header of Inr b \<Rightarrow> b | Inl _ \<Rightarrow> []);
                  blockHash = PoWFunction p buf height
              in \<not> int (HashToBig blockHash) > target)"

fun check_message :: "BlockHeader list \<Rightarrow> nat \<Rightarrow> BlockHeader list \<Rightarrow> string option" where
  "check_message inHeaders i [] = None"
| "check_message inHeaders i (hdr # hdrs) =
     (if i > 1 \<and> bh_PrevBlock hdr \<noteq> BlockHash (inHeaders ! (i - 1))
      then Some ''headers in header message don't link''
      else if sint (bh_Version hdr) < 0 then Some ''header in message has negative version (hard fork?)''
      else check_message inHeaders (i + 1) hdrs)"

fun find_header_loop :: "nat \<Rightarrow> nat \<Rightarrow> BlockHeader \<Rightarrow> hfile \<Rightarrow> int go \<times> hfile" where
  "find_header_loop 0 tries hdr f = (Inr 0, f)"
| "find_header_loop (Suc left) tries hdr f =
     (case seek_end (- 80 * int tries) f of
        Inl e \<Rightarrow> (Inl e, f)
      | Inr f \<Rightarrow>
          let offset = int (hf_off f)
          in case read_header f of
               (Inl e, f) \<Rightarrow> (Inl e, f)
             | (Inr cur, f) \<Rightarrow>
                 if bh_PrevBlock hdr = BlockHash cur then (Inr (i32 (offset div 80)), f)
                 else find_header_loop left (tries + 1) hdr f)"

definition FindHeader :: "BlockHeader \<Rightarrow> hfile \<Rightarrow> int go \<times> hfile" where
  "FindHeader hdr f = find_header_loop 2199 1 hdr f"

fun check_difficulty :: "Params \<Rightarrow> int \<Rightarrow> nat \<Rightarrow> BlockHeader list \<Rightarrow> BlockHeader list \<Rightarrow> string option go" where
  "check_difficulty p height i prevHeaders [] = Inr None"
| "check_difficulty p height i prevHeaders (hdr # hdrs) =
     (let h = i32 (height + int i)
      in if h > AssumeDiffBefore p then
           if \<not> checkProofOfWork hdr p h then Inr (Some ''header in message has bad proof of work'')
           else
             let prevHeaders = prevHeaders @ [hdr]
             in catch_err (DiffCalcFunction p prevHeaders h (ParamsData.truncate p))
                  (\<lambda>e. Inr (Some (''Error calculating Block difficulty. '' @ e)))
                  (\<lambda>rightBits.
                     if bh_Bits hdr \<noteq> rightBits \<and> (pr_Name p \<noteq> ''vtctest'' \<and> pr_Name p \<noteq> ''vtc'')
                     then Inr (Some ''Block incorrect difficulty'')
                     else check_difficulty p height (i + 1) prevHeaders hdrs)
         else check_difficulty p height (i + 1) prevHeaders hdrs)"

section \<open>\<open>CheckHeaderChain\<close>\<close>

text \<open>The \<open>int32\<close> and the \<open>error\<close> it returns; a panic is outside.\<close>

type_synonym check_result = "int \<times> string option"

definition epoch_length :: "Params \<Rightarrow> int go" where
  "epoch_length p =
     (if TargetTimePerBlock p = 0 then div_by_zero
      else Inr (if MinHeaders p > 0 then MinHeaders p else i32 (TargetTimespan p sdiv TargetTimePerBlock p)))"

text \<open>
  Lines 365-415: a message that does not continue the tip. The result is the attach height and the
  headers left to build on.
\<close>

definition check_attach ::
  "BlockHeader list \<Rightarrow> BlockHeader list \<Rightarrow> Params \<Rightarrow> int \<Rightarrow> int \<Rightarrow> hfile
     \<Rightarrow> (((check_result + int \<times> BlockHeader list)) \<times> hfile) go" where
  "check_attach inHeaders oldHeaders p height numheaders f =
     (if oldHeaders = [] then index_out_of_range
      else if bh_PrevBlock (inHeaders ! 0) = BlockHash (last oldHeaders) then Inr (Inr (0, oldHeaders), f)
      else case FindHeader (inHeaders ! 0) f of
             (Inl (GoPanic e), f) \<Rightarrow> Inl (GoPanic e)
           | (Inl (GoError e), f) \<Rightarrow>
               Inr (Inl (0, Some ''CheckHeaderChain: header message doesn't attach to tip or anywhere.''), f)
           | (Inr attach, f) \<Rightarrow>
               let attachHeight = i32 (attach + StartHeight p)
               in if moreWork inHeaders oldHeaders then Inr (Inl (- 1, Some ''reorg message''), f)
                  else
                    let reorgDepth = i32 (height - attachHeight)
                    in if reorgDepth > numheaders
                       then Inr (Inl (0, Some ''Reorg depth is greater than the number of headers received, exiting!''), f)
                       else
                         let k = i32 (numheaders - reorgDepth)
                         in if 0 \<le> k \<and> k \<le> int (length oldHeaders)
                            then Inr (Inr (attachHeight, take (nat k) oldHeaders), f)
                            else Inl (GoPanic ''slice bounds out of range''))"

definition CheckHeaderChain :: "hfile \<Rightarrow> BlockHeader list \<Rightarrow> Params \<Rightarrow> (check_result \<times> hfile) go" where
  "CheckHeaderChain f inHeaders p =
     (if length inHeaders < 1
      then Inr ((0, Some ''CheckHeaderChain: headers message doesn't have any headers.''), f)
      else case check_message inHeaders 0 inHeaders of Some e \<Rightarrow> Inr ((0, Some e), f)
      | None \<Rightarrow>
        bind_go (epoch_length p) (\<lambda>epochLength.
        catch_err (seek_end (- 80) f) (\<lambda>e. Inr ((0, Some e), f)) (\<lambda>f.
        let pos = int (hf_off f)
        in if pos mod 80 \<noteq> 0
           then Inr ((0, Some ''CheckHeaderChain: Header file not a multiple of 80 bytes.''), f)
           else
             let height = i32 (i32 (pos div 80) + StartHeight p + 1);
                 many = pos > i32 (80 * i32 (epochLength + 1));
                 numheaders = (if many then i32 (epochLength + 1) else i32 (height - StartHeight p))
             in catch_err (if many then seek_end (i32 (- 80 * i32 (epochLength + 1))) f else seek_to 0 f)
                  (\<lambda>e. Inr ((0, Some e), f)) (\<lambda>f.
                if numheaders < 0 then Inl (GoPanic ''makeslice: len out of range'')
                else case read_headers (nat numheaders) f of
                       (Inl (GoPanic e), f) \<Rightarrow> Inl (GoPanic e)
                     | (Inl (GoError e), f) \<Rightarrow> Inr ((0, Some e), f)
                     | (Inr oldHeaders, f) \<Rightarrow>
                         bind_go (check_attach inHeaders oldHeaders p height numheaders f) (\<lambda>(res, f).
                         case res of Inl r \<Rightarrow> Inr (r, f)
                         | Inr (attachHeight, prevHeaders) \<Rightarrow>
                             bind_go (check_difficulty p height 0 prevHeaders inHeaders) (\<lambda>err.
                             case err of Some e \<Rightarrow> Inr ((0, Some e), f)
                             | None \<Rightarrow> Inr ((attachHeight, None), f)))))))"

section \<open>The connection\<close>

record SPVCon =
  headerFile :: hfile
  headerIndex :: "(bytes \<rightharpoonup> nat) option"
  syncHeight :: int
  Synced :: bool
  localVersion :: "32 word"
  Param :: Params
  outMsgQueue :: "MsgGetHeaders list"

definition openHeaderFile :: "bytes option \<Rightarrow> Params \<Rightarrow> hfile" where
  "openHeaderFile existing p =
     \<lparr>hf_data = (case existing of Some b \<Rightarrow> b
        | None \<Rightarrow> if StartHeight p \<noteq> 0 then StartHeader p
                  else (case writeBlockHeader (GenesisHeader p) of Inr b \<Rightarrow> b | Inl _ \<Rightarrow> [])),
      hf_off = 0\<rparr>"

definition GetHeaderTipHeight :: "SPVCon \<Rightarrow> int \<times> SPVCon" where
  "GetHeaderTipHeight s =
     (let size = length (hf_data (headerFile s));
          s = (if size = 0 \<or> size mod 80 \<noteq> 0
               then case truncate_file (int (size - size mod 80)) (headerFile s) of
                      Inr f \<Rightarrow> s\<lparr>headerFile := f\<rparr> | Inl _ \<Rightarrow> s
               else s)
      in (i32 (i32 (int (size div 80)) + StartHeight (Param s) - 1), s))"

definition GetHeaderAtHeight :: "int \<Rightarrow> SPVCon \<Rightarrow> BlockHeader go \<times> SPVCon" where
  "GetHeaderAtHeight h s =
     (case seek_to (i32 (80 * i32 (h - StartHeight (Param s)))) (headerFile s) of
        Inl e \<Rightarrow> (Inl e, s)
      | Inr f \<Rightarrow> (case read_header f of (res, f) \<Rightarrow> (res, s\<lparr>headerFile := f\<rparr>)))"

text \<open>\<open>IndexHeaders\<close> stops at \<open>io.EOF\<close>; any other error is returned.\<close>

function index_loop :: "hfile \<Rightarrow> (bytes \<rightharpoonup> nat) \<Rightarrow> string option \<times> hfile \<times> (bytes \<rightharpoonup> nat)" where
  "index_loop f idx =
     (case read_header f of
        (Inl e, f') \<Rightarrow> ((if e = EOF then None else case e of GoError m \<Rightarrow> Some m | GoPanic m \<Rightarrow> Some m), f', idx)
      | (Inr cur, f') \<Rightarrow> index_loop f' (idx(BlockHash cur \<mapsto> hf_off f)))"
  by pat_completeness auto


lemma read_header_Inr:
  assumes "read_header f = (Inr h, f')"
  shows "header_ok h" "f' = f\<lparr>hf_off := hf_off f + 80\<rparr>" "hf_off f + 80 \<le> length (hf_data f)"
    "take 80 (drop (hf_off f) (hf_data f)) = header_bytes h"
proof -
  obtain r where r: "readBlockHeader (drop (hf_off f) (hf_data f)) = Inr (h, r)"
      "f' = f\<lparr>hf_off := length (hf_data f) - length r\<rparr>"
    using assms by (auto simp: read_header_def split: sum.splits prod.splits)
  then have ok: "header_ok h" "drop (hf_off f) (hf_data f) = header_bytes h @ r"
    by (simp_all add: readBlockHeader_iff)
  have len: "length (hf_data f) - hf_off f = 80 + length r"
    using arg_cong [OF ok(2), of length] ok(1) by (simp add: length_header_bytes blockHeaderLen_def)
  show "header_ok h" "f' = f\<lparr>hf_off := hf_off f + 80\<rparr>" "hf_off f + 80 \<le> length (hf_data f)"
      "take 80 (drop (hf_off f) (hf_data f)) = header_bytes h"
    using ok r(2) len by (auto simp: length_header_bytes blockHeaderLen_def)
qed

lemma read_header_shrinks:
  "(Inr h, f') = read_header f \<Longrightarrow> length (hf_data f') - hf_off f' < length (hf_data f) - hf_off f"
  using read_header_Inr(2,3) [of f h f'] by auto

termination index_loop
  by (relation "measure (\<lambda>(f, idx). length (hf_data f) - hf_off f)") (auto dest: read_header_shrinks)

declare index_loop.simps [simp del]

definition IndexHeaders :: "SPVCon \<Rightarrow> string option \<times> SPVCon" where
  "IndexHeaders s =
     (case index_loop ((headerFile s)\<lparr>hf_off := 0\<rparr>) (case headerIndex s of Some m \<Rightarrow> m | None \<Rightarrow> Map.empty) of
        (err, f, idx) \<Rightarrow> (err, s\<lparr>headerFile := f, headerIndex := Some idx\<rparr>))"

text \<open>
  The scan of \<open>GetHeaderByBlockHash\<close>. A header that is not in the index is entered with the offset
  that \<open>Seek(0, SEEK_CUR)\<close> gives after it was read.
\<close>

fun scan_headers :: "nat \<Rightarrow> nat \<Rightarrow> bytes \<Rightarrow> hfile \<Rightarrow> (bytes \<rightharpoonup> nat) \<Rightarrow> BlockHeader go \<times> hfile \<times> (bytes \<rightharpoonup> nat)" where
  "scan_headers 0 tries hash f idx = (Inl (GoError ''Block not found''), f, idx)"
| "scan_headers (Suc left) tries hash f idx =
     (case seek_end (- 80 * int tries) f of
        Inl e \<Rightarrow> (Inl e, f, idx)
      | Inr f \<Rightarrow>
          (case read_header f of
             (Inl e, f) \<Rightarrow> (Inl e, f, idx)
           | (Inr cur, f) \<Rightarrow>
               let curhash = BlockHash cur;
                   idx = (if idx curhash = None then idx(curhash \<mapsto> hf_off f) else idx)
               in if hash = curhash then (Inr cur, f, idx)
                  else scan_headers left (tries + 1) hash f idx))"

definition GetHeaderByBlockHash :: "bytes option \<Rightarrow> SPVCon \<Rightarrow> BlockHeader go \<times> SPVCon" where
  "GetHeaderByBlockHash hash s =
     (case GetHeaderTipHeight s of (numBlocks, s) \<Rightarrow>
      case (if headerIndex s = None then IndexHeaders s else (None, s)) of
        (Some e, s) \<Rightarrow> (Inl (GoError e), s)
      | (None, s) \<Rightarrow>
          (case hash of None \<Rightarrow> (nil_deref, s)
           | Some hash \<Rightarrow>
               let idx = the (headerIndex s)
               in case idx hash of
                    Some pos \<Rightarrow>
                      (case read_header ((headerFile s)\<lparr>hf_off := pos\<rparr>) of (res, f) \<Rightarrow> (res, s\<lparr>headerFile := f\<rparr>))
                  | None \<Rightarrow>
                      (case scan_headers (nat (go_Min 1000 numBlocks) - 1) 1 hash (headerFile s) idx of
                         (res, f, idx) \<Rightarrow> (res, s\<lparr>headerFile := f, headerIndex := Some idx\<rparr>))))"

section \<open>Synchronisation\<close>

definition write_header :: "BlockHeader \<Rightarrow> hfile \<Rightarrow> hfile" where
  "write_header h f = (case writeBlockHeader h of Inr b \<Rightarrow> write_bytes b f | Inl _ \<Rightarrow> f)"

text \<open>The \<open>bool\<close> says that there may be more headers to ask for.\<close>

definition IngestHeaders :: "BlockHeader list \<Rightarrow> SPVCon \<Rightarrow> ((bool \<times> string option) \<times> SPVCon) go" where
  "IngestHeaders headers s =
     (if length headers = 0 then Inr ((False, None), s\<lparr>Synced := True\<rparr>)
      else bind_go (CheckHeaderChain (headerFile s) headers (Param s)) (\<lambda>((reorgHeight, err), f).
        let s = s\<lparr>headerFile := f\<rparr>
        in case err of
             Some e \<Rightarrow> Inr (if reorgHeight = - 1 then (True, None) else (True, Some e), s)
           | None \<Rightarrow>
               catch_err
                 (if reorgHeight \<noteq> 0 then
                    bind_go (truncate_file (i32 (reorgHeight - StartHeight (Param s)) * 80) f) (\<lambda>f.
                      Inr (s\<lparr>headerFile := f, syncHeight := reorgHeight\<rparr>))
                  else Inr s)
                 (\<lambda>e. Inr ((False, Some e), s))
                 (\<lambda>s. Inr ((True, None), s\<lparr>headerFile := fold write_header headers (headerFile s)\<rparr>))))"

text \<open>The block locator: the last headers one by one, then with growing steps.\<close>

function locator_loop :: "int \<Rightarrow> int \<Rightarrow> MsgGetHeaders \<Rightarrow> SPVCon \<Rightarrow> MsgGetHeaders go \<times> SPVCon" where
  "locator_loop tipheight backnum ghdr s =
     (if tipheight > i32 (StartHeight (Param s) + backnum) then
        (case GetHeaderAtHeight (i32 (tipheight - backnum)) s of
           (Inl e, s) \<Rightarrow> (Inl e, s)
         | (Inr backhdr, s) \<Rightarrow>
             (case getheaders_AddBlockLocatorHash ghdr (BlockHash backhdr) of
                Inl e \<Rightarrow> (Inl e, s)
              | Inr ghdr \<Rightarrow>
                  locator_loop tipheight (if backnum > 10 then i32 (push_bit 2 backnum) else i32 (backnum + 1)) ghdr s))
      else (Inr ghdr, s))"
  by pat_completeness auto

termination locator_loop
  by (relation "measure (\<lambda>(t, b, g, s). MaxBlockLocatorsPerMsg - length (gh_BlockLocatorHashes g))")
     (auto simp: getheaders_AddBlockLocatorHash_def split: if_splits)

declare locator_loop.simps [simp del]

definition AskForHeaders :: "SPVCon \<Rightarrow> unit go \<times> SPVCon" where
  "AskForHeaders s =
     (let s = s\<lparr>Synced := False\<rparr>;
          ghdr = \<lparr>gh_ProtocolVersion = localVersion s, gh_BlockLocatorHashes = [], gh_HashStop = zeros HashSize\<rparr>
      in case GetHeaderTipHeight s of (tipheight, s) \<Rightarrow>
         case GetHeaderAtHeight tipheight s of
           (Inl e, s) \<Rightarrow> (Inl e, s)
         | (Inr tipheader, s) \<Rightarrow>
             (case getheaders_AddBlockLocatorHash ghdr (BlockHash tipheader) of
                Inl e \<Rightarrow> (Inl e, s)
              | Inr ghdr \<Rightarrow>
                  (case locator_loop tipheight 1 ghdr s of
                     (Inl e, s) \<Rightarrow> (Inl e, s)
                   | (Inr ghdr, s) \<Rightarrow> (Inr (), s\<lparr>outMsgQueue := outMsgQueue s @ [ghdr]\<rparr>))))"

definition HeaderHandler :: "BlockHeader list \<Rightarrow> SPVCon \<Rightarrow> SPVCon go" where
  "HeaderHandler headers s =
     bind_go (IngestHeaders headers s) (\<lambda>((moar, err), s).
       if moar then (case AskForHeaders s of (Inl (GoPanic e), _) \<Rightarrow> Inl (GoPanic e) | (_, s) \<Rightarrow> Inr s)
       else Inr s)"


section \<open>Files that hold headers\<close>

definition holds :: "hfile \<Rightarrow> BlockHeader list \<Rightarrow> bool" where
  "holds f hs \<longleftrightarrow> hf_data f = concat (map header_bytes hs) \<and> list_all header_ok hs"

lemma length_headers: "list_all header_ok hs \<Longrightarrow> length (concat (map header_bytes hs)) = 80 * length hs"
  by (induction hs) (simp_all add: length_header_bytes blockHeaderLen_def)

lemma holds_length: "holds f hs \<Longrightarrow> length (hf_data f) = 80 * length hs"
  by (simp add: holds_def length_headers)

lemma holds_off [simp]: "holds (f\<lparr>hf_off := n\<rparr>) hs \<longleftrightarrow> holds f hs"
  by (simp add: holds_def)

lemma drop_headers:
  "list_all header_ok hs \<Longrightarrow> drop (80 * k) (concat (map header_bytes hs)) = concat (map header_bytes (drop k hs))"
proof (induction hs arbitrary: k)
  case (Cons h hs)
  then show ?case
    by (cases k) (simp_all add: length_header_bytes blockHeaderLen_def)
qed simp

lemma take_headers:
  "list_all header_ok hs \<Longrightarrow> take (80 * k) (concat (map header_bytes hs)) = concat (map header_bytes (take k hs))"
proof (induction hs arbitrary: k)
  case (Cons h hs)
  then show ?case
    by (cases k) (simp_all add: length_header_bytes blockHeaderLen_def)
qed simp

lemma readBlockHeader_Nil: "readBlockHeader [] = Inl EOF"
  by (simp add: readBlockHeader_def Uint32_def readFull_def)

lemma read_header_at:
  assumes "holds f hs" "k < length hs"
  shows "read_header (f\<lparr>hf_off := 80 * k\<rparr>) = (Inr (hs ! k), f\<lparr>hf_off := 80 * k + 80\<rparr>)"
proof -
  have ok: "list_all header_ok hs" "hf_data f = concat (map header_bytes hs)"
    using assms(1) by (simp_all add: holds_def)
  then have "header_ok (hs ! k)"
    using assms(2) by (simp add: list_all_length)
  moreover have "drop (80 * k) (hf_data f) = header_bytes (hs ! k) @ concat (map header_bytes (drop (Suc k) hs))"
    using ok assms(2) by (simp add: drop_headers Cons_nth_drop_Suc [symmetric])
  moreover have "list_all header_ok (drop (Suc k) hs)"
    using ok(1) by (auto simp: list_all_iff dest: in_set_dropD)
  ultimately show ?thesis
    using ok assms(2) by (simp add: read_header_def length_headers)
qed

lemma read_header_end:
  assumes "holds f hs" "length hs \<le> k"
  shows "read_header (f\<lparr>hf_off := 80 * k\<rparr>) = (Inl EOF, f\<lparr>hf_off := 80 * k\<rparr>)"
  using assms holds_length [OF assms(1)] by (simp add: read_header_def readBlockHeader_Nil)

lemma read_headers_at:
  "holds f hs \<Longrightarrow> k + n \<le> length hs \<Longrightarrow>
     read_headers n (f\<lparr>hf_off := 80 * k\<rparr>) = (Inr (take n (drop k hs)), f\<lparr>hf_off := 80 * (k + n)\<rparr>)"
proof (induction n arbitrary: k)
  case (Suc n)
  have "read_headers n (f\<lparr>hf_off := 80 * k + 80\<rparr>) = (Inr (take n (drop (Suc k) hs)), f\<lparr>hf_off := 80 * (k + Suc n)\<rparr>)"
    using Suc.IH [of "Suc k"] Suc.prems by (simp add: add.commute)
  moreover have "drop k hs = hs ! k # drop (Suc k) hs"
    using Suc.prems(2) by (simp add: Cons_nth_drop_Suc)
  moreover have "read_header (f\<lparr>hf_off := 80 * k\<rparr>) = (Inr (hs ! k), f\<lparr>hf_off := 80 * k + 80\<rparr>)"
    using Suc.prems by (intro read_header_at) simp_all
  ultimately show ?case
    by simp
qed simp

lemma seek_back:
  assumes "holds f hs" "t \<le> length hs"
  shows "seek_end (- 80 * int t) f = Inr (f\<lparr>hf_off := 80 * (length hs - t)\<rparr>)"
proof -
  have "int (80 * length hs) + - 80 * int t = int (80 * (length hs - t))"
    using assms(2) by (simp add: of_nat_diff)
  then show ?thesis
    unfolding seek_end_def seek_to_def holds_length [OF assms(1)] by (simp only: nat_int of_nat_less_0_iff if_False)
qed

end
