(* ===== verification/Bv_Client.thy ===== *)
theory Bv_Client
  imports Bv_Server Spv_Chain
begin

text \<open>
  \<open>client/client.go\<close>, \<open>commitverify.go\<close>, \<open>chainverify.go\<close> and the verification part of
  \<open>rpc.go\<close>. The state of a client is one record. A call that changes it returns its result next to
  the new state, since what was sent or stored before an error stays.

  Parameters are the code outside the repository: the database (buntdb), ECDSA, the peer behind the
  connection and the Bitcoin peers. \<open>net_send\<close> takes the bytes written to the server and gives the bytes
  that arrive before the caller stops waiting; \<open>ReceiveLoop\<close> turns them into the values that the
  goroutine of that name puts on the client's channels. What that loop reads when nobody waits is
  dropped. \<open>spv_wait\<close> is what the headers of the Bitcoin peers make of the header chain until it is
  synchronised. An error of a range is that of opening the transaction, the scan itself returns none.
\<close>

section \<open>State and parameters\<close>

record 'db kv =
  kv_Get :: "'db \<Rightarrow> string \<Rightarrow> bytes go"
  kv_Set :: "'db \<Rightarrow> string \<Rightarrow> bytes \<Rightarrow> 'db go"
  kv_Delete :: "'db \<Rightarrow> string \<Rightarrow> 'db go"
  kv_AscendRange :: "'db \<Rightarrow> string \<Rightarrow> string \<Rightarrow> (string \<times> bytes) list go"
  kv_DescendRange :: "'db \<Rightarrow> string \<Rightarrow> string \<Rightarrow> (string \<times> bytes) list go"

record ('db, 'n) cenv = "'db kv" +
  key_Sign :: "bytes \<Rightarrow> Signature go"
  cl_ecdsa :: ecdsa
  net_send :: "'n \<Rightarrow> bytes \<Rightarrow> bytes go \<times> 'n"
  spv_wait :: "SPVCon \<Rightarrow> SPVCon"

record ('db, 'n) Client =
  cl_pubKey :: bytes
  cl_db :: 'db
  cl_conn :: 'n
  cl_spv :: SPVCon
  lastServerCommitment :: "Commitment_rec option"
  fullClient :: bool
  FastMode :: bool
  DummySignatures :: bool

abbreviation ErrNotFound :: go_exn where
  "ErrNotFound \<equiv> GoError ''not found''"

type_synonym ('c, 'a) op = "'c \<Rightarrow> 'a go \<times> 'c"

definition op_bind :: "('c, 'a) op \<Rightarrow> ('a \<Rightarrow> ('c, 'b) op) \<Rightarrow> ('c, 'b) op" where
  "op_bind m f c = (case m c of (Inr x, c) \<Rightarrow> f x c | (Inl e, c) \<Rightarrow> (Inl e, c))"

definition op_lift :: "'a go \<Rightarrow> ('c, 'a) op" where
  "op_lift r c = (r, c)"

text \<open>\<open>fmt.Errorf("...: %s", err)\<close> around a returned error.\<close>

definition wrap_error :: "string \<Rightarrow> 'a go \<Rightarrow> 'a go" where
  "wrap_error prefix r = (case r of Inl (GoError e) \<Rightarrow> Inl (GoError (prefix @ e)) | _ \<Rightarrow> r)"

section \<open>Keys of the database\<close>

definition fmt_09d :: "nat \<Rightarrow> string" where
  "fmt_09d n = (let d = decimal n in replicate (9 - length d) (CHR ''0'') @ d)"

definition fmt_09d_int :: "int \<Rightarrow> string" where
  "fmt_09d_int i =
     (if i < 0 then let d = decimal (nat (- i)) in CHR ''-'' # replicate (8 - length d) (CHR ''0'') @ d
      else fmt_09d (nat i))"

definition fmt_d :: "int \<Rightarrow> string" where
  "fmt_d i = (if i < 0 then CHR ''-'' # decimal (nat (- i)) else decimal (nat i))"

definition id_key :: "string \<Rightarrow> bytes \<Rightarrow> string" where
  "id_key prefix logId = prefix @ hex_EncodeToString logId"

definition idx_key :: "string \<Rightarrow> bytes \<Rightarrow> string \<Rightarrow> string" where
  "idx_key prefix logId idx = prefix @ hex_EncodeToString logId @ ''-'' @ idx"

abbreviation foreign_idx :: string where
  "foreign_idx \<equiv> ''999999999''"

text \<open>\<open>strconv.ParseInt(s, 10, 64)\<close>: the value it returns and whether the error is nil.\<close>

fun parse_uint :: "nat \<Rightarrow> string \<Rightarrow> nat option" where
  "parse_uint n [] = Some n"
| "parse_uint n (c # cs) =
     (let d = of_char c :: nat
      in if d < 48 \<or> 57 < d then None
         else let m = 10 * n + (d - 48) in if m \<ge> 2 ^ 64 then Some (2 ^ 64 - 1) else parse_uint m cs)"

definition ParseInt :: "string \<Rightarrow> int \<times> bool" where
  "ParseInt s =
     (let (neg, ds) = (case s of c # cs \<Rightarrow> if c = CHR ''-'' then (True, cs) else if c = CHR ''+'' then (False, cs) else (False, s)
                       | [] \<Rightarrow> (False, []))
      in case (if ds = [] then None else parse_uint 0 ds) of
           None \<Rightarrow> (0, False)
         | Some un \<Rightarrow>
             if \<not> neg \<and> un \<ge> 2 ^ 63 then (2 ^ 63 - 1, False)
             else if neg \<and> un > 2 ^ 63 then (- (2 ^ 63), False)
             else (if neg then - int un else int un, True))"

text \<open>\<open>hex.DecodeString\<close> with its error dropped: the bytes before the first invalid pair.\<close>

fun hex_prefix :: "string \<Rightarrow> bytes" where
  "hex_prefix (c # d # s) =
     (case (fromHexChar c, fromHexChar d) of
        (Some x, Some y) \<Rightarrow> word_of_nat (16 * x + y) # hex_prefix s
      | _ \<Rightarrow> [])"
| "hex_prefix _ = []"

section \<open>Transactions of the database\<close>

primrec set_all :: "('db, 'x) kv_scheme \<Rightarrow> (string \<times> bytes) list \<Rightarrow> 'db \<Rightarrow> 'db go" where
  "set_all env [] db = Inr db"
| "set_all env (kv # kvs) db = bind_go (kv_Set env db (fst kv) (snd kv)) (set_all env kvs)"

primrec delete_all :: "('db, 'x) kv_scheme \<Rightarrow> string list \<Rightarrow> 'db \<Rightarrow> 'db go" where
  "delete_all env [] db = Inr db"
| "delete_all env (k # ks) db = bind_go (kv_Delete env db k) (delete_all env ks)"

text \<open>\<open>db.Update\<close> rolls back when the function returns an error.\<close>

definition db_Update :: "('db \<Rightarrow> 'db go) \<Rightarrow> (('db, 'n) Client, unit) op" where
  "db_Update f c = (case f (cl_db c) of Inr db \<Rightarrow> (Inr (), c\<lparr>cl_db := db\<rparr>) | Inl e \<Rightarrow> (Inl e, c))"

section \<open>Messages from the server\<close>

datatype client_event =
    Ev_Ack
  | Ev_Error bytes
  | Ev_ProofUpdate bytes
  | Ev_Proof PartialMPT
  | Ev_Details Commitment_rec
  | Ev_History "Commitment_rec list"
  | Ev_Closed
  | Ev_Crash string

definition parsed :: "'a go \<Rightarrow> ('a \<Rightarrow> client_event) \<Rightarrow> client_event" where
  "parsed r f = (case r of Inr x \<Rightarrow> f x | Inl (GoError _) \<Rightarrow> Ev_Closed | Inl (GoPanic e) \<Rightarrow> Ev_Crash e)"

text \<open>The body of the loop; \<open>None\<close> for a type it ignores.\<close>

definition client_receive :: "MessageType \<Rightarrow> bytes \<Rightarrow> client_event option" where
  "client_receive t p =
     (if t = MessageTypeAck then Some Ev_Ack
      else if t = MessageTypeError then Some (Ev_Error p)
      else if t = MessageTypeProofUpdate then Some (Ev_ProofUpdate p)
      else if t = MessageTypeProof then Some (parsed (DeserializeNewPartialMPT p) (\<lambda>(mpt, _). Ev_Proof mpt))
      else if t = MessageTypeCommitmentDetails then
        Some (parsed (NewCommitmentDetailsMessageFromBytes p) (\<lambda>msg. Ev_Details (cdm_Commitment msg)))
      else if t = MessageTypeCommitmentHistory then
        Some (parsed (NewCommitmentHistoryMessageFromBytes p) (\<lambda>msg. Ev_History (Commitments msg)))
      else None)"

fun ends_loop :: "client_event \<Rightarrow> bool" where
  "ends_loop (Ev_Error _) = True"
| "ends_loop Ev_Closed = True"
| "ends_loop (Ev_Crash _) = True"
| "ends_loop _ = False"

function ReceiveLoop :: "bytes \<Rightarrow> client_event list" where
  "ReceiveLoop conn =
     (case ReadNextMessage conn of
        Inl (GoError _) \<Rightarrow> [Ev_Closed]
      | Inl (GoPanic e) \<Rightarrow> [Ev_Crash e]
      | Inr ((t, p), conn') \<Rightarrow>
          (case client_receive t p of
             None \<Rightarrow> ReceiveLoop conn'
           | Some ev \<Rightarrow> if ends_loop ev then [ev] else ev # ReceiveLoop conn'))"
  by pat_completeness auto
termination
  by (relation "measure length") (auto simp: ReadNextMessage_iff conn_WriteMessage_eq)

declare ReceiveLoop.simps [simp del]

text \<open>What a caller that waits on some of the channels gets; a panic of the loop ends the program.\<close>

fun await :: "(client_event \<Rightarrow> 'a go option) \<Rightarrow> client_event list \<Rightarrow> 'a go option" where
  "await sel [] = None"
| "await sel (ev # evs) =
     (case ev of Ev_Crash e \<Rightarrow> Some (Inl (GoPanic e))
      | _ \<Rightarrow> (case sel ev of Some r \<Rightarrow> Some r | None \<Rightarrow> await sel evs))"

definition or_error :: "client_event \<Rightarrow> 'a go option \<Rightarrow> 'a go option" where
  "or_error ev r = (case ev of Ev_Error p \<Rightarrow> Some (Inl (GoError (bytes_string p))) | _ \<Rightarrow> r)"

definition send_message :: "('db, 'n) cenv \<Rightarrow> MessageType \<Rightarrow> bytes \<Rightarrow> (('db, 'n) Client, client_event list) op" where
  "send_message env t m c =
     (case net_send env (cl_conn c) (conn_WriteMessage t m) of
        (r, n) \<Rightarrow> (bind_go r (\<lambda>b. Inr (ReceiveLoop b)), c\<lparr>cl_conn := n\<rparr>))"

definition send_for_ack :: "('db, 'n) cenv \<Rightarrow> MessageType \<Rightarrow> bytes \<Rightarrow> (('db, 'n) Client, unit) op" where
  "send_for_ack env t m =
     op_bind (send_message env t m) (\<lambda>evs. op_lift
       (case await (\<lambda>ev. or_error ev (if ev = Ev_Ack then Some (Inr ()) else None)) evs of
          Some r \<Rightarrow> r | None \<Rightarrow> Inl (GoError ''Timeout waiting for ACK'')))"

definition SubscribeProofUpdates :: "('db, 'n) cenv \<Rightarrow> (('db, 'n) Client, unit) op" where
  "SubscribeProofUpdates env = send_for_ack env MessageTypeSubscribeProofUpdates []"

definition UnsubscribeProofUpdates :: "('db, 'n) cenv \<Rightarrow> (('db, 'n) Client, unit) op" where
  "UnsubscribeProofUpdates env = send_for_ack env MessageTypeUnsubscribeProofUpdates []"

definition RequestProof :: "('db, 'n) cenv \<Rightarrow> bytes list \<Rightarrow> (('db, 'n) Client, PartialMPT) op" where
  "RequestProof env logIds =
     op_bind (send_message env MessageTypeRequestProof (RequestProofMessage_Bytes (NewRequestProofMessage logIds)))
       (\<lambda>evs. op_lift
          (case await (\<lambda>ev. or_error ev (case ev of Ev_Proof p \<Rightarrow> Some (Inr p) | _ \<Rightarrow> None)) evs of
             Some r \<Rightarrow> r | None \<Rightarrow> Inl (GoError ''Timeout waiting for proof'')))"

text \<open>These two wait without a timeout: \<open>None\<close> when the answer does not come.\<close>

definition cli_GetCommitmentHistory :: "('db, 'n) cenv \<Rightarrow> bytes \<Rightarrow> (('db, 'n) Client, Commitment_rec list option) op" where
  "cli_GetCommitmentHistory env sinceCommitment =
     op_bind (send_message env MessageTypeRequestCommitmentHistory
         (RequestCommitmentHistoryMessage_Bytes (NewRequestCommitmentHistoryMessage sinceCommitment)))
       (\<lambda>evs. op_lift
          (case await (\<lambda>ev. case ev of Ev_History h \<Rightarrow> Some (Inr (Some h)) | _ \<Rightarrow> None) evs of
             Some r \<Rightarrow> r | None \<Rightarrow> Inr None))"

definition cli_GetCommitmentDetails :: "('db, 'n) cenv \<Rightarrow> bytes \<Rightarrow> (('db, 'n) Client, Commitment_rec option) op" where
  "cli_GetCommitmentDetails env commitment =
     op_bind (send_message env MessageTypeRequestCommitmentDetails
         (RequestCommitmentDetailsMessage_Bytes (NewRequestCommitmentDetailsMessage commitment)))
       (\<lambda>evs. op_lift
          (case await (\<lambda>ev. case ev of Ev_Details d \<Rightarrow> Some (Inr (Some d)) | _ \<Rightarrow> None) evs of
             Some r \<Rightarrow> r | None \<Rightarrow> Inr None))"


section \<open>Reading the local data\<close>

definition cli_get :: "('db, 'n) cenv \<Rightarrow> ('db, 'n) Client \<Rightarrow> string \<Rightarrow> bytes go" where
  "cli_get env c key = kv_Get env (cl_db c) key"

definition GetLastHash :: "('db, 'n) cenv \<Rightarrow> ('db, 'n) Client \<Rightarrow> bytes \<Rightarrow> (int \<times> bytes) go" where
  "GetLastHash env c logId =
     (case cli_get env c (id_key ''lastidx-'' logId) of
        Inl e \<Rightarrow> if e = ErrNotFound then Inr (- 1, zeros 32) else Inl e
      | Inr val \<Rightarrow>
          (case ParseInt (bytes_string val) of
             (_, False) \<Rightarrow> Inl (GoError ''strconv.ParseInt'')
           | (idx, True) \<Rightarrow>
               bind_go (cli_get env c (idx_key ''loghash-'' logId (fmt_09d_int idx))) (\<lambda>val.
                 Inr (idx, copy_bytes (zeros 32) val))))"

definition IsCommitted :: "('db, 'n) cenv \<Rightarrow> ('db, 'n) Client \<Rightarrow> bytes \<Rightarrow> 64 word \<Rightarrow> bool" where
  "IsCommitted env c logId idx =
     (case cli_get env c (idx_key ''logcommitment-'' logId (fmt_09d (unat idx))) of
        Inr val \<Rightarrow> length val > 0 | Inl _ \<Rightarrow> False)"

text \<open>The loop from the last index down; \<open>i\<close> is the index plus one.\<close>

fun last_committed :: "('db, 'n) cenv \<Rightarrow> ('db, 'n) Client \<Rightarrow> bytes \<Rightarrow> nat \<Rightarrow> (int \<times> bytes) go" where
  "last_committed env c logId 0 = Inl (GoError ''No committed hash found'')"
| "last_committed env c logId (Suc i) =
     (if IsCommitted env c logId (word_of_nat i) then
        (case cli_get env c (idx_key ''loghash-'' logId (fmt_09d i)) of
           Inr val \<Rightarrow> if val \<noteq> [] then Inr (int i, copy_bytes (zeros 32) val) else last_committed env c logId i
         | Inl _ \<Rightarrow> last_committed env c logId i)
      else last_committed env c logId i)"

definition GetLastCommittedLog :: "('db, 'n) cenv \<Rightarrow> ('db, 'n) Client \<Rightarrow> bytes \<Rightarrow> (int \<times> bytes) go" where
  "GetLastCommittedLog env c logId =
     (let idx = (case cli_get env c (id_key ''lastidx-'' logId) of
                   Inr val \<Rightarrow> fst (ParseInt (bytes_string val)) | Inl _ \<Rightarrow> - 1)
      in last_committed env c logId (nat (idx + 1)))"

definition GetLogPreimage :: "('db, 'n) cenv \<Rightarrow> ('db, 'n) Client \<Rightarrow> bytes \<Rightarrow> 64 word \<Rightarrow> bytes go" where
  "GetLogPreimage env c logId idx =
     (case cli_get env c (idx_key ''logpreimage-'' logId (fmt_09d (unat idx))) of
        Inr preimage \<Rightarrow> Inr preimage
      | Inl _ \<Rightarrow> cli_get env c (idx_key ''logpreimage-'' logId (decimal (unat idx))))"

definition GetAllLogIDs :: "('db, 'n) cenv \<Rightarrow> ('db, 'n) Client \<Rightarrow> bytes list go" where
  "GetAllLogIDs env c =
     bind_go (kv_AscendRange env (cl_db c) ''log-'' ''log.'') (\<lambda>kvs.
       Inr (map (\<lambda>(key, _). copy_bytes (zeros 32) (hex_prefix (drop 4 key))) kvs))"

definition GetLogCommitment :: "('db, 'n) cenv \<Rightarrow> ('db, 'n) Client \<Rightarrow> bytes \<Rightarrow> 64 word \<Rightarrow> bytes go" where
  "GetLogCommitment env c logId idx =
     bind_go (cli_get env c (idx_key ''logcommitment-'' logId (fmt_09d (unat idx)))) (\<lambda>val.
       Inr (copy_bytes (zeros 32) val))"

definition IsForeignLog :: "('db, 'n) cenv \<Rightarrow> ('db, 'n) Client \<Rightarrow> bytes \<Rightarrow> bool" where
  "IsForeignLog env c logId =
     (case cli_get env c (idx_key ''loghash-'' logId foreign_idx) of Inr _ \<Rightarrow> True | Inl _ \<Rightarrow> False)"

definition LogHasCommitment :: "('db, 'n) cenv \<Rightarrow> ('db, 'n) Client \<Rightarrow> bytes \<Rightarrow> bool" where
  "LogHasCommitment env c logId =
     (case kv_AscendRange env (cl_db c) (idx_key ''logcommitment-'' logId []) (id_key ''logcommitment-'' logId @ ''.'') of
        Inr kvs \<Rightarrow> kvs \<noteq> [] | Inl _ \<Rightarrow> False)"

definition getCommitment :: "('db, 'n) cenv \<Rightarrow> ('db, 'n) Client \<Rightarrow> bytes \<Rightarrow> Commitment_rec go" where
  "getCommitment env c hash = bind_go (cli_get env c (id_key ''commitment-'' hash)) CommitmentFromBytes"

definition GetProofForCommitment :: "('db, 'n) cenv \<Rightarrow> ('db, 'n) Client \<Rightarrow> bytes \<Rightarrow> bytes list \<Rightarrow> PartialMPT go" where
  "GetProofForCommitment env c commitment logIds =
     bind_go (cli_get env c (id_key ''proof-'' commitment)) (\<lambda>prf.
     bind_go (DeserializeNewFullMPT prf) (\<lambda>(fullTree, _).
     bind_go (NewPartialMPTIncludingKeys fullTree logIds) (\<lambda>(pm, _). Inr pm)))"

section \<open>Starting and appending to logs\<close>

definition compressed_signature :: "('db, 'n) cenv \<Rightarrow> bytes \<Rightarrow> bytes go" where
  "compressed_signature env hash =
     bind_go (key_Sign env hash) (\<lambda>sig.
     bind_go (SigCompress (sig_Serialize sig) []) (\<lambda>(csig, err).
       case err of None \<Rightarrow> Inr csig | Some e \<Rightarrow> Inl (GoError e)))"

definition StartLog :: "('db, 'n) cenv \<Rightarrow> bytes \<Rightarrow> (('db, 'n) Client, bytes) op" where
  "StartLog env initialStatement c =
     (let l = NewSignedCreateLogStatement (cl_pubKey c) initialStatement;
          logId = Sum256 (CreateLogStatement_Bytes (CreateStatement l))
      in op_bind (op_lift (if DummySignatures c then Inr (scls_Signature l) else compressed_signature env logId)) (\<lambda>sig.
         let l = l\<lparr>scls_Signature := sig\<rparr>
         in op_bind (send_for_ack env MessageTypeCreateLog (SignedCreateLogStatement_Bytes l)) (\<lambda>_ c.
            let serverHash = Sum256 (SignedCreateLogStatement_Bytes l)
            in op_bind (if fullClient c then
                  db_Update (set_all env
                    [(idx_key ''loghash-'' logId ''000000000'', serverHash),
                     (id_key ''lastidx-'' logId, string_bytes ''0''),
                     (id_key ''log-'' logId, string_bytes ''1'')])
                else op_lift (Inr ())) (\<lambda>_. op_lift (Inr logId)) c)) c)"

definition StartLogText :: "('db, 'n) cenv \<Rightarrow> bytes \<Rightarrow> (('db, 'n) Client, bytes) op" where
  "StartLogText env initialStatement =
     op_bind (StartLog env (Sum256 initialStatement)) (\<lambda>logId c.
       op_bind (if fullClient c
                then db_Update (set_all env [(idx_key ''logpreimage-'' logId ''000000000'', initialStatement)])
                else op_lift (Inr ())) (\<lambda>_. op_lift (Inr logId)) c)"

definition SignedAppendLog :: "('db, 'n) cenv \<Rightarrow> ('db, 'n) Client \<Rightarrow> 64 word \<Rightarrow> bytes \<Rightarrow> bytes \<Rightarrow> SignedLogStatement go" where
  "SignedAppendLog env c idx logId statement =
     (let l = NewSignedLogStatement idx logId statement;
          hash = Sum256 (LogStatement_Bytes (sls_Statement l))
      in if DummySignatures c then Inr l
         else bind_go (compressed_signature env hash) (\<lambda>csig. Inr (l\<lparr>sls_Signature := csig\<rparr>)))"

text \<open>The checks of a full client; the result is the statement to send.\<close>

definition append_checks :: "('db, 'n) cenv \<Rightarrow> ('db, 'n) Client \<Rightarrow> 64 word \<Rightarrow> bytes \<Rightarrow> bytes \<Rightarrow> bytes go" where
  "append_checks env c idx logId statement =
     (if fullClient c then
        bind_go (GetLastHash env c logId) (\<lambda>(lastIdx, lastHash).
        bind_go (if FastMode c then Inr (copy_bytes statement (Sum256 (lastHash @ statement)))
                 else if \<not> IsCommitted env c logId (word_of_int lastIdx)
                 then Inl (GoError ''Last statement has not yet been committed to chain. You have to wait for this, or use FastMode'')
                 else Inr statement) (\<lambda>statement.
        if idx \<noteq> word_of_int (lastIdx + 1) then Inl (GoError (''Received out-of-sync index for log ['' @ hex_EncodeToString logId
          @ '']: expected '' @ fmt_d (lastIdx + 1) @ '', got '' @ decimal (unat idx)))
        else Inr statement))
      else Inr statement)"

definition AppendLog :: "('db, 'n) cenv \<Rightarrow> 64 word \<Rightarrow> bytes \<Rightarrow> bytes \<Rightarrow> (('db, 'n) Client, unit) op" where
  "AppendLog env idx logId statement c =
     op_bind (op_lift (bind_go (append_checks env c idx logId statement) (SignedAppendLog env c idx logId))) (\<lambda>l.
       op_bind (send_for_ack env MessageTypeAppendLog (SignedLogStatement_Bytes l)) (\<lambda>_ c.
         (if fullClient c then
            db_Update (set_all env
              [(idx_key ''loghash-'' logId (fmt_09d (unat idx)), Sum256 (SignedLogStatement_Bytes l)),
               (id_key ''lastidx-'' logId, string_bytes (decimal (unat idx)))])
          else op_lift (Inr ())) c)) c"

definition AppendLogText :: "('db, 'n) cenv \<Rightarrow> 64 word \<Rightarrow> bytes \<Rightarrow> bytes \<Rightarrow> (('db, 'n) Client, unit) op" where
  "AppendLogText env idx logId statement =
     op_bind (AppendLog env idx logId (Sum256 statement)) (\<lambda>_ c.
       (if fullClient c
        then db_Update (set_all env [(idx_key ''logpreimage-'' logId (fmt_09d (unat idx)), statement)])
        else op_lift (Inr ())) c)"

section \<open>Statements of other clients\<close>

definition GetForeignLogIDAndHash :: "('db, 'n) cenv \<Rightarrow> ForeignStatement \<Rightarrow> (bytes \<times> bytes) go" where
  "GetForeignLogIDAndHash env st =
     (let statementHash = Sum256 (fs_StatementPreimage st)
      in if fs_InitialStatement st then
           let s = \<lparr>scls_Signature = fs_Signature st,
                    CreateStatement = \<lparr>ControllingKey = fs_PubKey st, InitialStatement = statementHash\<rparr>\<rparr>
           in bind_go (scls_VerifySignature (cl_ecdsa env) s) (\<lambda>_.
                Inr (Sum256 (CreateLogStatement_Bytes (CreateStatement s)), Sum256 (SignedCreateLogStatement_Bytes s)))
         else
           let s = \<lparr>sls_Signature = fs_Signature st,
                    sls_Statement = \<lparr>LogID = fs_LogID st, Index = fs_Index st, Statement = statementHash\<rparr>\<rparr>
           in bind_go (sls_VerifySignature (cl_ecdsa env) s (fs_PubKey st)) (\<lambda>_.
                Inr (fs_LogID st, Sum256 (SignedLogStatement_Bytes s))))"

definition AddForeignLog :: "('db, 'n) cenv \<Rightarrow> ForeignStatement \<Rightarrow> (('db, 'n) Client, unit) op" where
  "AddForeignLog env st =
     op_bind (op_lift (GetForeignLogIDAndHash env st)) (\<lambda>(logId, hash).
     db_Update (\<lambda>db.
       bind_go (set_all env
         [(idx_key ''loghash-'' logId foreign_idx, hash), (id_key ''lastidx-'' logId, string_bytes foreign_idx)] db) (\<lambda>db.
       bind_go (case fs_Proof st of
           None \<Rightarrow> Inr db
         | Some p \<Rightarrow> bind_go (PartialMPT_Commitment p) (\<lambda>(root, p).
             set_all env
               [(idx_key ''logcommitment-'' logId foreign_idx, root),
                (idx_key ''foreignlogproof-'' logId foreign_idx, PartialMPT_Bytes p)] db)) (\<lambda>db.
       set_all env
         [(idx_key ''logpreimage-'' logId foreign_idx, fs_StatementPreimage st),
          (id_key ''log-'' logId, string_bytes ''1'')] db))))"

definition ExportLog :: "('db, 'n) cenv \<Rightarrow> ('db, 'n) Client \<Rightarrow> bytes \<Rightarrow> ForeignStatement go" where
  "ExportLog env c logId =
     bind_go (wrap_error ''Error fetching last committed log: '' (GetLastCommittedLog env c logId)) (\<lambda>(idx, _).
     if IsForeignLog env c logId
     then Inl (GoError ''Cannot export a foreign log. The original sender should export it.'')
     else
       let index = word_of_int idx; initial = (idx = 0)
       in bind_go (wrap_error ''Error fetching last committed statement: '' (GetLogPreimage env c logId index)) (\<lambda>preimage.
          bind_go (wrap_error ''Error fetching commitment hash for last committed statement: ''
            (GetLogCommitment env c logId index)) (\<lambda>commitment.
          bind_go (wrap_error ''Error fetching commitment hash for last committed statement: ''
            (GetProofForCommitment env c commitment [logId])) (\<lambda>prf.
          let statementHash = Sum256 preimage;
              signaturePayload =
                (if initial then CreateLogStatement_Bytes (CreateStatement (NewSignedCreateLogStatement (cl_pubKey c) statementHash))
                 else LogStatement_Bytes (sls_Statement (NewSignedLogStatement index logId statementHash)))
          in bind_go (wrap_error ''Could not recreate signature: '' (key_Sign env (Sum256 signaturePayload))) (\<lambda>sig.
             bind_go (SigCompress (sig_Serialize sig) []) (\<lambda>(csig, err).
             case err of Some e \<Rightarrow> Inl (GoError (''Could not compress signature: '' @ e))
             | None \<Rightarrow>
                 Inr \<lparr>fs_InitialStatement = initial, fs_LogID = logId, fs_StatementPreimage = preimage,
                   fs_Signature = csig, fs_PubKey = cl_pubKey c, fs_Index = index, fs_Proof = Some prf\<rparr>))))))"

section \<open>Verifying commitments (\<open>chainverify.go\<close>)\<close>

definition loadStuff :: "('db, 'n) cenv \<Rightarrow> (('db, 'n) Client, unit) op" where
  "loadStuff env c =
     (case cli_get env c ''commitment-last'' of
        Inl e \<Rightarrow> if e = ErrNotFound then (Inr (), c) else (Inl e, c)
      | Inr lastCommitHash \<Rightarrow>
          (case getCommitment env c (copy_bytes (zeros 32) lastCommitHash) of
             Inr comm \<Rightarrow> (Inr (), c\<lparr>lastServerCommitment := Some comm\<rparr>)
           | Inl (GoError e) \<Rightarrow> (Inl (GoError e), c\<lparr>lastServerCommitment := None\<rparr>)
           | Inl (GoPanic e) \<Rightarrow> (Inl (GoPanic e), c)))"

definition GetBlockHeaderByHash :: "bytes option \<Rightarrow> (('db, 'n) Client, BlockHeader) op" where
  "GetBlockHeaderByHash hash c =
     (case GetHeaderByBlockHash hash (cl_spv c) of (r, spv) \<Rightarrow> (r, c\<lparr>cl_spv := spv\<rparr>))"

definition resync :: "('db, 'n) cenv \<Rightarrow> ('db, 'n) Client \<Rightarrow> ('db, 'n) Client" where
  "resync env c = c\<lparr>cl_spv := spv_wait env (snd (AskForHeaders (cl_spv c)))\<rparr>"

fun find_block :: "('db, 'n) cenv \<Rightarrow> bytes option \<Rightarrow> nat \<Rightarrow> (('db, 'n) Client, BlockHeader) op" where
  "find_block env hash retry c =
     (case GetBlockHeaderByHash hash c of
        (Inr header, c) \<Rightarrow> (Inr header, c)
      | (Inl (GoPanic e), c) \<Rightarrow> (Inl (GoPanic e), c)
      | (Inl (GoError e), c) \<Rightarrow>
          (case retry of 0 \<Rightarrow> (Inl (GoError e), c)
           | Suc r \<Rightarrow> if r = 0 then (Inl (GoError e), c) else find_block env hash r (resync env c)))"

declare find_block.simps [simp del]

text \<open>
  \<open>tx.TxIn[0].PreviousOutPoint\<close> after a \<open>Deserialize\<close> whose error is dropped. When decoding fails
  after the inputs were counted, the first input holds what was read of it.
\<close>

definition partial_outpoint :: "bytes \<Rightarrow> OutPoint go" where
  "partial_outpoint raw =
     (case bind_go (Uint32 LittleEndian raw) (\<lambda>(version, r).
           bind_go (ReadVarInt r) (\<lambda>(count, r).
           bind_go (if count = 0 then
                      bind_go (readFull 1 r) (\<lambda>(flag, r).
                        if flag ! 0 \<noteq> 0x01 then Inl (messageError ''MsgTx.BtcDecode'' ''witness tx but flag byte is not 1'')
                        else ReadVarInt r)
                    else Inr (count, r)) (\<lambda>(count, r).
           if unat count > maxTxInPerMessage
           then Inl (messageError ''MsgTx.BtcDecode'' ''too many input transactions to fit into max message size'')
           else Inr (count, r)))) of
        Inl _ \<Rightarrow> index_out_of_range
      | Inr (count, r) \<Rightarrow>
          if count = 0 then index_out_of_range
          else (case readOutPoint r of Inr (op, _) \<Rightarrow> Inr op
                | Inl _ \<Rightarrow> Inr \<lparr>op_Hash = copy_bytes (zeros 32) r, op_Index = 0\<rparr>))"

definition first_outpoint :: "bytes \<Rightarrow> OutPoint go" where
  "first_outpoint raw =
     (case tx_Deserialize raw of
        Inr (tx, _) \<Rightarrow> if tx_TxIn tx = [] then index_out_of_range else Inr (ti_PreviousOutPoint (tx_TxIn tx ! 0))
      | Inl (GoPanic e) \<Rightarrow> Inl (GoPanic e)
      | Inl (GoError e) \<Rightarrow> partial_outpoint raw)"

definition check_spends :: "Commitment_rec option \<Rightarrow> Commitment_rec \<Rightarrow> unit go" where
  "check_spends lastComm comm =
     (if is_panic (tx_Deserialize (cm_RawTx comm)) then Inl (GoPanic ''Deserialize'')
      else if cm_Commitment comm = MaidenHash then Inr ()
      else case lastComm of None \<Rightarrow> nil_deref
      | Some l \<Rightarrow>
          (case cm_TxHash l of None \<Rightarrow> nil_deref
           | Some lastTx \<Rightarrow>
               bind_go (first_outpoint (cm_RawTx comm)) (\<lambda>op.
                 if op_Index op \<noteq> 1 \<or> op_Hash op \<noteq> lastTx
                 then Inl (GoError ''Commitment transaction's first input is not the change output of the last commitment. This breaks the chain and is invalid.'')
                 else Inr ())))"

definition verifyCommitment :: "('db, 'n) cenv \<Rightarrow> Commitment_rec \<Rightarrow> (('db, 'n) Client, unit) op" where
  "verifyCommitment env comm c =
     (case (cm_IncludedInBlock comm, cm_TxHash comm) of
        (Some blk, Some txHash) \<Rightarrow>
          op_bind (find_block env (Some blk) 3) (\<lambda>header.
          op_bind (op_lift (MerkleProof_Check (cm_MerkleProof comm) txHash (bh_MerkleRoot header))) (\<lambda>checksOut c.
            if \<not> checksOut then (Inl (GoError ''Merkle proof is incorrect''), c)
            else (check_spends (lastServerCommitment c) comm, c))) c
      | _ \<Rightarrow> (nil_deref, c))"

definition ClearCommitments :: "('db, 'n) cenv \<Rightarrow> (('db, 'n) Client, unit) op" where
  "ClearCommitments env c =
     op_bind (op_lift (kv_AscendRange env (cl_db c) ''commitment-'' ''commitment.'')) (\<lambda>kvs.
       db_Update (delete_all env (map fst kvs))) c"

text \<open>\<open>sort.Slice\<close> leaves the order of equal heights open; here they keep the order of their keys.\<close>

primrec commitments_of :: "(string \<times> bytes) list \<Rightarrow> Commitment_rec list go" where
  "commitments_of [] = Inr []"
| "commitments_of (kv # kvs) =
     (if fst kv \<noteq> ''commitment-last''
      then bind_go (CommitmentFromBytes (snd kv)) (\<lambda>comm. bind_go (commitments_of kvs) (\<lambda>comms. Inr (comm # comms)))
      else commitments_of kvs)"

definition getAllCommitments :: "('db, 'n) cenv \<Rightarrow> ('db, 'n) Client \<Rightarrow> Commitment_rec list go" where
  "getAllCommitments env c =
     bind_go (kv_AscendRange env (cl_db c) ''commitment-'' ''commitment.'') (\<lambda>kvs.
     bind_go (commitments_of kvs) (\<lambda>comms. Inr (sort_key cm_TriggeredAtBlockHeight comms)))"

definition cli_saveCommitment :: "('db, 'n) cenv \<Rightarrow> Commitment_rec \<Rightarrow> (('db, 'n) Client, unit) op" where
  "cli_saveCommitment env comm =
     op_bind (db_Update (\<lambda>db.
         bind_go (Commitment_Bytes comm) (\<lambda>b.
         bind_go (kv_Set env db (id_key ''commitment-'' (cm_Commitment comm)) b) (\<lambda>db.
         case cm_IncludedInBlock comm of None \<Rightarrow> nil_deref
         | Some blk \<Rightarrow>
             set_all env [(id_key ''block-'' blk, cm_Commitment comm), (''commitment-last'', cm_Commitment comm)] db))))
       (\<lambda>_ c. (Inr (), c\<lparr>lastServerCommitment := Some comm\<rparr>))"

section \<open>Verifying proofs (\<open>commitverify.go\<close>)\<close>

text \<open>The index of the statement whose hash is \<open>val\<close>, searched from the newest entry; -1 if there is none.\<close>

fun find_value :: "bytes \<Rightarrow> (string \<times> bytes) list \<Rightarrow> int go" where
  "find_value val [] = Inr (- 1)"
| "find_value val ((key, value) # kvs) =
     (if value = val then
        if length key < 73 then Inl (GoPanic ''slice bounds out of range'') else Inr (fst (ParseInt (drop 73 key)))
      else find_value val kvs)"

definition value_index :: "('db, 'n) cenv \<Rightarrow> ('db, 'n) Client \<Rightarrow> bytes \<Rightarrow> bytes \<Rightarrow> int go" where
  "value_index env c logId val =
     (case kv_DescendRange env (cl_db c) (idx_key ''loghash-'' logId foreign_idx) (idx_key ''loghash-'' logId ''00000000/'') of
        Inr kvs \<Rightarrow> find_value val kvs
      | Inl (GoPanic e) \<Rightarrow> Inl (GoPanic e)
      | Inl (GoError _) \<Rightarrow> Inr (- 1))"

text \<open>One log of the loop: \<open>None\<close> is \<open>continue\<close>.\<close>

definition check_log :: "('db, 'n) cenv \<Rightarrow> ('db, 'n) Client \<Rightarrow> PartialMPT \<Rightarrow> bytes \<Rightarrow> 64 word option go" where
  "check_log env c prf l =
     (let hasCommitment = LogHasCommitment env c l
      in case PartialMPT_Get prf l of
           Inl (GoPanic e) \<Rightarrow> Inl (GoPanic e)
         | Inl (GoError e) \<Rightarrow>
             if \<not> hasCommitment then Inr None else Inl (GoError (''Error getting Log ID '' @ hex_EncodeToString l @ '' from the proof: '' @ e))
         | Inr val \<Rightarrow>
             if val = None \<and> \<not> hasCommitment then Inr None
             else bind_go (value_index env c l (case val of Some v \<Rightarrow> v | None \<Rightarrow> [])) (\<lambda>valueIdx.
                  if valueIdx = - 1 then
                    if IsForeignLog env c l then Inr None
                    else Inl (GoError ''The value in the proof does not match any of the values we know. Not good.'')
                  else Inr (Some (word_of_int valueIdx))))"

primrec check_logs :: "('db, 'n) cenv \<Rightarrow> ('db, 'n) Client \<Rightarrow> PartialMPT \<Rightarrow> bytes list \<Rightarrow> (bytes \<rightharpoonup> 64 word) \<Rightarrow> (bytes \<rightharpoonup> 64 word) go" where
  "check_logs env c prf [] logIdxes = Inr logIdxes"
| "check_logs env c prf (l # ls) logIdxes =
     bind_go (check_log env c prf l) (\<lambda>r.
       check_logs env c prf ls (case r of None \<Rightarrow> logIdxes | Some idx \<Rightarrow> logIdxes(l \<mapsto> idx)))"

definition updateProofs :: "('db, 'n) cenv \<Rightarrow> (('db, 'n) Client, unit) op" where
  "updateProofs env c =
     op_bind (op_lift (wrap_error ''Error fetching logIDs: '' (GetAllLogIDs env c))) (\<lambda>logIds.
       if length logIds = 0 then op_lift (Inr ())
       else op_bind (RequestProof env logIds) (\<lambda>prf.
            op_bind (op_lift (PartialMPT_Commitment prf)) (\<lambda>(rootHash, prf) c.
              op_bind (op_lift
                (bind_go (wrap_error ''Error fetching commitment: '' (getCommitment env c rootHash)) (\<lambda>_.
                   check_logs env c prf logIds Map.empty))) (\<lambda>logIdxes.
                db_Update (\<lambda>db.
                  bind_go (wrap_error ''Error saving proof: '' (kv_Set env db (id_key ''proof-'' rootHash) (PartialMPT_Bytes prf))) (\<lambda>db.
                  wrap_error ''Error saving logcommitment: '' (set_all env
                    (concat (map (\<lambda>l. case logIdxes l of None \<Rightarrow> []
                       | Some idx \<Rightarrow> [(idx_key ''logcommitment-'' l (fmt_09d (unat idx)), rootHash)]) logIds)) db)))) c))) c"

section \<open>The verification loop\<close>

datatype round = Round_done | Round_idle | Round_retry | Round_blocked

definition or_panic :: "'a go \<Rightarrow> 'a go" where
  "or_panic r = (case r of Inl (GoError e) \<Rightarrow> Inl (GoPanic e) | _ \<Rightarrow> r)"

text \<open>The commitments of the history in order; \<open>True\<close> when the rest waits for the next round.\<close>

fun verify_history :: "('db, 'n) cenv \<Rightarrow> Commitment_rec list \<Rightarrow> (('db, 'n) Client, bool) op" where
  "verify_history env [] c = (Inr False, c)"
| "verify_history env (comm # hist) c =
     (case verifyCommitment env comm c of
        (Inl (GoError e), c) \<Rightarrow> if e = ''Block not found'' then (Inr True, c) else (Inl (GoPanic e), c)
      | (Inl (GoPanic e), c) \<Rightarrow> (Inl (GoPanic e), c)
      | (Inr _, c) \<Rightarrow>
          (case cli_saveCommitment env comm c of
             (Inl e, c) \<Rightarrow> (or_panic (Inl e), c)
           | (Inr _, c) \<Rightarrow> verify_history env hist c))"

definition verify_round :: "('db, 'n) cenv \<Rightarrow> (('db, 'n) Client, round) op" where
  "verify_round env c =
     (if \<not> Synced (cl_spv c) then (Inr Round_idle, c)
      else
        let lastCommitHash = (case lastServerCommitment c of Some l \<Rightarrow> copy_bytes (zeros 32) (cm_Commitment l) | None \<Rightarrow> zeros 32)
        in case cli_GetCommitmentHistory env lastCommitHash c of
             (Inl e, c) \<Rightarrow> (or_panic (Inl e), c)
           | (Inr None, c) \<Rightarrow> (Inr Round_blocked, c)
           | (Inr (Some hist), c) \<Rightarrow>
               (case verify_history env hist c of
                  (Inl e, c) \<Rightarrow> (Inl e, c)
                | (Inr True, c) \<Rightarrow> (Inr Round_retry, c)
                | (Inr False, c) \<Rightarrow>
                    if length hist > 0 then
                      (case updateProofs env c of (Inl e, c) \<Rightarrow> (or_panic (Inl e), c) | (Inr _, c) \<Rightarrow> (Inr Round_done, c))
                    else (Inr Round_done, c)))"

section \<open>The RPC methods (\<open>rpc.go\<close>)\<close>

text \<open>
  The bodies of the requests, after the base64 or JSON decoding and before the encoding of the reply. A
  panic ends one request, since \<open>net/http\<close> recovers it.
\<close>

record VerificationResult =
  vr_Statement :: bytes
  vr_Valid :: bool
  vr_Error :: string
  vr_PubKey :: string
  vr_BlockHash :: string
  vr_TxHash :: string
  vr_BlockTimestamp :: int

definition invalid :: "string \<Rightarrow> VerificationResult" where
  "invalid e = \<lparr>vr_Statement = [], vr_Valid = False, vr_Error = e, vr_PubKey = [], vr_BlockHash = [],
     vr_TxHash = [], vr_BlockTimestamp = 0\<rparr>"

definition wrong_value :: "string \<Rightarrow> bytes \<Rightarrow> bytes \<Rightarrow> string" where
  "wrong_value err val hash =
     ''Provided proof does not contain correct value for the provided log: '' @ err @ '' - ['' @ hex_EncodeToString val
     @ '' vs '' @ hex_EncodeToString hash @ '']''"

definition check_foreign :: "('db, 'n) cenv \<Rightarrow> ('db, 'n) Client \<Rightarrow> ForeignStatement \<Rightarrow> (string + Commitment_rec) go" where
  "check_foreign env c st =
     catch_err (GetForeignLogIDAndHash env st) (\<lambda>e. Inr (Inl (''Could not read foreign statement: '' @ e))) (\<lambda>(logId, hash).
     case fs_Proof st of None \<Rightarrow> nil_deref
     | Some p \<Rightarrow>
         catch_err (PartialMPT_Get p logId) (\<lambda>e. Inr (Inl (wrong_value e [] hash))) (\<lambda>val.
         if (case val of Some v \<Rightarrow> v | None \<Rightarrow> []) \<noteq> hash
         then Inr (Inl (wrong_value ''<nil>'' (case val of Some v \<Rightarrow> v | None \<Rightarrow> []) hash))
         else bind_go (PartialMPT_Commitment p) (\<lambda>(rootHash, _).
              catch_err (getCommitment env c rootHash)
                (\<lambda>e. Inr (Inl (''Could not get commitment from the given proof: '' @ e))) (\<lambda>comm. Inr (Inr comm)))))"

definition VerifyOnce :: "('db, 'n) cenv \<Rightarrow> bytes \<Rightarrow> (('db, 'n) Client, VerificationResult) op" where
  "VerifyOnce env dec c =
     op_bind (op_lift (ForeignStatementFromBytes dec)) (\<lambda>st.
     op_bind (op_lift (check_foreign env c st)) (\<lambda>r c.
       case r of Inl e \<Rightarrow> (Inr (invalid e), c)
       | Inr comm \<Rightarrow>
           (case GetBlockHeaderByHash (cm_IncludedInBlock comm) c of
              (Inl (GoPanic e), c) \<Rightarrow> (Inl (GoPanic e), c)
            | (Inl (GoError e), c) \<Rightarrow>
                (Inr (invalid ''Could not fetch block details for this log's last committed statement''), c)
            | (Inr hdr, c) \<Rightarrow>
                (case (cm_IncludedInBlock comm, cm_TxHash comm) of
                   (Some bh, Some txh) \<Rightarrow>
                     (Inr \<lparr>vr_Statement = fs_StatementPreimage st, vr_Valid = True, vr_Error = [],
                           vr_PubKey = hex_EncodeToString (fs_PubKey st), vr_BlockHash = hash_String bh,
                           vr_TxHash = hash_String txh, vr_BlockTimestamp = bh_Timestamp hdr\<rparr>, c)
                 | _ \<Rightarrow> (nil_deref, c))))) c"

definition rpc_AddForeignLog :: "('db, 'n) cenv \<Rightarrow> bytes \<Rightarrow> (('db, 'n) Client, bool) op" where
  "rpc_AddForeignLog env dec =
     op_bind (op_lift (ForeignStatementFromBytes dec)) (\<lambda>st.
     (\<lambda>c. case AddForeignLog env st c of
        (Inr _, c) \<Rightarrow> (Inr True, c) | (Inl e, c) \<Rightarrow> (wrap_error ''Error adding foreign log: '' (Inl e), c)))"

definition rpc_Export :: "('db, 'n) cenv \<Rightarrow> ('db, 'n) Client \<Rightarrow> string \<Rightarrow> bytes go" where
  "rpc_Export env c logIdHex =
     (case hex_Decode logIdHex of
        Inl _ \<Rightarrow> Inl (GoError ''Invalid Log ID'')
      | Inr b \<Rightarrow>
          if length b \<noteq> 32 then Inl (GoError ''Invalid Log ID'')
          else bind_go (wrap_error ''Unable to export log: '' (ExportLog env c (copy_bytes (zeros 32) b))) (\<lambda>st. Inr (ForeignStatement_Bytes st)))"


record LogInfo =
  li_Foreign :: bool
  li_LogID :: string
  li_LastStatement :: bytes
  li_LastIndex :: int
  li_LastCommitment :: string
  li_LastCommitmentProof :: string
  li_LastCommitmentBlock :: string
  li_LastCommitmentTimestamp :: int
  li_Valid :: bool
  li_Error :: string

text \<open>The block that a commitment names, for one entry of the list.\<close>

definition log_block :: "Commitment_rec \<Rightarrow> LogInfo \<Rightarrow> (('db, 'n) Client, LogInfo) op" where
  "log_block comm info c =
     (case (MerkleProof_Bytes (cm_MerkleProof comm), cm_IncludedInBlock comm) of
        (Inr prf, Some blk) \<Rightarrow>
          let info = info\<lparr>li_LastCommitmentProof := hex_EncodeToString prf, li_LastCommitmentBlock := hex_EncodeToString blk\<rparr>
          in (case GetBlockHeaderByHash (Some blk) c of
                (Inr hdr, c) \<Rightarrow> (Inr (info\<lparr>li_LastCommitmentTimestamp := bh_Timestamp hdr\<rparr>), c)
              | (Inl (GoError _), c) \<Rightarrow>
                  (Inr (info\<lparr>li_Valid := False,
                     li_Error := ''Could not fetch block details for this log's last committed statement''\<rparr>), c)
              | (Inl (GoPanic e), c) \<Rightarrow> (Inl (GoPanic e), c))
      | (Inl e, _) \<Rightarrow> (Inl e, c)
      | (Inr _, None) \<Rightarrow> (nil_deref, c))"

definition log_info :: "('db, 'n) cenv \<Rightarrow> bytes \<Rightarrow> (('db, 'n) Client, LogInfo) op" where
  "log_info env l c =
     (let info = \<lparr>li_Foreign = IsForeignLog env c l, li_LogID = hex_EncodeToString l, li_LastStatement = [],
            li_LastIndex = 0, li_LastCommitment = [], li_LastCommitmentProof = [], li_LastCommitmentBlock = [],
            li_LastCommitmentTimestamp = 0, li_Valid = False, li_Error = []\<rparr>
      in case GetLastCommittedLog env c l of
           Inl _ \<Rightarrow> (Inr (info\<lparr>li_Error := ''Could not find a commitment for this log (yet)''\<rparr>), c)
         | Inr (idx, _) \<Rightarrow>
             let info = info\<lparr>li_LastIndex := idx\<rparr>
             in case GetLogPreimage env c l (word_of_int idx) of
                  Inl _ \<Rightarrow> (Inr (info\<lparr>li_Error := ''Could not fetch preimage for this log's last committed statement''\<rparr>), c)
                | Inr preimage \<Rightarrow>
                    let info = info\<lparr>li_LastStatement := preimage\<rparr>
                    in case GetLogCommitment env c l (word_of_int idx) of
                         Inl _ \<Rightarrow>
                           (Inr (info\<lparr>li_Error := ''Could not fetch the commitment hash for this log's last committed statement''\<rparr>), c)
                       | Inr commit \<Rightarrow>
                           let info = info\<lparr>li_LastCommitment := hex_EncodeToString commit\<rparr>
                           in case getCommitment env c commit of
                                Inl (GoPanic e) \<Rightarrow> (Inl (GoPanic e), c)
                              | Inl (GoError _) \<Rightarrow>
                                  (Inr (info\<lparr>li_Error := ''Could not fetch commitment details for this log's last committed statement''\<rparr>), c)
                              | Inr comm \<Rightarrow> log_block comm (info\<lparr>li_Valid := True\<rparr>) c)"

primrec log_infos :: "('db, 'n) cenv \<Rightarrow> bytes list \<Rightarrow> (('db, 'n) Client, LogInfo list) op" where
  "log_infos env [] = op_lift (Inr [])"
| "log_infos env (l # ls) =
     op_bind (log_info env l) (\<lambda>info. op_bind (log_infos env ls) (\<lambda>infos. op_lift (Inr (info # infos))))"

definition rpc_Logs :: "('db, 'n) cenv \<Rightarrow> (('db, 'n) Client, LogInfo list) op" where
  "rpc_Logs env c = op_bind (op_lift (wrap_error ''Unable to fetch logs: '' (GetAllLogIDs env c))) (log_infos env) c"

section \<open>Starting a full client\<close>

text \<open>
  The part of \<open>Run\<close> between opening the files and the verification loop; \<open>pk\<close> is the public key of
  the key file. The error of \<open>loadStuff\<close> is dropped.
\<close>

definition client_start :: "('db, 'n) cenv \<Rightarrow> bool \<Rightarrow> bytes \<Rightarrow> (('db, 'n) Client, unit) op" where
  "client_start env again pk c =
     op_bind (if again then ClearCommitments env else op_lift (Inr ()))
       (\<lambda>_ c. case loadStuff env c of
          (Inl (GoPanic e), c) \<Rightarrow> (Inl (GoPanic e), c) | (_, c) \<Rightarrow> (Inr (), c))
       (c\<lparr>fullClient := True, cl_pubKey := pk\<rparr>)"

end
