(* ===== verification/Spv_Correct.thy ===== *)
theory Spv_Correct
  imports Spv_Chain
begin

text \<open>
  Properties of the header chain: what \<open>IngestHeaders\<close> accepts behind the tip, what it makes of the
  file on a fork, and what \<open>GetHeaderByBlockHash\<close> returns. A header file that the client wrote
  \<open>holds\<close> a list of headers.
\<close>

section \<open>Checking a message against the file\<close>

definition recent :: "int \<Rightarrow> BlockHeader list \<Rightarrow> BlockHeader list" where
  "recent epochLength hs =
     (if int (length hs) - 1 > epochLength + 1 then drop (length hs - nat (epochLength + 1)) hs else hs)"

lemma recent_not_Nil: "hs \<noteq> [] \<Longrightarrow> 0 \<le> l \<Longrightarrow> recent l hs \<noteq> []"
  by (auto simp: recent_def)

lemma last_recent: "hs \<noteq> [] \<Longrightarrow> 0 \<le> l \<Longrightarrow> last (recent l hs) = last hs"
  by (auto simp: recent_def)

definition finish_check :: "BlockHeader list \<Rightarrow> Params \<Rightarrow> int \<Rightarrow> (check_result + int \<times> BlockHeader list) \<times> hfile \<Rightarrow> (check_result \<times> hfile) go" where
  "finish_check inHeaders p height = (\<lambda>(res, f).
     case res of Inl r \<Rightarrow> Inr (r, f)
     | Inr (attachHeight, prevHeaders) \<Rightarrow>
         bind_go (check_difficulty p height 0 prevHeaders inHeaders) (\<lambda>err.
         case err of Some e \<Rightarrow> Inr ((0, Some e), f) | None \<Rightarrow> Inr ((attachHeight, None), f)))"

lemma CheckHeaderChain_holds:
  assumes "holds f hs" "hs \<noteq> []" "length hs < 2 ^ 24" "StartHeight p = 0"
    and "epoch_length p = Inr l" "0 < l" "l < 2 ^ 24"
    and "new \<noteq> []" "check_message new 0 new = None"
  shows "CheckHeaderChain f new p =
    bind_go (check_attach new (recent l hs) p (int (length hs)) (int (length (recent l hs))) (f\<lparr>hf_off := 80 * length hs\<rparr>))
      (finish_check new p (int (length hs)))"
proof -
  obtain m where m: "length hs = Suc m"
    using assms(2) by (cases hs) auto
  have tip: "seek_end (- 80) f = Inr (f\<lparr>hf_off := 80 * m\<rparr>)"
    using seek_back [OF assms(1), of 1] m by simp
  have i: "i32 (int m) = int m" "i32 (int m + 1) = int m + 1" "i32 (l + 1) = l + 1" "i32 (80 * (l + 1)) = 80 * (l + 1)"
      "i32 (- 80 * (l + 1)) = - 80 * (l + 1)"
    using assms m by (auto intro!: i32_id)
  have msg: "\<not> length new < 1"
    using assms(8) by (cases new) auto
  define many where "many \<longleftrightarrow> int (80 * m) > 80 * (l + 1)"
  define k where "k = (if many then Suc m - nat (l + 1) else 0)"
  have k: "(if many then seek_end (- 80 * (l + 1)) (f\<lparr>hf_off := 80 * m\<rparr>) else seek_to 0 (f\<lparr>hf_off := 80 * m\<rparr>))
      = Inr (f\<lparr>hf_off := 80 * k\<rparr>)"
  proof (cases many)
    case True
    then have "nat (l + 1) \<le> length hs"
      using m by (simp add: many_def)
    then show ?thesis
      using True seek_back [of "f\<lparr>hf_off := 80 * m\<rparr>" hs "nat (l + 1)"] assms(1,6) m by (simp add: k_def)
  qed (simp add: k_def seek_to_def)
  have num: "(if many then l + 1 else int m + 1) = int (Suc m - k)" "recent l hs = drop k hs"
    using assms(6) m by (auto simp: k_def many_def recent_def of_nat_diff)
  have read: "read_headers (Suc m - k) (f\<lparr>hf_off := 80 * k\<rparr>) = (Inr (recent l hs), f\<lparr>hf_off := 80 * Suc m\<rparr>)"
    using read_headers_at [OF assms(1), of k "Suc m - k"] m num(2) by (simp add: k_def)
  have len: "length (recent l hs) = Suc m - k"
    using m num(2) by simp
  have suc: "int (length hs) = int m + 1"
    using m by simp
  show ?thesis
  proof (cases many)
    case True
    have "seek_end (- 80 * (l + 1)) (f\<lparr>hf_off := 80 * m\<rparr>) = Inr (f\<lparr>hf_off := 80 * k\<rparr>)"
      using k True by (simp only: if_True)
    moreover have eq: "int (Suc m - k) = l + 1"
      using num(1) True by (simp only: if_True)
    moreover have "nat (l + 1) = Suc m - k" "80 * (l + 1) < int (80 * m)"
      using num(1) True by (simp_all add: many_def)
    ultimately show ?thesis
      unfolding CheckHeaderChain_def assms(9) assms(5) tip bind_go_Inr catch_err_simps option.case suc len eq
      using msg assms(6) read i m by (simp add: Let_def assms(4) finish_check_def)
  next
    case False
    have "seek_to 0 (f\<lparr>hf_off := 80 * m\<rparr>) = Inr (f\<lparr>hf_off := 80 * k\<rparr>)"
      using k False by (simp only: if_False)
    moreover have eq: "int (Suc m - k) = int m + 1"
      using num(1) False by (simp only: if_False)
    moreover have "nat (int m + 1) = Suc m - k" "\<not> 80 * (l + 1) < int (80 * m)"
      using num(1) False by (simp_all add: many_def)
    ultimately show ?thesis
      unfolding CheckHeaderChain_def assms(9) assms(5) tip bind_go_Inr catch_err_simps option.case suc len eq
      using msg read i m by (simp add: Let_def assms(4) finish_check_def)
  qed
qed


lemma check_message_None:
  assumes "check_message msg i hdrs = None" "j < length hdrs"
  shows "i + j > 1 \<longrightarrow> bh_PrevBlock (hdrs ! j) = BlockHash (msg ! (i + j - 1))" "0 \<le> sint (bh_Version (hdrs ! j))"
  using assms
proof (induction hdrs arbitrary: i j)
  case (Cons h hdrs)
  { case 1 with Cons.IH(1) [of "i + 1"] show ?case by (cases j) (auto split: if_splits) }
  { case 2 with Cons.IH(2) [of "i + 1"] show ?case by (cases j) (auto split: if_splits) }
qed simp_all

lemma networks_name: "p \<in> set networks \<Longrightarrow> pr_Name p \<noteq> ''vtctest'' \<and> pr_Name p \<noteq> ''vtc''"
  by (auto simp: networks_def BitcoinParams_def TestNet3Params_def RegressionNetParams_def network_def)

lemma networks_epoch: "p \<in> set networks \<Longrightarrow> epoch_length p = Inr 2016"
  by (simp add: epoch_length_def networks_facts signed_divide_int_def i32_id)

definition right_bits :: "Params \<Rightarrow> BlockHeader list \<Rightarrow> int \<Rightarrow> BlockHeader \<Rightarrow> bool" where
  "right_bits p prevs height hdr \<longleftrightarrow> diffBitcoin (prevs @ [hdr]) height (ParamsData.truncate p) = Inr (bh_Bits hdr)"

lemma check_difficulty_networks:
  assumes "p \<in> set networks" "0 < height" "height + int (i + length hdrs) < 2 ^ 31"
  shows "\<exists>e. check_difficulty p height i prevs hdrs = Inr e
    \<and> (e = None \<longrightarrow> (\<forall>j < length hdrs. checkProofOfWork (hdrs ! j) p (height + int (i + j))
          \<and> right_bits p (prevs @ take j hdrs) (height + int (i + j)) (hdrs ! j)))"
  using assms(3)
proof (induction hdrs arbitrary: i prevs)
  case (Cons h hdrs)
  let ?h = "height + int i"
  have i: "i32 ?h = ?h" "0 < ?h" "?h < 2 ^ 31"
    using Cons.prems assms(2) by (auto intro!: i32_id)
  obtain e where e: "check_difficulty p height (i + 1) (prevs @ [h]) hdrs = Inr e"
      "e = None \<longrightarrow> (\<forall>j < length hdrs. checkProofOfWork (hdrs ! j) p (height + int (i + 1 + j))
          \<and> right_bits p ((prevs @ [h]) @ take j hdrs) (height + int (i + 1 + j)) (hdrs ! j))"
    using Cons.IH [of "i + 1" "prevs @ [h]"] Cons.prems by auto
  have step: "checkProofOfWork ((h # hdrs) ! j) p (height + int (i + j))
      \<and> right_bits p (prevs @ take j (h # hdrs)) (height + int (i + j)) ((h # hdrs) ! j)"
    if "e = None" "checkProofOfWork h p ?h" "right_bits p prevs ?h h" "j < length (h # hdrs)" for j
    using that e(2) by (cases j) (auto simp: add.assoc)
  have "\<not> is_panic (diffBitcoin (prevs @ [h]) ?h (ParamsData.truncate p))"
    using i by (intro diffBitcoin_no_panic [OF assms(1)]) simp_all
  then show ?case
    using i networks_name [OF assms(1)] e(1) step
    by (cases "diffBitcoin (prevs @ [h]) ?h (ParamsData.truncate p)" rule: is_panic.cases)
       (auto simp: Let_def networks_facts(2,10) [OF assms(1)] right_bits_def)
qed simp

lemma writes:
  assumes "list_all header_ok hs" "length (hf_data f) \<le> hf_off f" "hs \<noteq> []"
  shows "hf_data (fold write_header hs f)
    = hf_data f @ zeros (hf_off f - length (hf_data f)) @ concat (map header_bytes hs)"
  using assms
proof (induction hs arbitrary: f)
  case (Cons h hs)
  define g where "g = write_header h f"
  have g: "hf_data g = hf_data f @ zeros (hf_off f - length (hf_data f)) @ header_bytes h" "hf_off g = length (hf_data g)"
    using Cons.prems by (simp_all add: g_def write_header_def write_bytes_def)
  show ?case
  proof (cases "hs = []")
    case True
    then show ?thesis using g by (simp add: g_def)
  next
    case False
    then show ?thesis
      using Cons.IH [of g] Cons.prems g by (simp add: g_def [symmetric])
  qed
qed simp


section \<open>Headers behind the tip\<close>

lemma check_message_Some:
  "new \<noteq> [] \<Longrightarrow> check_message new 0 new = Some e \<Longrightarrow> CheckHeaderChain f new p = Inr ((0, Some e), f)"
  by (cases new) (simp_all add: CheckHeaderChain_def)

lemma check_attach_tip:
  assumes "hs \<noteq> []" "0 \<le> l" "bh_PrevBlock (new ! 0) = BlockHash (last hs)"
  shows "check_attach new (recent l hs) p height n f = Inr (Inr (0, recent l hs), f)"
  using assms by (simp add: check_attach_def recent_not_Nil last_recent)

lemma Ingest_at_end:
  assumes "CheckHeaderChain (headerFile s) new (Param s) = Inr ((0, None), (headerFile s)\<lparr>hf_off := 80 * length hs\<rparr>)"
    and "holds (headerFile s) hs" "list_all header_ok new" "new \<noteq> []"
  shows "\<exists>s'. IngestHeaders new s = Inr ((True, None), s') \<and> holds (headerFile s') (hs @ new)"
  using assms writes [of new "(headerFile s)\<lparr>hf_off := 80 * length hs\<rparr>"] holds_length [OF assms(2)]
  by (simp add: IngestHeaders_def holds_def)

text \<open>
  C13. A headers message whose first header continues the tip of the stored chain is never a reason to
  panic, and is taken all or nothing. If it is refused the file keeps its headers; if it is taken the
  file holds them followed by the new ones, every new header meets the target in its bits, its bits are
  the ones the difficulty rule asks for, and from the third header on each one names its predecessor.
\<close>

theorem headers_behind_tip:
  assumes "Param s \<in> set networks" "holds (headerFile s) hs" "hs \<noteq> []" "length hs < 2 ^ 24"
    and "list_all header_ok new" "new \<noteq> []" "length new \<le> MaxBlockHeadersPerMsg"
    and "bh_PrevBlock (new ! 0) = BlockHash (last hs)"
  shows "\<exists>err s'. IngestHeaders new s = Inr ((True, err), s')
    \<and> (if err = None then
         holds (headerFile s') (hs @ new)
         \<and> list_all (\<lambda>i. checkProofOfWork (new ! i) (Param s) (int (length hs + i))
              \<and> right_bits (Param s) (recent 2016 hs @ take i new) (int (length hs + i)) (new ! i)
              \<and> (i \<le> 1 \<or> bh_PrevBlock (new ! i) = BlockHash (new ! (i - 1)))) [0..<length new]
       else holds (headerFile s') hs)"
proof (cases "check_message new 0 new")
  case None
  let ?f = "(headerFile s)\<lparr>hf_off := 80 * length hs\<rparr>"
  have check: "CheckHeaderChain (headerFile s) new (Param s)
      = finish_check new (Param s) (int (length hs)) (Inr (0, recent 2016 hs), ?f)"
    using CheckHeaderChain_holds [OF assms(2-4) networks_facts(1) [OF assms(1)] networks_epoch [OF assms(1)] _ _ assms(6) None]
      check_attach_tip [OF assms(3) _ assms(8), of 2016]
    by simp
  obtain e where e: "check_difficulty (Param s) (int (length hs)) 0 (recent 2016 hs) new = Inr e"
      "e = None \<longrightarrow> (\<forall>j < length new. checkProofOfWork (new ! j) (Param s) (int (length hs) + int (0 + j))
          \<and> right_bits (Param s) (recent 2016 hs @ take j new) (int (length hs) + int (0 + j)) (new ! j))"
    using check_difficulty_networks [OF assms(1), of "int (length hs)" 0 new] assms(3,4,7)
    by (auto simp: MaxBlockHeadersPerMsg_def)
  show ?thesis
  proof (cases e)
    case None
    then have "CheckHeaderChain (headerFile s) new (Param s) = Inr ((0, None), ?f)"
      using check e(1) by (simp add: finish_check_def)
    from Ingest_at_end [OF this assms(2,5,6)] show ?thesis
      using e(2) None check_message_None(1) [OF \<open>check_message new 0 new = None\<close>]
      by (fastforce simp: list_all_iff)
  next
    case (Some m)
    then have "CheckHeaderChain (headerFile s) new (Param s) = Inr ((0, Some m), ?f)"
      using check e(1) by (simp add: finish_check_def)
    then show ?thesis
      using assms(2,6) by (simp add: IngestHeaders_def)
  qed
next
  case (Some m)
  then show ?thesis
    using check_message_Some [OF assms(6) Some] assms(2,6) by (simp add: IngestHeaders_def)
qed


text \<open>A connection whose file holds given headers.\<close>

definition ex_spv :: "Params \<Rightarrow> (bytes \<rightharpoonup> nat) option \<Rightarrow> BlockHeader list \<Rightarrow> SPVCon" where
  "ex_spv p idx hs =
     \<lparr>headerFile = \<lparr>hf_data = concat (map header_bytes hs), hf_off = 0\<rparr>, headerIndex = idx, syncHeight = 0,
      Synced = False, localVersion = 70015, Param = p, outMsgQueue = []\<rparr>"

definition ex_header :: "bytes \<Rightarrow> BlockHeader" where
  "ex_header prev =
     \<lparr>bh_Version = 1, bh_PrevBlock = prev, bh_MerkleRoot = zeros 32, bh_Timestamp = 0, bh_Bits = 0x1d00ffff, bh_Nonce = 0\<rparr>"

lemma ex_spv_simps [simp]:
  "Param (ex_spv p idx hs) = p" "headerIndex (ex_spv p idx hs) = idx"
  "holds (headerFile (ex_spv p idx hs)) hs \<longleftrightarrow> list_all header_ok hs"
  by (simp_all add: ex_spv_def holds_def)

lemma length_BlockHash [simp]: "length (BlockHash h) = 32"
  by (simp add: BlockHash_bytes DoubleHashH_def)

lemma ex_header_simps [simp]:
  "header_ok (ex_header prev) \<longleftrightarrow> length prev = 32" "bh_PrevBlock (ex_header prev) = prev" "bh_Version (ex_header prev) = 1"
  by (simp_all add: ex_header_def header_ok_def)

theorem headers_behind_tip_witness:
  "\<exists>err s'. IngestHeaders [ex_header (BlockHash (GenesisHeader TestNet3Params))] (ex_spv TestNet3Params None [GenesisHeader TestNet3Params])
      = Inr ((True, err), s')
    \<and> (if err = None then
         holds (headerFile s') [GenesisHeader TestNet3Params, ex_header (BlockHash (GenesisHeader TestNet3Params))]
         \<and> checkProofOfWork (ex_header (BlockHash (GenesisHeader TestNet3Params))) TestNet3Params 1
       else holds (headerFile s') [GenesisHeader TestNet3Params])"
proof -
  have net: "TestNet3Params \<in> set networks" by (simp add: networks_def)
  define g h where "g = GenesisHeader TestNet3Params" and "h = ex_header (BlockHash g)"
  have ok: "header_ok g" "header_ok h" "bh_PrevBlock h = BlockHash g"
    using networks_facts(11) [OF net] by (simp_all add: g_def h_def)
  have "\<exists>err s'. IngestHeaders [h] (ex_spv TestNet3Params None [g]) = Inr ((True, err), s')
    \<and> (if err = None then holds (headerFile s') ([g] @ [h])
         \<and> list_all (\<lambda>i. checkProofOfWork ([h] ! i) TestNet3Params (int (length [g] + i))
              \<and> right_bits TestNet3Params (recent 2016 [g] @ take i [h]) (int (length [g] + i)) ([h] ! i)
              \<and> (i \<le> 1 \<or> bh_PrevBlock ([h] ! i) = BlockHash ([h] ! (i - 1)))) [0..<length [h]]
       else holds (headerFile s') [g])"
    using headers_behind_tip [of "ex_spv TestNet3Params None [g]" "[g]" "[h]"] net ok
    by (simp only: ex_spv_simps) (simp add: MaxBlockHeadersPerMsg_def)
  moreover have "[0..<length [h]] = [0]" by simp
  ultimately show ?thesis
    unfolding g_def [symmetric] h_def [symmetric]
    by (elim exE conjE) (rule exI, rule exI, erule conjI, auto split: if_splits)
qed

section \<open>Forks\<close>

lemma find_header_at:
  assumes "holds f hs" "k < length hs" "length hs < 2 ^ 24" "bh_PrevBlock h = BlockHash (hs ! k)"
    and "\<forall>j. k < j \<and> j < length hs \<longrightarrow> BlockHash (hs ! j) \<noteq> BlockHash (hs ! k)"
    and "1 \<le> tries" "tries \<le> length hs - k" "length hs - k < tries + left"
  shows "find_header_loop left tries h f = (Inr (int k), f\<lparr>hf_off := 80 * k + 80\<rparr>)"
  using assms(1,6-8)
proof (induction left arbitrary: tries f)
  case (Suc left)
  define j where "j = length hs - tries"
  have j: "j < length hs" "k \<le> j" "tries = length hs - j"
    using Suc.prems assms(2) by (auto simp: j_def)
  have seek: "seek_end (- 80 * int tries) f = Inr (f\<lparr>hf_off := 80 * j\<rparr>)"
    unfolding j_def using Suc.prems(3) by (intro seek_back [OF Suc.prems(1)]) simp
  have read: "read_header (f\<lparr>hf_off := 80 * j\<rparr>) = (Inr (hs ! j), f\<lparr>hf_off := 80 * j + 80\<rparr>)"
    by (rule read_header_at [OF Suc.prems(1) j(1)])
  have step: "find_header_loop (Suc left) tries h f =
      (if BlockHash (hs ! k) = BlockHash (hs ! j) then (Inr (i32 (int (80 * j) div 80)), f\<lparr>hf_off := 80 * j + 80\<rparr>)
       else find_header_loop left (tries + 1) h (f\<lparr>hf_off := 80 * j + 80\<rparr>))"
    unfolding find_header_loop.simps seek sum.case Let_def read prod.case assms(4) by simp
  show ?case
  proof (cases "j = k")
    case True
    have "i32 (int (80 * k) div 80) = int k"
      using assms(2,3) by (simp add: i32_id)
    then show ?thesis
      unfolding step True by (simp only: if_True refl)
  next
    case False
    then have "BlockHash (hs ! j) \<noteq> BlockHash (hs ! k)" "k < j"
      using assms(5) j(1,2) by (auto dest: le_neq_implies_less)
    moreover have "find_header_loop left (tries + 1) h (f\<lparr>hf_off := 80 * j + 80\<rparr>)
        = (Inr (int k), f\<lparr>hf_off := 80 * j + 80, hf_off := 80 * k + 80\<rparr>)"
      using Suc.prems j \<open>k < j\<close> by (intro Suc.IH) auto
    ultimately show ?thesis
      unfolding step by simp
  qed
qed simp

text \<open>
  C38. A message that forks off below the tip costs the stored chain the header it forks from. When
  \<open>new\<close> continues the header number \<open>k\<close> and passes the checks, the file is cut before that header
  (\<open>FindHeader\<close> gives the position of the parent, not the one behind it), while the file offset stands
  behind it: the new headers are written after 80 zero bytes. (The other case is that two stored headers
  have the same hash.)
\<close>

theorem fork_loses_parent:
  assumes "holds (headerFile s) hs" "length hs \<le> 2000" "StartHeight (Param s) = 0" "epoch_length (Param s) = Inr 2016"
    and "0 < k" "Suc k < length hs" "bh_PrevBlock (new ! 0) = BlockHash (hs ! k)"
    and "list_all header_ok new" "new \<noteq> []" "check_message new 0 new = None" "\<not> moreWork new hs"
    and "check_difficulty (Param s) (int (length hs)) 0 (take k hs) new = Inr None"
  shows "(\<exists>j. k < j \<and> j < length hs \<and> BlockHash (hs ! j) = BlockHash (hs ! k))
    \<or> (\<exists>s'. IngestHeaders new s = Inr ((True, None), s')
         \<and> hf_data (headerFile s') = concat (map header_bytes (take k hs)) @ zeros 80 @ concat (map header_bytes new))"
proof (cases "\<exists>j. k < j \<and> j < length hs \<and> BlockHash (hs ! j) = BlockHash (hs ! k)")
  case False
  let ?f = "headerFile s"
  have hs: "hs \<noteq> []" "length hs < 2 ^ 24" "recent 2016 hs = hs"
    using assms(2,6) by (auto simp: recent_def)
  have find: "FindHeader (new ! 0) (?f\<lparr>hf_off := 80 * length hs\<rparr>) = (Inr (int k), ?f\<lparr>hf_off := 80 * k + 80\<rparr>)"
    using find_header_at [of "?f\<lparr>hf_off := 80 * length hs\<rparr>" hs k "new ! 0" 1 2199] False assms hs
    by (auto simp: FindHeader_def)
  have tip: "bh_PrevBlock (new ! 0) \<noteq> BlockHash (last hs)"
  proof
    assume "bh_PrevBlock (new ! 0) = BlockHash (last hs)"
    then have "k < length hs - 1 \<and> length hs - 1 < length hs \<and> BlockHash (hs ! (length hs - 1)) = BlockHash (hs ! k)"
      using assms(6,7) hs(1) by (simp add: last_conv_nth)
    then show False using False by blast
  qed
  have i: "i32 (int k) = int k" "i32 (int (length hs) - int k) = int (length hs) - int k"
    using assms(2,6) by (auto intro!: i32_id)
  have attach: "check_attach new hs (Param s) (int (length hs)) (int (length hs)) (?f\<lparr>hf_off := 80 * length hs\<rparr>)
      = Inr (Inr (int k, take k hs), ?f\<lparr>hf_off := 80 * k + 80\<rparr>)"
    using hs tip find i assms(3,6,11) by (simp add: check_attach_def Let_def)
  have check: "CheckHeaderChain ?f new (Param s) = Inr ((int k, None), ?f\<lparr>hf_off := 80 * k + 80\<rparr>)"
    using CheckHeaderChain_holds [OF assms(1) hs(1,2) assms(3,4) _ _ assms(9,10)] hs(3) attach assms(12)
    by (simp add: finish_check_def)
  have data: "take (80 * k) (hf_data ?f) = concat (map header_bytes (take k hs))"
      "length (concat (map header_bytes (take k hs))) = 80 * k"
    using assms(1,6) length_headers [of "take k hs"] take_headers [of hs k]
    by (auto simp: holds_def list_all_iff dest: in_set_takeD)
  let ?g = "?f\<lparr>hf_data := concat (map header_bytes (take k hs)), hf_off := 80 * k + 80\<rparr>"
  have "nat (int k * 80) = 80 * k" "80 * k \<le> length (hf_data ?f)"
    using holds_length [OF assms(1)] assms(6) by simp_all
  then have "truncate_file (int k * 80) (?f\<lparr>hf_off := 80 * k + 80\<rparr>) = Inr ?g"
    using data(1) by (simp add: truncate_file_def)
  moreover have "hf_data (fold write_header new ?g) = concat (map header_bytes (take k hs)) @ zeros 80 @ concat (map header_bytes new)"
    using writes [of new ?g] assms(8,9) data(2) by simp
  ultimately show ?thesis
    using check assms(3,5,9) i by (simp add: IngestHeaders_def)
qed simp


text \<open>The test network with its difficulty checks starting at a later height.\<close>

definition ex_params :: Params where
  "ex_params = TestNet3Params\<lparr>AssumeDiffBefore := 1000000\<rparr>"

lemma ex_params_simps [simp]:
  "StartHeight ex_params = 0" "AssumeDiffBefore ex_params = 1000000" "epoch_length ex_params = Inr 2016"
  by (simp_all add: ex_params_def TestNet3Params_def network_def epoch_length_def signed_divide_int_def i32_id)

definition ex_chain3 :: "BlockHeader list" where
  "ex_chain3 = (let g = ex_header (zeros 32); h = ex_header (BlockHash g) in [g, h, ex_header (BlockHash h)])"

theorem fork_loses_parent_witness:
  "(\<exists>j. 1 < j \<and> j < length ex_chain3 \<and> BlockHash (ex_chain3 ! j) = BlockHash (ex_chain3 ! 1))
    \<or> (\<exists>s'. IngestHeaders [ex_header (BlockHash (ex_chain3 ! 1))] (ex_spv ex_params None ex_chain3) = Inr ((True, None), s')
         \<and> hf_data (headerFile s') = concat (map header_bytes (take 1 ex_chain3)) @ zeros 80
             @ concat (map header_bytes [ex_header (BlockHash (ex_chain3 ! 1))]))"
  by (rule fork_loses_parent) (simp_all add: ex_chain3_def Let_def moreWork_def i32_id)

text \<open>
  C39. The link between the first two headers of a message is not checked (the loop compares from index 2
  on). Of two messages that differ in the predecessor their second header names, both pass, so a header
  that does not continue the first one is stored behind it.
\<close>

theorem second_header_unlinked:
  assumes "holds (headerFile s) hs" "hs \<noteq> []" "length hs < 2 ^ 24" "StartHeight (Param s) = 0" "epoch_length (Param s) = Inr 2016"
    and "bh_PrevBlock h0 = BlockHash (last hs)" "bh_PrevBlock h1 \<noteq> bh_PrevBlock h1'"
    and "list_all (\<lambda>h. header_ok h \<and> 0 \<le> sint (bh_Version h)) [h0, h1, h1']"
    and "check_difficulty (Param s) (int (length hs)) 0 (recent 2016 hs) [h0, h1] = Inr None"
    and "check_difficulty (Param s) (int (length hs)) 0 (recent 2016 hs) [h0, h1'] = Inr None"
  shows "\<exists>h \<in> {h1, h1'}. bh_PrevBlock h \<noteq> BlockHash h0
    \<and> (\<exists>s'. IngestHeaders [h0, h] s = Inr ((True, None), s') \<and> holds (headerFile s') (hs @ [h0, h]))"
proof -
  have stored: "\<exists>s'. IngestHeaders [h0, h] s = Inr ((True, None), s') \<and> holds (headerFile s') (hs @ [h0, h])"
    if h: "header_ok h" "0 \<le> sint (bh_Version h)"
      "check_difficulty (Param s) (int (length hs)) 0 (recent 2016 hs) [h0, h] = Inr None" for h
  proof -
    have "check_message [h0, h] 0 [h0, h] = None"
      using assms(8) h(2) by simp
    then have "CheckHeaderChain (headerFile s) [h0, h] (Param s) = Inr ((0, None), (headerFile s)\<lparr>hf_off := 80 * length hs\<rparr>)"
      using CheckHeaderChain_holds [OF assms(1-5), of "[h0, h]"] check_attach_tip [OF assms(2), of 2016 "[h0, h]"] assms(6) h(3)
      by (simp add: finish_check_def del: check_difficulty.simps)
    from Ingest_at_end [OF this assms(1)] show ?thesis
      using assms(8) h(1) by simp
  qed
  show ?thesis
    using stored [of h1] stored [of h1'] assms(7-10) by (cases "bh_PrevBlock h1 = BlockHash h0") auto
qed

theorem second_header_unlinked_witness:
  "\<exists>h \<in> {ex_header (zeros 32), ex_header (replicate 32 1)}. bh_PrevBlock h \<noteq> BlockHash (ex_header (BlockHash (last ex_chain3)))
    \<and> (\<exists>s'. IngestHeaders [ex_header (BlockHash (last ex_chain3)), h] (ex_spv ex_params None ex_chain3) = Inr ((True, None), s')
         \<and> holds (headerFile s') (ex_chain3 @ [ex_header (BlockHash (last ex_chain3)), h]))"
  by (rule second_header_unlinked) (simp_all add: ex_chain3_def Let_def i32_id)

section \<open>Looking up a header\<close>

lemma tip_height:
  assumes "holds (headerFile s) hs" "hs \<noteq> []" "length hs < 2 ^ 24" "StartHeight (Param s) = 0"
  shows "GetHeaderTipHeight s = (int (length hs) - 1, s)"
  using assms holds_length [OF assms(1)] by (simp add: GetHeaderTipHeight_def Let_def i32_id)

definition index_at :: "BlockHeader list \<Rightarrow> nat \<Rightarrow> (bytes \<rightharpoonup> nat) \<Rightarrow> bytes \<rightharpoonup> nat" where
  "index_at hs k idx = fold (\<lambda>i m. m(BlockHash (hs ! i) \<mapsto> 80 * i)) [k..<length hs] idx"

lemma index_at_Some:
  assumes "index_at hs k idx h = Some pos"
  shows "(\<exists>i < length hs. pos = 80 * i \<and> BlockHash (hs ! i) = h) \<or> idx h = Some pos"
proof -
  have "fold (\<lambda>i m. m(BlockHash (hs ! i) \<mapsto> 80 * i)) is m h = Some pos \<Longrightarrow> set is \<subseteq> {..<length hs}
      \<Longrightarrow> (\<exists>i < length hs. pos = 80 * i \<and> BlockHash (hs ! i) = h) \<or> m h = Some pos" for "is" m
    by (induction "is" arbitrary: m) (fastforce split: if_splits)+
  from this [of "[k..<length hs]" idx] show ?thesis
    using assms unfolding index_at_def by fastforce
qed

lemma dom_index_at: "dom (index_at hs 0 Map.empty) = BlockHash ` set hs"
proof -
  have "dom (fold (\<lambda>i m. m(f i \<mapsto> g i)) xs m) = dom m \<union> f ` set xs" for f :: "nat \<Rightarrow> bytes" and g :: "nat \<Rightarrow> nat" and xs m
    by (induction xs arbitrary: m) auto
  then have "dom (index_at hs 0 Map.empty) = (\<lambda>i. BlockHash (hs ! i)) ` {0..<length hs}"
    by (simp add: index_at_def)
  also have "\<dots> = BlockHash ` set hs"
    by (subst (2) map_nth [of hs, symmetric]) (simp add: image_image)
  finally show ?thesis .
qed

lemma index_loop_at:
  assumes "holds f hs" "k \<le> length hs"
  shows "index_loop (f\<lparr>hf_off := 80 * k\<rparr>) idx = (None, f\<lparr>hf_off := 80 * length hs\<rparr>, index_at hs k idx)"
  using assms(2)
proof (induction "length hs - k" arbitrary: k idx)
  case 0
  then show ?case
    using read_header_end [OF assms(1), of k] by (subst index_loop.simps) (simp add: index_at_def)
next
  case (Suc n)
  then have "k < length hs" by simp
  then have "index_at hs k idx = index_at hs (Suc k) (idx(BlockHash (hs ! k) \<mapsto> 80 * k))"
    by (simp add: index_at_def upt_conv_Cons)
  moreover have "index_loop (f\<lparr>hf_off := 80 * k + 80\<rparr>) (idx(BlockHash (hs ! k) \<mapsto> 80 * k))
      = (None, f\<lparr>hf_off := 80 * length hs\<rparr>, index_at hs (Suc k) (idx(BlockHash (hs ! k) \<mapsto> 80 * k)))"
    using Suc.hyps(1) [of "Suc k"] Suc.hyps(2) \<open>k < length hs\<close> by (simp add: add.commute)
  ultimately show ?case
    using read_header_at [OF assms(1) \<open>k < length hs\<close>] by (subst index_loop.simps) simp
qed


lemma scan_misses:
  assumes "holds f hs" "hash \<notin> BlockHash ` set hs" "1 \<le> tries" "tries + left \<le> length hs + 1"
  shows "fst (scan_headers left tries hash f idx) = Inl (GoError ''Block not found'')"
  using assms(1,3,4)
proof (induction left arbitrary: tries f idx)
  case (Suc left)
  define j where "j = length hs - tries"
  have j: "j < length hs"
    using Suc.prems by (auto simp: j_def)
  have seek: "seek_end (- 80 * int tries) f = Inr (f\<lparr>hf_off := 80 * j\<rparr>)"
    unfolding j_def using Suc.prems(3) by (intro seek_back [OF Suc.prems(1)]) simp
  note read = read_header_at [OF Suc.prems(1) j]
  have "hash \<noteq> BlockHash (hs ! j)"
    using assms(2) j by auto
  then show ?case
    unfolding scan_headers.simps seek sum.case Let_def read prod.case
    using Suc.IH [of "f\<lparr>hf_off := 80 * j + 80\<rparr>" "tries + 1"] Suc.prems by simp
qed simp

lemma scan_hit:
  assumes "holds f hs" "idx hash = None" "1 \<le> tries" "tries + left \<le> length hs + 1"
    and "scan_headers left tries hash f idx = (Inr h, f', idx')"
  shows "\<exists>i < length hs. h = hs ! i \<and> BlockHash h = hash \<and> idx' hash = Some (80 * i + 80) \<and> hf_data f' = hf_data f"
  using assms
proof (induction left arbitrary: tries f idx)
  case (Suc left)
  define j where "j = length hs - tries"
  have j: "j < length hs"
    using Suc.prems by (auto simp: j_def)
  have seek: "seek_end (- 80 * int tries) f = Inr (f\<lparr>hf_off := 80 * j\<rparr>)"
    unfolding j_def using Suc.prems(4) by (intro seek_back [OF Suc.prems(1)]) simp
  note read = read_header_at [OF Suc.prems(1) j]
  note found = Suc.prems(5) [unfolded scan_headers.simps seek sum.case Let_def read prod.case]
  show ?case
  proof (cases "hash = BlockHash (hs ! j)")
    case True
    then show ?thesis
      using found Suc.prems(2) j by auto
  next
    case False
    define idx1 where "idx1 = (if idx (BlockHash (hs ! j)) = None then idx(BlockHash (hs ! j) \<mapsto> 80 * j + 80) else idx)"
    have "idx1 hash = None" "scan_headers left (tries + 1) hash (f\<lparr>hf_off := 80 * j + 80\<rparr>) idx1 = (Inr h, f', idx')"
      using False found Suc.prems(2) by (auto simp: idx1_def split: if_splits)
    with Suc.IH [of "f\<lparr>hf_off := 80 * j + 80\<rparr>" idx1 "tries + 1"] show ?thesis
      using Suc.prems(1,4) by simp
  qed
qed simp

text \<open>
  The first lookup by block hash, which builds the index, is exact: it returns a stored header with
  the hash, or \<open>Block not found\<close> when no stored header has it.
\<close>

lemma first_lookup:
  assumes "holds (headerFile s) hs" "hs \<noteq> []" "length hs < 2 ^ 24" "StartHeight (Param s) = 0" "headerIndex s = None"
  shows "case fst (GetHeaderByBlockHash (Some hash) s) of
           Inr h \<Rightarrow> h \<in> set hs \<and> BlockHash h = hash
         | Inl e \<Rightarrow> e = GoError ''Block not found'' \<and> hash \<notin> BlockHash ` set hs"
proof -
  let ?idx = "index_at hs 0 Map.empty"
  have index: "IndexHeaders s = (None, s\<lparr>headerFile := (headerFile s)\<lparr>hf_off := 80 * length hs\<rparr>, headerIndex := Some ?idx\<rparr>)"
    using index_loop_at [OF assms(1), of 0 Map.empty] assms(5) by (simp add: IndexHeaders_def)
  show ?thesis
  proof (cases "?idx hash")
    case None
    then have "hash \<notin> BlockHash ` set hs"
      using dom_index_at [of hs] by auto
    moreover have "1 + (nat (go_Min 1000 (int (length hs) - 1)) - 1) \<le> length hs + 1"
      by (simp add: go_Min_def)
    ultimately have "fst (scan_headers (nat (go_Min 1000 (int (length hs) - 1)) - 1) 1 hash
        ((headerFile s)\<lparr>hf_off := 80 * length hs\<rparr>) ?idx) = Inl (GoError ''Block not found'')"
      using assms(1) by (intro scan_misses) simp_all
    then obtain f' idx' where "scan_headers (nat (go_Min 1000 (int (length hs) - 1)) - 1) 1 hash
        ((headerFile s)\<lparr>hf_off := 80 * length hs\<rparr>) ?idx = (Inl (GoError ''Block not found''), f', idx')"
      by (metis prod.collapse)
    then show ?thesis
      using index None \<open>hash \<notin> BlockHash ` set hs\<close> assms(5)
      by (simp add: GetHeaderByBlockHash_def tip_height [OF assms(1-4)])
  next
    case (Some pos)
    then obtain i where i: "i < length hs" "pos = 80 * i" "BlockHash (hs ! i) = hash"
      using index_at_Some [OF Some] by auto
    then show ?thesis
      using index Some read_header_at [OF assms(1) i(1)] assms(5)
      by (simp add: GetHeaderByBlockHash_def tip_height [OF assms(1-4)])
  qed
qed

lemma ex_chain3_facts: "length ex_chain3 = 3" "ex_chain3 \<noteq> []" "list_all header_ok ex_chain3"
  by (simp_all add: ex_chain3_def Let_def)

text \<open>
  C40. A header that arrived after the index was built is found by the scan, but the offset that enters
  the index is the one behind it. The second lookup of the same hash returns the next header of the
  file, or an error when there is none.
\<close>

theorem second_lookup:
  assumes "holds (headerFile s) hs" "hs \<noteq> []" "length hs < 2 ^ 24" "StartHeight (Param s) = 0"
    and "headerIndex s = Some idx" "idx hash = None" "GetHeaderByBlockHash (Some hash) s = (Inr h, s')"
  shows "\<exists>i < length hs. h = hs ! i \<and> BlockHash h = hash
    \<and> fst (GetHeaderByBlockHash (Some hash) s') = (if Suc i < length hs then Inr (hs ! Suc i) else Inl EOF)"
proof -
  have "1 + (nat (go_Min 1000 (int (length hs) - 1)) - 1) \<le> length hs + 1"
    by (simp add: go_Min_def)
  moreover obtain f' idx' where scan: "scan_headers (nat (go_Min 1000 (int (length hs) - 1)) - 1) 1 hash (headerFile s) idx = (Inr h, f', idx')"
      and s': "s' = s\<lparr>headerFile := f', headerIndex := Some idx'\<rparr>"
    using assms(5-7) by (auto simp: GetHeaderByBlockHash_def tip_height [OF assms(1-4)] split: prod.splits)
  ultimately obtain i where i: "i < length hs" "h = hs ! i" "BlockHash h = hash" "idx' hash = Some (80 * i + 80)" "hf_data f' = hf_data (headerFile s)"
    using scan_hit [OF assms(1,6) _ _ scan] by auto
  have f': "holds f' hs" using assms(1) i(5) by (simp add: holds_def)
  have "read_header (f'\<lparr>hf_off := 80 * Suc i\<rparr>) = (if Suc i < length hs then (Inr (hs ! Suc i), f'\<lparr>hf_off := 80 * Suc i + 80\<rparr>)
      else (Inl EOF, f'\<lparr>hf_off := 80 * Suc i\<rparr>))"
    using read_header_at [OF f', of "Suc i"] read_header_end [OF f', of "Suc i"] by simp
  moreover have "GetHeaderTipHeight s' = (int (length hs) - 1, s')"
    using f' assms(2-4) s' by (intro tip_height) simp_all
  ultimately have "fst (GetHeaderByBlockHash (Some hash) s') = (if Suc i < length hs then Inr (hs ! Suc i) else Inl EOF)"
    using i(4) s' by (simp add: GetHeaderByBlockHash_def add.commute split: if_splits)
  then show ?thesis using i(1-3) by blast
qed


theorem second_lookup_witness:
  "\<exists>s'. GetHeaderByBlockHash (Some (BlockHash (ex_chain3 ! 2))) (ex_spv ex_params (Some Map.empty) ex_chain3) = (Inr (ex_chain3 ! 2), s')
    \<and> (\<exists>i < length ex_chain3. ex_chain3 ! 2 = ex_chain3 ! i \<and> BlockHash (ex_chain3 ! 2) = BlockHash (ex_chain3 ! 2)
        \<and> fst (GetHeaderByBlockHash (Some (BlockHash (ex_chain3 ! 2))) s')
            = (if Suc i < length ex_chain3 then Inr (ex_chain3 ! Suc i) else Inl EOF))"
proof -
  let ?s = "ex_spv ex_params (Some Map.empty) ex_chain3" and ?h = "BlockHash (ex_chain3 ! 2)"
  note ex = ex_chain3_facts
  have hold: "holds (headerFile ?s) ex_chain3" by (simp add: ex)
  have "seek_end (- 80) (headerFile ?s) = Inr ((headerFile ?s)\<lparr>hf_off := 80 * 2\<rparr>)"
    using seek_back [OF hold, of 1] by (simp add: ex)
  moreover have "read_header ((headerFile ?s)\<lparr>hf_off := 80 * 2\<rparr>) = (Inr (ex_chain3 ! 2), (headerFile ?s)\<lparr>hf_off := 80 * 2 + 80\<rparr>)"
    by (rule read_header_at [OF hold]) (simp add: ex)
  moreover have "GetHeaderTipHeight ?s = (2, ?s)"
    using tip_height [OF hold] by (simp add: ex)
  moreover have "nat (go_Min 1000 2) - 1 = Suc 0"
    by (simp add: go_Min_def)
  ultimately obtain s' where "GetHeaderByBlockHash (Some ?h) ?s = (Inr (ex_chain3 ! 2), s')"
    by (simp add: GetHeaderByBlockHash_def Let_def)
  with second_lookup [OF hold _ _ _ _ _ this] show ?thesis
    by (simp add: ex)
qed

end
