(* ===== verification/Bv_Client_Chain.thy ===== *)
theory Bv_Client_Chain
  imports Bv_Client Bv_Server_Props Spv_Correct
begin

text \<open>
  What a client learns from a server: the chain of commitments that the verification loop accepts, and
  what that chain says about the committed value.
\<close>

section \<open>The chain of commitments\<close>

lemma op_bind_Inr: "op_bind m f c = (Inr y, c') \<longleftrightarrow> (\<exists>x d. m c = (Inr x, d) \<and> f x d = (Inr y, c'))"
  by (auto simp: op_bind_def split: sum.splits prod.splits)

lemma op_lift_Inr [simp]: "op_lift r c = (Inr y, c') \<longleftrightarrow> r = Inr y \<and> c' = c"
  by (auto simp: op_lift_def)

lemma wrap_error_Inr [simp]: "wrap_error p r = Inr x \<longleftrightarrow> r = Inr x" "wrap_error p (Inr x) = Inr x"
  by (auto simp: wrap_error_def split: sum.splits go_exn.splits)

lemma db_Update_Inr: "db_Update f c = (Inr u, c') \<longleftrightarrow> (\<exists>db. f (cl_db c) = Inr db \<and> c' = c\<lparr>cl_db := db\<rparr>)"
  by (auto simp: db_Update_def split: sum.splits)

lemma find_block_keeps:
  "find_block env hash retry c = (Inr header, c') \<Longrightarrow> lastServerCommitment c' = lastServerCommitment c \<and> cl_db c' = cl_db c"
proof (induction env hash retry c rule: find_block.induct)
  case (1 env hash retry c)
  obtain r d where d: "GetBlockHeaderByHash hash c = (r, d)" by (cases "GetBlockHeaderByHash hash c")
  then have "lastServerCommitment d = lastServerCommitment c \<and> cl_db d = cl_db c"
    by (auto simp: GetBlockHeaderByHash_def split: prod.splits)
  with 1 d show ?case
    by (auto simp: find_block.simps [of env hash retry c] resync_def split: sum.splits go_exn.splits nat.splits if_splits)
qed

text \<open>A commitment that may follow \<open>prev\<close>: the first one, or one that spends its change output.\<close>

definition follows :: "Commitment_rec option \<Rightarrow> Commitment_rec \<Rightarrow> bool" where
  "follows prev comm \<longleftrightarrow> cm_Commitment comm = MaidenHash
     \<or> (\<exists>l tx. prev = Some l \<and> cm_TxHash l = Some tx \<and> first_outpoint (cm_RawTx comm) = Inr \<lparr>op_Hash = tx, op_Index = 1\<rparr>)"

fun chained :: "Commitment_rec option \<Rightarrow> Commitment_rec list \<Rightarrow> bool" where
  "chained prev [] \<longleftrightarrow> True"
| "chained prev (comm # hist) \<longleftrightarrow> follows prev comm \<and> chained (Some comm) hist"

lemma check_spends_Inr:
  "check_spends prev comm = Inr () \<longleftrightarrow> \<not> is_panic (tx_Deserialize (cm_RawTx comm)) \<and> follows prev comm"
  by (auto simp: check_spends_def follows_def go_simps split: option.splits if_splits intro!: OutPoint.equality)

lemma verifyCommitment_Inr:
  "verifyCommitment env comm c = (Inr (), c') \<longleftrightarrow>
     (\<exists>blk tx header. cm_IncludedInBlock comm = Some blk \<and> cm_TxHash comm = Some tx
        \<and> find_block env (Some blk) 3 c = (Inr header, c')
        \<and> MerkleProof_Check (cm_MerkleProof comm) tx (bh_MerkleRoot header) = Inr True
        \<and> check_spends (lastServerCommitment c) comm = Inr ())"
proof -
  have "lastServerCommitment d = lastServerCommitment c" if "find_block env (Some blk) 3 c = (Inr header, d)" for blk header d
    using find_block_keeps [OF that] by simp
  then show ?thesis
    by (auto simp: verifyCommitment_def op_bind_Inr split: option.splits if_splits)
qed


lemma cli_saveCommitment_last:
  "cli_saveCommitment env comm c = (Inr (), c') \<Longrightarrow> lastServerCommitment c' = Some comm"
  by (auto simp: cli_saveCommitment_def op_bind_Inr)

lemma verify_history_chained:
  "verify_history env hist c = (Inr False, c') \<Longrightarrow> chained (lastServerCommitment c) hist
     \<and> lastServerCommitment c' = (if hist = [] then lastServerCommitment c else Some (last hist))"
proof (induction hist arbitrary: c)
  case (Cons comm hist)
  then obtain d e where v: "verifyCommitment env comm c = (Inr (), d)" and s: "cli_saveCommitment env comm d = (Inr (), e)"
      and rest: "verify_history env hist e = (Inr False, c')"
    by (auto simp: or_panic_def split: sum.splits prod.splits go_exn.splits if_splits)
  from v have "follows (lastServerCommitment c) comm"
    by (auto simp: verifyCommitment_Inr check_spends_Inr)
  then show ?case
    using Cons.IH [OF rest] cli_saveCommitment_last [OF s] by simp
qed simp

section \<open>A commitment transaction for any value\<close>

definition spending_tx :: "bytes \<Rightarrow> MsgTx" where
  "spending_tx prev = \<lparr>tx_Version = 1,
     tx_TxIn = [\<lparr>ti_PreviousOutPoint = \<lparr>op_Hash = prev, op_Index = 1\<rparr>, ti_SignatureScript = [], ti_Witness = None, ti_Sequence = 0\<rparr>],
     tx_TxOut = [], tx_LockTime = 0\<rparr>"

lemma first_outpoint_spending:
  assumes "length prev = 32"
  shows "first_outpoint (tx_Serialize (spending_tx prev)) = Inr \<lparr>op_Hash = prev, op_Index = 1\<rparr>"
    "\<not> is_panic (tx_Deserialize (tx_Serialize (spending_tx prev)))"
proof -
  have "tx_ok (spending_tx prev)" "tx_TxIn (spending_tx prev) \<noteq> []"
    using assms by (simp_all add: spending_tx_def tx_ok_def txin_ok_def outpoint_ok_def witness_ok_def tx_limits)
  then have "tx_Deserialize (tx_Serialize (spending_tx prev)) = Inr (settle WitnessEncoding (spending_tx prev), [])"
    using tx_decode_encode [of "spending_tx prev" WitnessEncoding "[]"] by (simp add: tx_Deserialize_def tx_Serialize_def)
  then show "first_outpoint (tx_Serialize (spending_tx prev)) = Inr \<lparr>op_Hash = prev, op_Index = 1\<rparr>"
      "\<not> is_panic (tx_Deserialize (tx_Serialize (spending_tx prev)))"
    by (simp_all add: first_outpoint_def settle_def set_witness_def spending_tx_def)
qed

section \<open>An example client\<close>

text \<open>
  A database that keeps its entries in the order of their keys, a connection whose peer sends the same
  bytes again and again, and a header chain of one header.
\<close>

fun str_less :: "string \<Rightarrow> string \<Rightarrow> bool" where
  "str_less _ [] \<longleftrightarrow> False"
| "str_less [] (_ # _) \<longleftrightarrow> True"
| "str_less (c # cs) (d # ds) \<longleftrightarrow> (of_char c :: nat) < of_char d \<or> c = d \<and> str_less cs ds"

fun kv_put :: "string \<Rightarrow> bytes \<Rightarrow> (string \<times> bytes) list \<Rightarrow> (string \<times> bytes) list" where
  "kv_put k v [] = [(k, v)]"
| "kv_put k v ((k', v') # db) =
     (if k = k' then (k, v) # db else if str_less k k' then (k, v) # (k', v') # db else (k', v') # kv_put k v db)"

definition ex_cenv :: "((string \<times> bytes) list, bytes) cenv" where
  "ex_cenv = \<lparr>kv_Get = (\<lambda>db k. case map_of db k of Some v \<Rightarrow> Inr v | None \<Rightarrow> Inl ErrNotFound),
     kv_Set = (\<lambda>db k v. Inr (kv_put k v db)), kv_Delete = (\<lambda>db k. Inr (filter (\<lambda>e. fst e \<noteq> k) db)),
     kv_AscendRange = (\<lambda>db a b. Inr (filter (\<lambda>e. \<not> str_less (fst e) a \<and> str_less (fst e) b) db)),
     kv_DescendRange = (\<lambda>db a b. Inr (rev (filter (\<lambda>e. str_less b (fst e) \<and> \<not> str_less a (fst e)) db))),
     key_Sign = (\<lambda>h. Inl (GoError ''no key'')), cl_ecdsa = (\<lambda>pk h r s. r = 1 \<and> s = 1),
     net_send = (\<lambda>n b. (Inr n, n)), spv_wait = id\<rparr>"

definition ex_block :: BlockHeader where
  "ex_block = (ex_header (zeros 32))\<lparr>bh_MerkleRoot := replicate 32 1\<rparr>"

definition ex_client :: "bytes \<Rightarrow> (string \<times> bytes) list \<Rightarrow> ((string \<times> bytes) list, bytes) Client" where
  "ex_client reply db = \<lparr>cl_pubKey = [], cl_db = db, cl_conn = reply,
     cl_spv = (ex_spv ex_params (Some [replicate 32 2 \<mapsto> 0]) [ex_block])\<lparr>Synced := True\<rparr>,
     lastServerCommitment = None, fullClient = True, FastMode = False, DummySignatures = False\<rparr>"

definition ex_comm :: Commitment_rec where
  "ex_comm = \<lparr>cm_Commitment = MaidenHash, cm_TxHash = Some (replicate 32 1), cm_TriggeredAtBlockHeight = 0,
     cm_IncludedInBlock = Some (replicate 32 2), cm_MerkleProof = \<lparr>mp_Position = 0, mp_Hashes = []\<rparr>, cm_RawTx = []\<rparr>"

lemma kv_put_all: "list_all (\<lambda>x. P (fst x)) db \<Longrightarrow> P k \<Longrightarrow> list_all (\<lambda>x. P (fst x)) (kv_put k v db)"
  by (induction k v db rule: kv_put.induct) auto

lemma ex_lookup:
  "\<exists>spv. GetHeaderByBlockHash (Some (replicate 32 2)) (cl_spv (ex_client reply db)) = (Inr ex_block, spv)"
proof -
  let ?s = "cl_spv (ex_client reply db)"
  have s: "holds (headerFile ?s) [ex_block]" "StartHeight (Param ?s) = 0" "headerIndex ?s = Some [replicate 32 2 \<mapsto> 0]"
    by (simp_all add: ex_client_def ex_block_def ex_header_def header_ok_def)
  have "read_header ((headerFile ?s)\<lparr>hf_off := 0\<rparr>) = (Inr ex_block, (headerFile ?s)\<lparr>hf_off := 80\<rparr>)"
    using read_header_at [OF s(1), of 0] by simp
  then show ?thesis
    using tip_height [OF s(1) _ _ s(2)] s(3) by (simp add: GetHeaderByBlockHash_def)
qed

lemma ex_find_block:
  "\<exists>d. find_block ex_cenv (Some (replicate 32 2)) 3 ((ex_client reply db)\<lparr>lastServerCommitment := l\<rparr>) = (Inr ex_block, d)"
proof -
  have "cl_spv ((ex_client reply db)\<lparr>lastServerCommitment := l\<rparr>) = cl_spv (ex_client reply db)" by simp
  with ex_lookup [of reply db] show ?thesis
    by (auto simp: find_block.simps GetBlockHeaderByHash_def)
qed

lemma ex_check: "MerkleProof_Check (cm_MerkleProof ex_comm) (replicate 32 1) (bh_MerkleRoot ex_block) = Inr True"
  by (simp add: ex_comm_def ex_block_def MerkleProof_Check_def)

lemma ex_comm_ok: "cm_ok ex_comm" "cm_size ex_comm < 2 ^ 31"
  by (simp_all add: ex_comm_def cm_ok_def cm_size_def hash_ok_opt_def proof_ok_def MaidenHash_def)

text \<open>
  C37. The committed value is not bound to the commitment transaction. The client compares neither the
  raw transaction with the transaction hash nor the value with the transaction. Whenever it has accepted
  a commitment and knows a block, a server can present any value whatever as the next commitment: with a
  merkle proof for any transaction of that block, and a made-up raw transaction that spends the right
  output.
\<close>

theorem commitment_value_unbound:
  assumes "find_block env (Some blk) 3 c = (Inr header, c')"
    and "MerkleProof_Check prf tx (bh_MerkleRoot header) = Inr True"
    and "lastServerCommitment c = Some l" "cm_TxHash l = Some prev" "length prev = 32"
  shows "\<exists>raw. verifyCommitment env
      \<lparr>cm_Commitment = anything, cm_TxHash = Some tx, cm_TriggeredAtBlockHeight = height, cm_IncludedInBlock = Some blk,
       cm_MerkleProof = prf, cm_RawTx = raw\<rparr> c = (Inr (), c')"
  using assms first_outpoint_spending [OF assms(5)]
  by (intro exI [of _ "tx_Serialize (spending_tx prev)"]) (simp add: verifyCommitment_Inr check_spends_Inr follows_def)

theorem commitment_value_unbound_witness:
  "\<exists>c' raw. verifyCommitment ex_cenv
      \<lparr>cm_Commitment = [1, 2, 3], cm_TxHash = Some (replicate 32 1), cm_TriggeredAtBlockHeight = 7,
       cm_IncludedInBlock = Some (replicate 32 2), cm_MerkleProof = cm_MerkleProof ex_comm, cm_RawTx = raw\<rparr>
      ((ex_client [] [])\<lparr>lastServerCommitment := Some ex_comm\<rparr>) = (Inr (), c')"
proof -
  obtain d where d: "find_block ex_cenv (Some (replicate 32 2)) 3 ((ex_client [] [])\<lparr>lastServerCommitment := Some ex_comm\<rparr>) = (Inr ex_block, d)"
    using ex_find_block by blast
  have "cm_TxHash ex_comm = Some (replicate 32 1)" by (simp add: ex_comm_def)
  from commitment_value_unbound [OF d ex_check _ this] show ?thesis by fastforce
qed

lemma updateProofs_keeps:
  "updateProofs env c = (Inr (), c') \<Longrightarrow> lastServerCommitment c' = lastServerCommitment c"
  by (auto simp: updateProofs_def op_bind_Inr RequestProof_def send_message_def db_Update_Inr
      simp del: set_all.simps split: prod.splits if_splits)

text \<open>
  C11. A round of the verification loop that ends well has accepted a chain: every commitment of the
  history that the server sent is the maiden one or has a transaction whose first input is output 1 of
  the transaction that the commitment before it names, starting from the last one known, and the last
  of them is remembered.
\<close>

theorem accepted_history:
  assumes "verify_round env c = (Inr Round_done, c')" and "Synced (cl_spv c)"
  shows "\<exists>hist d. cli_GetCommitmentHistory env
      (case lastServerCommitment c of Some l \<Rightarrow> copy_bytes (zeros 32) (cm_Commitment l) | None \<Rightarrow> zeros 32) c = (Inr (Some hist), d)
    \<and> chained (lastServerCommitment c) hist
    \<and> lastServerCommitment c' = (if hist = [] then lastServerCommitment c else Some (last hist))"
proof -
  obtain hist d e where h: "cli_GetCommitmentHistory env
      (case lastServerCommitment c of Some l \<Rightarrow> copy_bytes (zeros 32) (cm_Commitment l) | None \<Rightarrow> zeros 32) c = (Inr (Some hist), d)"
    and v: "verify_history env hist d = (Inr False, e)"
    and u: "if hist = [] then c' = e else updateProofs env e = (Inr (), c')"
    using assms by (auto simp: verify_round_def or_panic_def split: prod.splits sum.splits option.splits bool.splits if_splits go_exn.splits)
  have "lastServerCommitment d = lastServerCommitment c"
    using h by (auto simp: cli_GetCommitmentHistory_def send_message_def op_bind_Inr split: prod.splits)
  then show ?thesis
    using verify_history_chained [OF v] u h updateProofs_keeps [of env e c'] by (auto split: if_splits)
qed

lemma ex_reply:
  "\<exists>b. ReceiveLoop (conn_WriteMessage MessageTypeCommitmentHistory b) = [Ev_History [ex_comm], Ev_Closed]"
proof -
  obtain b where b: "Commitment_Bytes ex_comm = Inr b" "CommitmentFromBytes b = Inr ex_comm" "length b < 2 ^ 31"
    using Commitment_roundtrip [OF ex_comm_ok(1)] ex_comm_ok(2) by auto
  let ?m = "putBE32 1 @ putBE32 (word_of_nat (length b)) @ b"
  have "NewCommitmentHistoryMessageFromBytes ?m = Inr \<lparr>Commitments = [ex_comm]\<rparr>"
    using b sint_len32 [OF b(3)] by (simp add: NewCommitmentHistoryMessageFromBytes_def read_commitment_def bufNext_int_def bufNext_def)
  then have "client_receive MessageTypeCommitmentHistory ?m = Some (Ev_History [ex_comm])"
    by (simp add: client_receive_def parsed_def MessageTypeCommitmentHistory_def MessageTypeAck_def MessageTypeError_def
        MessageTypeProofUpdate_def MessageTypeProof_def MessageTypeCommitmentDetails_def)
  moreover have "ReadNextMessage (conn_WriteMessage MessageTypeCommitmentHistory ?m @ []) = Inr ((MessageTypeCommitmentHistory, ?m), [])"
    using b(3) by (simp only: ReadNextMessage_iff) simp
  moreover have "ReceiveLoop [] = [Ev_Closed]"
    by (simp add: ReceiveLoop.simps ReadNextMessage_def readFull_def)
  ultimately show ?thesis
    by (intro exI [of _ ?m]) (subst ReceiveLoop.simps, simp)
qed

lemma ex_saved:
  assumes "cl_db d = []"
  shows "\<exists>e. cli_saveCommitment ex_cenv ex_comm d = (Inr (), e) \<and> (\<forall>x \<in> set (cl_db e). str_less (fst x) ''log-'')"
proof -
  obtain b where b: "Commitment_Bytes ex_comm = Inr b" using Commitment_roundtrip [OF ex_comm_ok(1)] by auto
  let ?db1 = "kv_put (id_key ''commitment-'' MaidenHash) b []"
  let ?db2 = "kv_put (id_key ''block-'' (replicate 32 2)) MaidenHash ?db1"
  let ?db3 = "kv_put ''commitment-last'' MaidenHash ?db2"
  have "cli_saveCommitment ex_cenv ex_comm d = (Inr (), d\<lparr>cl_db := ?db3, lastServerCommitment := Some ex_comm\<rparr>)"
    using b assms
    by (simp add: cli_saveCommitment_def op_bind_def db_Update_def ex_cenv_def) (simp add: ex_comm_def ex_cenv_def)
  moreover have "list_all (\<lambda>x. str_less (fst x) ''log-'') ?db3"
    by (intro kv_put_all) (simp_all add: id_key_def)
  ultimately show ?thesis by (simp add: list_all_iff del: kv_put.simps)
qed

lemma ex_no_logs:
  assumes "\<forall>x \<in> set (cl_db e). str_less (fst x) ''log-''"
  shows "updateProofs ex_cenv e = (Inr (), e)"
proof -
  have "kv_AscendRange ex_cenv (cl_db e) ''log-'' ''log.'' = Inr []"
    using assms by (simp add: ex_cenv_def filter_empty_conv)
  then show ?thesis by (simp add: updateProofs_def GetAllLogIDs_def op_bind_def op_lift_def)
qed

theorem accepted_history_witness:
  "\<exists>reply c' hist d. verify_round ex_cenv (ex_client reply []) = (Inr Round_done, c')
    \<and> cli_GetCommitmentHistory ex_cenv (zeros 32) (ex_client reply []) = (Inr (Some hist), d)
    \<and> chained None hist \<and> hist = [ex_comm] \<and> lastServerCommitment c' = Some ex_comm"
proof -
  obtain b where b: "ReceiveLoop (conn_WriteMessage MessageTypeCommitmentHistory b) = [Ev_History [ex_comm], Ev_Closed]"
    using ex_reply by blast
  let ?r = "conn_WriteMessage MessageTypeCommitmentHistory b"
  let ?c = "ex_client ?r []"
  have h: "cli_GetCommitmentHistory ex_cenv (zeros 32) ?c = (Inr (Some [ex_comm]), ?c)"
    using b by (simp add: cli_GetCommitmentHistory_def op_bind_def send_message_def op_lift_def ex_cenv_def ex_client_def)
  obtain d where d: "find_block ex_cenv (Some (replicate 32 2)) 3 ?c = (Inr ex_block, d)"
    using ex_find_block [where reply = ?r and db = "[]" and l = None] by (auto simp: ex_client_def)
  have "check_spends None ex_comm = Inr ()"
    by (simp add: check_spends_def ex_comm_def tx_Deserialize_def tx_BtcDecode_def Uint32_def readFull_def)
  then have v: "verifyCommitment ex_cenv ex_comm ?c = (Inr (), d)"
    using d ex_check by (auto simp: verifyCommitment_Inr) (simp add: ex_comm_def ex_client_def)
  obtain e where e: "cli_saveCommitment ex_cenv ex_comm d = (Inr (), e)"
      "\<forall>x \<in> set (cl_db e). str_less (fst x) ''log-''"
    using ex_saved [of d] find_block_keeps [OF d] by (auto simp: ex_client_def)
  then have "updateProofs ex_cenv e = (Inr (), e)"
    by (intro ex_no_logs)
  then have r: "verify_round ex_cenv ?c = (Inr Round_done, e)"
    using h v e by (simp add: verify_round_def) (simp add: ex_client_def)
  from accepted_history [OF this] h r show ?thesis
    by (intro exI [of _ ?r] exI [of _ e] exI [of _ "[ex_comm]"] exI [of _ ?c]) (auto simp: ex_client_def)
qed

end
