(* ===== verification/Bv_Client_Verify.thy ===== *)
theory Bv_Client_Verify
  imports Bv_Client_Chain
begin

text \<open>
  What a statement that \<open>VerifyOnce\<close> calls valid shows, and the client's calls against the server of
  \<open>Bv_Server\<close>.
\<close>

section \<open>Statements of other clients\<close>

text \<open>A statement signed under the key it carries, with the log it belongs to and the value that is committed for it.\<close>

definition foreign_signed :: "ecdsa \<Rightarrow> ForeignStatement \<Rightarrow> bytes \<Rightarrow> bytes \<Rightarrow> bool" where
  "foreign_signed ec st logId hash \<longleftrightarrow>
     (if fs_InitialStatement st
      then \<exists>s. CreateStatement s = \<lparr>ControllingKey = fs_PubKey st, InitialStatement = Sum256 (fs_StatementPreimage st)\<rparr>
        \<and> scls_VerifySignature ec s = Inr ()
        \<and> logId = Sum256 (CreateLogStatement_Bytes (CreateStatement s)) \<and> hash = Sum256 (SignedCreateLogStatement_Bytes s)
      else \<exists>s. sls_Statement s = \<lparr>LogID = logId, Index = fs_Index st, Statement = Sum256 (fs_StatementPreimage st)\<rparr>
        \<and> sls_VerifySignature ec s (fs_PubKey st) = Inr ()
        \<and> logId = fs_LogID st \<and> hash = Sum256 (SignedLogStatement_Bytes s))"

lemma GetForeign_signed:
  "GetForeignLogIDAndHash env st = Inr (logId, hash) \<Longrightarrow> foreign_signed (cl_ecdsa env) st logId hash"
  by (auto simp: GetForeignLogIDAndHash_def foreign_signed_def go_simps Let_def split: if_splits
      intro!: exI [of _ "\<lparr>scls_Signature = fs_Signature st,
         CreateStatement = \<lparr>ControllingKey = fs_PubKey st, InitialStatement = Sum256 (fs_StatementPreimage st)\<rparr>\<rparr>"]
       exI [of _ "\<lparr>sls_Signature = fs_Signature st,
         sls_Statement = \<lparr>LogID = fs_LogID st, Index = fs_Index st, Statement = Sum256 (fs_StatementPreimage st)\<rparr>\<rparr>"])

lemma foreign_signed_lengths:
  "foreign_signed ec st logId hash \<Longrightarrow> length (fs_LogID st) = 32 \<Longrightarrow> length logId = 32 \<and> length hash = 32"
  by (auto simp: foreign_signed_def split: if_splits)

lemma ForeignStatementFromBytes_Inr:
  assumes "ForeignStatementFromBytes b = Inr st"
  shows "length (fs_LogID st) = 32"
    and "fs_Proof st = Some p \<Longrightarrow> \<exists>q r. DeserializeNewPartialMPT q = Inr (p, r)"
  using assms
  by (auto simp: ForeignStatementFromBytes_def go_simps split: prod.splits sum.splits go_exn.splits if_splits)
    (blast+)

lemma check_foreign_Inr:
  assumes "check_foreign env c st = Inr (Inr comm)"
  obtains logId hash p root p' val where "GetForeignLogIDAndHash env st = Inr (logId, hash)" "fs_Proof st = Some p"
    "PartialMPT_Get p logId = Inr val" "(case val of Some v \<Rightarrow> v | None \<Rightarrow> []) = hash"
    "PartialMPT_Commitment p = Inr (root, p')" "getCommitment env c root = Inr comm"
proof -
  obtain logId hash p where f: "GetForeignLogIDAndHash env st = Inr (logId, hash)" "fs_Proof st = Some p"
    using assms by (auto simp: check_foreign_def catch_err_Inr split: option.splits)
  with assms obtain val where v: "PartialMPT_Get p logId = Inr val" "(case val of Some v \<Rightarrow> v | None \<Rightarrow> []) = hash"
    by (auto simp: check_foreign_def catch_err_Inr split: if_splits)
  with assms f obtain root p' where "PartialMPT_Commitment p = Inr (root, p')" "getCommitment env c root = Inr comm"
    by (auto simp: check_foreign_def catch_err_Inr go_simps)
  with f v show ?thesis by (rule that)
qed

lemma invalid_not_valid [simp]: "\<not> vr_Valid (invalid e)"
  by (simp add: invalid_def)

lemma VerifyOnce_valid:
  assumes "VerifyOnce env dec c = (Inr res, c')" and "vr_Valid res"
  shows "\<exists>st comm. ForeignStatementFromBytes dec = Inr st \<and> check_foreign env c st = Inr (Inr comm)
    \<and> vr_Statement res = fs_StatementPreimage st \<and> vr_PubKey res = hex_EncodeToString (fs_PubKey st)"
proof -
  obtain st r where st: "ForeignStatementFromBytes dec = Inr st" "check_foreign env c st = Inr r"
    using assms(1) by (auto simp: VerifyOnce_def op_bind_Inr)
  show ?thesis
  proof (cases r)
    case (Inl e)
    then have "res = invalid e" using assms(1) st by (simp add: VerifyOnce_def op_bind_def op_lift_def)
    then show ?thesis using assms(2) by simp
  next
    case (Inr comm)
    then show ?thesis
      using assms st
      by (cases "GetBlockHeaderByHash (cm_IncludedInBlock comm) c")
        (auto simp: VerifyOnce_def op_bind_def op_lift_def split: sum.splits go_exn.splits option.splits)
  qed
qed


text \<open>A statement in the log \<open>ex_key 0x80\<close>, with a proof and a client that has its commitment.\<close>

definition ex_statement :: SignedLogStatement where
  "ex_statement = \<lparr>sls_Signature = to_be 32 1 @ to_be 32 1,
     sls_Statement = \<lparr>LogID = ex_key 0x80, Index = 1, Statement = Sum256 [7]\<rparr>\<rparr>"

definition ex_proof :: PartialMPT where
  "ex_proof = \<lparr>pm_root = NewInteriorNode EmptyLeafNode
     (NewDictionaryLeafNode (ex_key 0x80) (Sum256 (SignedLogStatement_Bytes ex_statement)))\<rparr>"

definition ex_export :: ForeignStatement where
  "ex_export = \<lparr>fs_InitialStatement = False, fs_LogID = ex_key 0x80, fs_StatementPreimage = [7],
     fs_Signature = to_be 32 1 @ to_be 32 1, fs_PubKey = 0x3 # to_be 32 (pub_X ex_pub), fs_Index = 1, fs_Proof = Some ex_proof\<rparr>"

lemma ex_proof_facts:
  "IsInterior (pm_root ex_proof)" "serial_ok (pm_root ex_proof)" "PartialMPT_ByteSize ex_proof < 2 ^ 32"
  "PartialMPT_Get ex_proof (ex_key 0x80) = Inr (Some (Sum256 (SignedLogStatement_Bytes ex_statement)))"
  by (simp_all add: ex_proof_def int32_len_def PartialMPT_ByteSize_def PartialMPT_Get_def
      partialGetHelper.simps [of "InteriorNode _ _ _ _ _"] partialGetHelper.simps [of "Leaf _ _ _ _ _"] ex_bits)

lemma ex_statement_signed: "sls_VerifySignature (cl_ecdsa ex_cenv) ex_statement (0x3 # to_be 32 (pub_X ex_pub)) = Inr ()"
proof -
  have "in_order 1" by (simp add: in_order_def curve_N_def)
  then show ?thesis
    using ex_pub_parses unfolding sls_VerifySignature_def
    by (simp add: ex_statement_def VerifySig_halves(1) ex_cenv_def)
qed

lemma ex_export_facts:
  "\<exists>st root. ForeignStatementFromBytes (ForeignStatement_Bytes ex_export) = Inr st
    \<and> (\<forall>b. CommitmentFromBytes b = Inr ex_comm \<longrightarrow>
         check_foreign ex_cenv (ex_client [] [(id_key ''commitment-'' root, b)]) st = Inr (Inr ex_comm))"
proof -
  have ok: "fs_ok ex_export" by (simp add: fs_ok_def ex_export_def)
  have "fs_Proof ex_export = Some ex_proof" by (simp add: ex_export_def)
  then obtain st p where st: "ForeignStatementFromBytes (ForeignStatement_Bytes ex_export) = Inr st"
      "st\<lparr>fs_Proof := Some ex_proof\<rparr> = ex_export" "fs_Proof st = Some p"
      and p: "\<forall>k. PartialMPT_Get p k = PartialMPT_Get ex_proof k" "\<exists>p''. PartialMPT_Commitment p = Inr (thash (pm_root ex_proof), p'')"
    using foreign_roundtrip [OF ok] ex_proof_facts(1-3) by (auto simp: option_rel_Some1)
  obtain i l s g k x q where "st = \<lparr>fs_InitialStatement = i, fs_LogID = l, fs_StatementPreimage = s, fs_Signature = g, fs_PubKey = k,
      fs_Index = x, fs_Proof = q\<rparr>" by (cases st)
  with st(2) have f: "\<not> fs_InitialStatement st" "fs_LogID st = ex_key 0x80" "fs_StatementPreimage st = [7]"
      "fs_Signature st = to_be 32 1 @ to_be 32 1" "fs_PubKey st = 0x3 # to_be 32 (pub_X ex_pub)" "fs_Index st = 1"
    by (simp_all add: ex_export_def)
  have "GetForeignLogIDAndHash ex_cenv st = Inr (ex_key 0x80, Sum256 (SignedLogStatement_Bytes ex_statement))"
    using ex_statement_signed f(1) unfolding GetForeignLogIDAndHash_def f(2-6) by (simp add: ex_statement_def Let_def)
  moreover have "getCommitment ex_cenv (ex_client [] [(id_key ''commitment-'' (thash (pm_root ex_proof)), b)]) (thash (pm_root ex_proof)) = CommitmentFromBytes b" for b
    by (simp add: getCommitment_def cli_get_def ex_cenv_def ex_client_def)
  ultimately show ?thesis
    using st(1,3) p ex_proof_facts(4)
    by (intro exI [of _ st] exI [of _ "thash (pm_root ex_proof)"]) (auto simp: check_foreign_def catch_err_def)
qed


section \<open>The client against the server\<close>

text \<open>
  The server of \<open>Bv_Server\<close> as the peer: it reads one message, and the reply is what it writes to the
  connection, or the error message with which \<open>Process\<close> ends.
\<close>

definition serve :: "('db, 'w) env \<Rightarrow> nat \<Rightarrow> ('db, 'w) Server \<Rightarrow> bytes \<Rightarrow> bytes go \<times> ('db, 'w) Server" where
  "serve env i srv b =
     (case bind_go (ReadNextMessage b) (\<lambda>((t, m), _). ProcessMessage env i t m srv) of
        Inr (None, srv') \<Rightarrow> (Inr (drop (length (lp_conn (procs srv i))) (lp_conn (procs srv' i))), srv')
      | Inr (Some e, srv') \<Rightarrow> (Inr (conn_WriteMessage MessageTypeError (string_bytes e)), unregisterProcessor i srv')
      | Inl e \<Rightarrow> (Inl e, srv))"

lemma ack_received: "ReceiveLoop (conn_WriteMessage MessageTypeAck []) = [Ev_Ack, Ev_Closed]"
proof -
  have "ReadNextMessage (conn_WriteMessage MessageTypeAck [] @ []) = Inr ((MessageTypeAck, []), [])"
    by (simp only: ReadNextMessage_iff) simp
  moreover have "ReceiveLoop [] = [Ev_Closed]"
    by (simp add: ReceiveLoop.simps ReadNextMessage_def readFull_def)
  ultimately show ?thesis
    by (subst ReceiveLoop.simps) (simp add: client_receive_def)
qed

lemma served_ack:
  assumes "net_send env = serve senv i" and "length m < 2 ^ 32" and "ProcessMessage senv i t m (cl_conn c) = Inr (None, srv')"
    and "lp_conn (procs srv' i) = lp_conn (procs (cl_conn c) i) @ conn_WriteMessage MessageTypeAck []"
  shows "send_for_ack env t m c = (Inr (), c\<lparr>cl_conn := srv'\<rparr>)"
proof -
  have "ReadNextMessage (conn_WriteMessage t m @ []) = Inr ((t, m), [])"
    using assms(2) by (simp only: ReadNextMessage_iff)
  then have "net_send env (cl_conn c) (conn_WriteMessage t m) = (Inr (conn_WriteMessage MessageTypeAck []), srv')"
    using assms(1,3,4) by (simp add: serve_def)
  then show ?thesis
    using ack_received by (simp add: send_for_ack_def send_message_def op_bind_def op_lift_def or_error_def)
qed

lemma RegisterLogStatement_procs:
  "RegisterLogStatement env srv k idx w shared = Inr (e, srv') \<Longrightarrow> procs srv' = procs srv"
  by (auto simp: RegisterLogStatement_def Let_def go_simps split: if_splits)

lemma ProcessAppendLog_acks:
  assumes "ProcessAppendLog env i sls srv = Inr (None, srv')"
  shows "lp_conn (procs srv' i) = lp_conn (procs srv i) @ conn_WriteMessage MessageTypeAck []"
proof -
  obtain srv2 w where s: "RegisterLogStatement env srv (LogID (sls_Statement sls)) (Index (sls_Statement sls)) w False = Inr (None, srv2)"
      "srv' = AckAppendLog i sls srv2"
    using assms by (auto simp: ProcessAppendLog_def CommitAppendLog_def go_simps split: if_splits)
  show ?thesis
    unfolding s(2) using RegisterLogStatement_procs [OF s(1)]
    by (simp add: AckAppendLog_def lp_write_def SubscribeToLog_def Let_def)
qed

text \<open>
  C9. A client and the server agree on what was appended. When the log service that the server stands
  for accepts the statement that the client built and signed, \<open>AppendLog\<close> gets its acknowledgement, the
  server's trie then holds the hash of the signed statement for the log, and it is this hash and this
  index that a full client writes to its own database.
\<close>

theorem append_reaches_server:
  assumes "net_send env = serve senv i" and "implements (cl_conn c) a"
    and "append_checks env c idx logId statement = Inr st" and "SignedAppendLog env c idx logId st = Inr sls"
    and "sls_ok sls" and "length (SignedLogStatement_Bytes sls) < 2 ^ 32"
    and "als_append (ecdsa_Verify senv) (CheckSignatures (cl_conn c)) sls a = Some b"
  shows "\<exists>srv'. implements srv' b \<and> trie_map (fullmpt srv') logId = Some (Sum256 (SignedLogStatement_Bytes sls))
    \<and> AppendLog env idx logId statement c =
        (if fullClient c then
           db_Update (set_all env
             [(idx_key ''loghash-'' logId (fmt_09d (unat idx)), Sum256 (SignedLogStatement_Bytes sls)),
              (id_key ''lastidx-'' logId, string_bytes (decimal (unat idx)))])
         else op_lift (Inr ())) (c\<lparr>cl_conn := srv'\<rparr>)"
proof -
  obtain srv' where p: "ProcessAppendLog senv i sls (cl_conn c) = Inr (None, srv')" and b: "implements srv' b"
    using ProcessAppendLog_refines [OF assms(2,5), of senv i] assms(7) by (auto simp: answers_def)
  have "ProcessMessage senv i MessageTypeAppendLog (SignedLogStatement_Bytes sls) (cl_conn c) = Inr (None, srv')"
    using p ProcessMessage_statement(2) [OF assms(5), of senv i "[]"] by simp
  from served_ack [OF assms(1,6) this ProcessAppendLog_acks [OF p]]
  have s: "send_for_ack env MessageTypeAppendLog (SignedLogStatement_Bytes sls) c = (Inr (), c\<lparr>cl_conn := srv'\<rparr>)" .
  have "LogID (sls_Statement sls) = logId"
    using assms(4) by (auto simp: SignedAppendLog_def NewSignedLogStatement_def Let_def go_simps split: if_splits)
  then have "trie_map (fullmpt srv') logId = Some (Sum256 (SignedLogStatement_Bytes sls))"
    using b assms(7) by (auto simp: implements_def als_append_def als_push_def als_current_def Let_def split: if_splits)
  moreover have "AppendLog env idx logId statement c =
        (if fullClient c then
           db_Update (set_all env
             [(idx_key ''loghash-'' logId (fmt_09d (unat idx)), Sum256 (SignedLogStatement_Bytes sls)),
              (id_key ''lastidx-'' logId, string_bytes (decimal (unat idx)))])
         else op_lift (Inr ())) (c\<lparr>cl_conn := srv'\<rparr>)"
    using s assms(3,4) by (simp add: AppendLog_def op_bind_def op_lift_def del: set_all.simps)
  ultimately show ?thesis using b by blast
qed

definition ex_link :: "((string \<times> bytes) list, (unit, unit) Server) cenv" where
  "ex_link = \<lparr>kv_Get = kv_Get ex_cenv, kv_Set = kv_Set ex_cenv, kv_Delete = kv_Delete ex_cenv,
     kv_AscendRange = kv_AscendRange ex_cenv, kv_DescendRange = kv_DescendRange ex_cenv,
     key_Sign = key_Sign ex_cenv, cl_ecdsa = cl_ecdsa ex_cenv, net_send = serve ex_env 0, spv_wait = id\<rparr>"

definition ex_sender :: "((string \<times> bytes) list, (unit, unit) Server) Client" where
  "ex_sender = \<lparr>cl_pubKey = [], cl_db = [], cl_conn = ex_start False, cl_spv = ex_spv ex_params None [],
     lastServerCommitment = None, fullClient = True, FastMode = True, DummySignatures = True\<rparr>"

lemma ex_link_simps: "net_send ex_link = serve ex_env 0" "kv_Set ex_link db k v = Inr (kv_put k v db)"
  by (simp_all add: ex_link_def ex_cenv_def)

theorem append_reaches_server_witness:
  "\<exists>srv' c'. trie_map (fullmpt srv') (zeros 32) = Some (Sum256 (SignedLogStatement_Bytes ex_sls))
    \<and> AppendLog ex_link 0 (zeros 32) [] ex_sender = (Inr (), c') \<and> cl_conn c' = srv'"
proof -
  have conn: "cl_conn ex_sender = ex_start False" "fullClient ex_sender" by (simp_all add: ex_sender_def)
  have a: "implements (cl_conn ex_sender) als_init"
    unfolding conn using implements_init [where w = "()" and db = "()" and chk = False] by (simp add: NewServer_def)
  have checks: "append_checks ex_link ex_sender 0 (zeros 32) [] = Inr []" "SignedAppendLog ex_link ex_sender 0 (zeros 32) [] = Inr ex_sls"
    by (simp_all add: append_checks_def ex_link_def ex_cenv_def ex_sender_def GetLastHash_def cli_get_def SignedAppendLog_def
        NewSignedLogStatement_def ex_sls_def copy_bytes_def)
  have ok: "sls_ok ex_sls" by (simp add: sls_ok_def ls_ok_def ex_sls_def maxAlloc_def)
  have len: "length (SignedLogStatement_Bytes ex_sls) < 2 ^ 32"
    by (simp add: SignedLogStatement_Bytes_def LogStatement_Bytes_def ex_sls_def bv_WriteVarBytes_def bv_WriteVarInt_def VarIntSerializeSize_def)
  obtain b where "als_append (ecdsa_Verify ex_env) (CheckSignatures (cl_conn ex_sender)) ex_sls als_init = Some b"
    unfolding conn by (simp add: als_append_def als_push_def als_init_def ex_sls_def NewServer_def)
  from append_reaches_server [OF ex_link_simps(1) a checks ok len this] conn(2) obtain srv' where
      "trie_map (fullmpt srv') (zeros 32) = Some (Sum256 (SignedLogStatement_Bytes ex_sls))"
      "AppendLog ex_link 0 (zeros 32) [] ex_sender = db_Update (set_all ex_link
         [(idx_key ''loghash-'' (zeros 32) (fmt_09d (unat (0 :: 64 word))), Sum256 (SignedLogStatement_Bytes ex_sls)),
          (id_key ''lastidx-'' (zeros 32), string_bytes (decimal (unat (0 :: 64 word))))]) (ex_sender\<lparr>cl_conn := srv'\<rparr>)"
    by (simp only: if_True) blast
  then show ?thesis
    by (simp add: db_Update_def ex_link_simps(2))
qed

end
