(* ===== verification/Spec2Isabelle.thy ===== *)
theory Spec2Isabelle
  imports Delta_MPT Btc_Frame Bv_Server_Race Bv_Server_Full Bv_Client_Verify
begin

text \<open>
  A verification development for go-bverify, a server that keeps logs of signed statements in a Merkle
  prefix trie, commits the trie's root hash to the Bitcoin chain, and proves to clients what is
  committed. This theory imports all others.

  \<^bold>\<open>The program.\<close> A client (\<open>client/\<close>) signs statements with ECDSA and sends them over a framed
  connection (\<open>wire/\<close>). The server (\<open>server/\<close>) checks signature and index and stores the hash of the
  signed statement under the log's ID in a full trie (\<open>mpt/\<close>, hashed with \<open>crypto/fastsha256\<close>). When it
  commits, it pays a Bitcoin transaction that carries the root hash, keeps a copy of the trie for proofs
  and sends deltas to subscribers. A client downloads block headers (\<open>client/uspv\<close>, \<open>bitcoin/wire\<close>,
  \<open>bitcoin/blockchain\<close>, \<open>bitcoin/coinparam\<close>), checks that each commitment transaction is in a known block
  (\<open>utils/merkleproof.go\<close>) and spends the one before it, checks proofs for its logs against the committed
  root, and can export a statement with its proof for others to verify (\<open>client/rpc.go\<close>).

  \<^bold>\<open>Conventions.\<close> A byte is an \<open>8 word\<close>, a slice a list. A Go call that can fail has the type \<open>'a go\<close>:
  \<open>Inl (GoError e)\<close> is a returned error, \<open>Inl (GoPanic e)\<close> a panic, so out-of-range indices, nil
  dereferences, failed type assertions and divisions by zero are values. Readers take the unread bytes
  and return the rest. Integers have the width of the code where it matters (\<open>32 word\<close>, \<open>64 word\<close>,
  \<open>i32\<close>). Structs are records; a method that changes its receiver returns it. Code outside the
  repository is a parameter: ECDSA, the databases, the wallet and the Bitcoin peers are the fields of the
  records \<open>env\<close> (server) and \<open>cenv\<close> (client).

  \<^bold>\<open>Theories.\<close>
  \<^item> \<open>Bv_Prelude\<close>: results, readers, byte order, the collections \<open>go_simps\<close>, \<open>codec_simps\<close>,
    \<open>len_simps\<close> and \<open>parser_intros\<close>. \<open>Codec\<close>: locales for an encoder and its decoder (\<open>codec\<close>, \<open>canonical_codec\<close>,
    \<open>checked_codec\<close>), interpreted on every encoding below.
  \<^item> \<open>Fast_Sha256\<close> (\<open>crypto/fastsha256\<close>): the streaming digest and the unrolled block function equal the
    function of FIPS 180-4 (C12), and writes may be cut anywhere.
  \<^item> \<open>Bv_Utils\<close> (\<open>utils/utils.go\<close>): bits of a key, script matching, the power-of-two loop.
  \<^item> \<open>Mpt_Node\<close>, \<open>Full_MPT\<close>, \<open>Full_MPT_Correct\<close>, \<open>Auth_Dict\<close> (\<open>mpt/node.go\<close> and the node files,
    \<open>mpt/fullmpt.go\<close>): nodes with their cached hashes and change marks; the trie invariant
    \<open>trie_inv\<close>; the locale \<open>auth_dict\<close> of an authenticated dictionary, interpreted on the full trie.
    Every sequence of operations refines a finite map (C1), the commitment depends on the map alone
    (C2), and a copy after a commitment is faithful (C19).
  \<^item> \<open>Mpt_Serial\<close>: nodes and tries as bytes (C16, C18); the parser is total (C17).
  \<^item> \<open>Partial_MPT\<close> (\<open>mpt/partialmpt.go\<close>): proofs. They are complete (C4) and bind the values they show,
    up to evidence that \<open>forgery\<close> computes (C3); absence is not bound (C20).
  \<^item> \<open>Delta_MPT\<close> (\<open>mpt/deltampt.go\<close>): deltas bring a client's proof up to date (C5) unless a key was
    deleted (C31) or a leaf was split below a shared prefix (C32).
  \<^item> \<open>Chain_Hash\<close>, \<open>Btc_Codec\<close>, \<open>Btc_Tx\<close>, \<open>Btc_Block\<close>, \<open>Btc_Msg\<close>, \<open>Btc_Frame\<close> (\<open>bitcoin/chainhash\<close>,
    \<open>bitcoin/wire\<close>): hashes, transactions with their witness encoding, blocks, headers, all messages and
    their framing. Round trips (C21, C22) and, as lemmas, canonical identifiers and the ranges that
    \<open>DeserializeTxLoc\<close> reports. The locale \<open>capped_list\<close> is the contract of the bounded lists in messages.
  \<^item> \<open>Merkle_Tree\<close> (\<open>bitcoin/blockchain/merkle.go\<close>, \<open>utils/merkleproof.go\<close>): proofs of inclusion are
    complete (C23) and sound up to a collision (C24).
  \<^item> \<open>Btcec_Sig\<close>, \<open>Sig64\<close> (\<open>crypto/btcec\<close>, \<open>crypto/sig64\<close>, \<open>crypto/verify.go\<close>): public keys (C25), DER
    signatures, their 64-byte form (C27) and \<open>VerifySig\<close> (C26).
  \<^item> \<open>Bv_Wire\<close> (\<open>wire/\<close>): statements, commitments, foreign statements and messages (C28, C29).
  \<^item> \<open>Bv_Server\<close> (\<open>server/server.go\<close>, \<open>server/logprocessor.go\<close>): the state \<open>Server\<close>, one definition per
    handler, \<open>Commit\<close>, the block watcher's round, saving and loading. \<open>Bv_Server_Correct\<close>: the abstract
    log service \<open>log_service\<close>, the relation \<open>srv_step\<close> and its reachable states, the relation
    \<open>implements\<close>. \<open>Bv_Server_Props\<close>: the server refines the service (C6), what it stores is signed
    (C7), an accepted append is in the next proof (C8), messages that crash it (C33).
    \<open>Bv_Server_Race\<close>: the atomic steps of concurrent appends, safe for different logs (C15) and not for
    one log (C34). \<open>Bv_Server_Full\<close>: the start on the chain and why it stalls (C35) or cannot be
    restarted (C36).
  \<^item> \<open>Chain_Diff\<close> (\<open>bitcoin/blockchain/difficulty.go\<close>, \<open>bitcoin/coinparam\<close>): compact targets (C30), the
    difficulty rule on the registered networks (C14).
  \<^item> \<open>Spv_Chain\<close>, \<open>Spv_Correct\<close> (\<open>client/uspv\<close>): the header file with its offset, \<open>CheckHeaderChain\<close>,
    \<open>IngestHeaders\<close>, lookups. Headers behind the tip are taken all or nothing and checked (C13); the
    first lookup is right (lemma \<open>first_lookup\<close>); forks (C38), the second header of a message (C39)
    and second lookups (C40) are handled wrongly.
  \<^item> \<open>Bv_Client\<close> (\<open>client/client.go\<close>, \<open>chainverify.go\<close>, \<open>commitverify.go\<close>, \<open>rpc.go\<close>): operations on the
    record \<open>Client\<close>, sequenced by \<open>op_bind\<close>, which keeps the state that an error leaves.
    \<open>Bv_Client_Chain\<close>: the history a round accepts is a chain of spends (C11), but the committed value
    is not bound to the transaction (C37). \<open>Bv_Client_Verify\<close>: the client's append against the server's
    handler (C9), and what a verified statement shows (C10).
\<close>

text \<open>
  \<^bold>\<open>Hashes.\<close> Nothing is assumed about SHA-256. Where security rests on it, the theorem has the
  exceptional case in its conclusion as data: a collision, a preimage of the zero hash, or a leaf that
  reads as an interior node.

  \<^bold>\<open>Termination and fuel.\<close> All definitions are total. \<open>DeserializeNode\<close> runs with one unit of fuel more
  than there are unread bytes, which is enough because each level reads a type byte
  (\<open>DeserializeNode_fuel_enough\<close>). The loops of \<open>NextPowerOfTwo\<close> and the merkle tree height do not end
  for arguments above \<open>2 ^ 63\<close>; their model returns \<open>None\<close> there. Other loops have a measure, or the
  bound that is written in the code (2199 headers in \<open>FindHeader\<close>, three attempts in
  \<open>verifyCommitment\<close>). The header properties assume fewer than \<open>2 ^ 24\<close> headers, so that offsets fit in
  the 32-bit integers of the code (this is more than three centuries of blocks).

  \<^bold>\<open>Sharing.\<close> Slices are values. Where the code's behaviour depends on a shared array it is explicit:
  \<open>own_shared\<close> of the server (C35), the spare capacity of \<open>SigCompress\<close>, the contiguous script buffer of
  \<open>MsgTx.BtcDecode\<close>, and the file offset of the header file (C38).

  \<^bold>\<open>Concurrency.\<close> Connections of a server interleave in \<open>Bv_Server_Race\<close>; elsewhere a handler runs as
  one step, as its locks make it. The client's receive loop is a function from the bytes that arrive to
  the values on its channels, and a call waits for the first it selects.

  \<^bold>\<open>Not modelled.\<close>
  \<^item> ECDSA on the curve, key generation and encryption (\<open>crypto/btcec\<close> apart from encodings): a
    cryptographic assumption, and a copy of btcd with generated tables.
  \<^item> \<open>wallet/\<close>: coin selection and polling through the RPC interface of a Bitcoin node; a parameter of
    the server. Its libraries \<open>bitcoin/txscript\<close>, \<open>btcutil\<close>, \<open>base58\<close>, \<open>bech32\<close>, \<open>chaincfg\<close>, \<open>rpcclient\<close>,
    \<open>btcjson\<close>, \<open>websocket\<close> and \<open>go-socks\<close> are vendored; the log service needs nothing of them but the
    connection parameters it passes on and \<open>btcutil.Tx\<close>, a transaction with its hash.
  \<^item> Sockets, the Bitcoin handshake, DNS seeds and reconnecting; HTTP, JSON and base64 around the RPC
    methods; key files and directories; timers, of which only the outcome (an answer or a timeout) is
    kept; log output and DOT graphs.
  \<^item> Kimoto Gravity Well in \<open>coinparam\<close> (floating point, used by no registered network), and
    \<open>AskForBlocks\<close> and \<open>InvHandler\<close> of \<open>uspv\<close>, which act on channels that nothing fills.
  \<^item> \<open>cmd/\<close>, \<open>mobile/\<close>, \<open>smart-contracts/\<close>, \<open>server/mocks\<close>, benchmarks and logging.
  \<^item> Numbers and hashes formatted into the error texts of \<open>uspv\<close>, \<open>coinparam\<close> and \<open>bitcoin/wire\<close>.
\<close>

end
